(* ===== verification/Prelude.thy ===== *)
theory Prelude
  imports Main
    "HOL-Library.Code_Target_Nat"
    "HOL-Library.Char_ord"
    "HOL-Library.List_Lexorder"
    "HOL-Library.Product_Lexorder"
    "HOL-Library.Sublist"
begin

text \<open>
  Shared vocabulary of the development: the collections of simplification rules the component
  theories fill, Go maps as association lists, first-seen deduplication, and two interfaces that
  several components implement: canonical (sorted, duplicate free) lists and print/parse pairs.
\<close>

named_theorems text_simps \<open>definitions of the string operations of the Go standard library\<close>
named_theorems net_simps \<open>definitions of the IPv4 operations\<close>
named_theorems site_simps \<open>definitions of the site model\<close>
named_theorems uci_simps \<open>definitions of rendered documents and device snapshots\<close>
named_theorems engine_simps \<open>definitions of the apply engine\<close>

section \<open>Go maps\<close>

text \<open>
  A Go map is an association list with distinct keys. Its order is the iteration order of one
  \<open>range\<close> loop, which Go leaves open: a theorem about every list holds for every order.
\<close>

type_synonym 'v gomap = "(string \<times> 'v) list"

abbreviation keys :: "'v gomap \<Rightarrow> string list" where
  "keys m \<equiv> map fst m"

definition wf_map :: "'v gomap \<Rightarrow> bool" where
  "wf_map m \<longleftrightarrow> distinct (keys m)"

text \<open>Reading a missing key of a \<open>map[string]string\<close> yields the empty string.\<close>

definition get_str :: "string gomap \<Rightarrow> string \<Rightarrow> string" where
  "get_str m k = (case map_of m k of None \<Rightarrow> [] | Some v \<Rightarrow> v)"

definition has_key :: "'v gomap \<Rightarrow> string \<Rightarrow> bool" where
  "has_key m k \<longleftrightarrow> map_of m k \<noteq> None"

definition put :: "'k \<Rightarrow> 'v \<Rightarrow> ('k \<times> 'v) list \<Rightarrow> ('k \<times> 'v) list" where
  "put k v m = (k, v) # filter (\<lambda>e. fst e \<noteq> k) m"

definition del :: "'k \<Rightarrow> ('k \<times> 'v) list \<Rightarrow> ('k \<times> 'v) list" where
  "del k m = filter (\<lambda>e. fst e \<noteq> k) m"

lemma has_key_iff: "has_key m k \<longleftrightarrow> k \<in> set (keys m)"
  by (simp add: has_key_def map_of_eq_None_iff)

lemma map_of_filter_neq:
  "map_of (filter (\<lambda>e. fst e \<noteq> k) m) k' = (if k' = k then None else map_of m k')"
  by (induction m) auto

lemma map_of_put [simp]: "map_of (put k v m) k' = (if k' = k then Some v else map_of m k')"
  by (simp add: put_def map_of_filter_neq)

lemma map_of_del [simp]: "map_of (del k m) k' = (if k' = k then None else map_of m k')"
  by (simp add: del_def map_of_filter_neq)

lemma wf_map_filter: "wf_map m \<Longrightarrow> wf_map (filter P m)"
  by (simp add: wf_map_def distinct_map_filter)

lemma wf_map_put [simp]: "wf_map m \<Longrightarrow> wf_map (put k v m)"
  by (auto simp: put_def wf_map_def distinct_map_filter)

lemma wf_map_del [simp]: "wf_map m \<Longrightarrow> wf_map (del k m)"
  by (simp add: del_def wf_map_filter)

lemma get_str_put [simp]: "get_str (put k v m) k' = (if k' = k then v else get_str m k')"
  by (simp add: get_str_def)

lemma get_str_del [simp]: "get_str (del k m) k' = (if k' = k then [] else get_str m k')"
  by (simp add: get_str_def)

lemma has_key_put [simp]: "has_key (put k v m) k' \<longleftrightarrow> k' = k \<or> has_key m k'"
  by (simp add: has_key_def)

lemma has_key_del [simp]: "has_key (del k m) k' \<longleftrightarrow> k' \<noteq> k \<and> has_key m k'"
  by (simp add: has_key_def)

lemma map_of_mem: "wf_map m \<Longrightarrow> (k, v) \<in> set m \<longleftrightarrow> map_of m k = Some v"
  by (simp add: wf_map_def)

lemma map_of_rev_wf: "distinct (keys m) \<Longrightarrow> map_of (rev m) k = map_of m k"
proof -
  assume d: "distinct (keys m)"
  then have r: "distinct (keys (rev m))" by (simp add: rev_map [symmetric])
  show "map_of (rev m) k = map_of m k"
  proof (cases "map_of m k")
    case None
    then have "map_of (rev m) k = None" unfolding map_of_eq_None_iff by simp
    with None show ?thesis by simp
  next
    case (Some v)
    then have "(k, v) \<in> set (rev m)" using map_of_SomeD by fastforce
    with map_of_is_SomeI [OF r this] Some show ?thesis by simp
  qed
qed

section \<open>First-seen deduplication\<close>

text \<open>The loop shape \<open>if !seen[x] { seen[x] = true; out = append(out, x) }\<close>.\<close>

fun nub_seen :: "'a list \<Rightarrow> 'a list \<Rightarrow> 'a list" where
  "nub_seen seen [] = []"
| "nub_seen seen (x # xs) =
     (if x \<in> set seen then nub_seen seen xs else x # nub_seen (x # seen) xs)"

definition nub :: "'a list \<Rightarrow> 'a list" where
  "nub xs = nub_seen [] xs"

lemma set_nub_seen: "set (nub_seen seen xs) = set xs - set seen"
  by (induction xs arbitrary: seen) auto

lemma distinct_nub_seen: "distinct (nub_seen seen xs)"
  by (induction xs arbitrary: seen) (auto simp: set_nub_seen)

lemma nub_seen_id: "distinct xs \<Longrightarrow> set xs \<inter> set seen = {} \<Longrightarrow> nub_seen seen xs = xs"
  by (induction xs arbitrary: seen) auto

lemma set_nub [simp]: "set (nub xs) = set xs"
  by (simp add: nub_def set_nub_seen)

lemma distinct_nub [simp]: "distinct (nub xs)"
  by (simp add: nub_def distinct_nub_seen)

lemma nub_id: "distinct xs \<Longrightarrow> nub xs = xs"
  by (simp add: nub_def nub_seen_id)

section \<open>Canonical lists\<close>

text \<open>
  Several operations reduce a list to a sorted list without duplicates whose members depend only
  on the members of the input. The contract makes the result independent of input order and
  repetition, which is what makes previews reproducible.
\<close>

locale canonical =
  fixes canon :: "'a list \<Rightarrow> 'b::linorder list"
    and denote :: "'a set \<Rightarrow> 'b set"
  assumes canon_sorted: "sorted (canon xs)"
    and canon_distinct: "distinct (canon xs)"
    and canon_set: "set (canon xs) = denote (set xs)"
begin

lemma canon_cong: "set xs = set ys \<Longrightarrow> canon xs = canon ys"
  by (rule sorted_distinct_set_unique)
    (simp_all add: canon_sorted canon_distinct canon_set)

lemma canon_perm: "canon (rev xs) = canon xs"
  by (rule canon_cong) simp

lemma canon_strict: "sorted_wrt (<) (canon xs)"
  by (simp add: strict_sorted_iff canon_sorted canon_distinct)

end

section \<open>Print and parse\<close>

locale print_parse =
  fixes print :: "'a \<Rightarrow> string"
    and parse :: "string \<Rightarrow> 'a option"
    and ok :: "'a \<Rightarrow> bool"
  assumes parse_print: "ok x \<Longrightarrow> parse (print x) = Some x"
begin

lemma print_inj: "ok x \<Longrightarrow> ok y \<Longrightarrow> print x = print y \<longleftrightarrow> x = y"
  by (metis parse_print option.inject)

lemma print_inj_on: "inj_on print {x. ok x}"
  by (auto simp: inj_on_def print_inj)

end

section \<open>Step systems\<close>

text \<open>
  A component whose goroutines interleave is a step relation; an invariant that holds initially
  and is kept by every step holds in every reachable state.
\<close>

inductive reach :: "('s \<Rightarrow> 's \<Rightarrow> bool) \<Rightarrow> 's \<Rightarrow> 's \<Rightarrow> bool" for step s0 where
  reach_init: "reach step s0 s0"
| reach_step: "reach step s0 s \<Longrightarrow> step s t \<Longrightarrow> reach step s0 t"

locale invariant_system =
  fixes init :: 's
    and step :: "'s \<Rightarrow> 's \<Rightarrow> bool"
    and inv :: "'s \<Rightarrow> bool"
  assumes inv_init: "inv init"
    and inv_step: "inv s \<Longrightarrow> step s t \<Longrightarrow> inv t"
begin

lemma reach_inv: "reach step init s \<Longrightarrow> inv s"
  by (induction rule: reach.induct) (auto intro: inv_init inv_step)

end

section \<open>Folds that collect errors\<close>

lemma concat_map_Nil_iff: "concat (map f xs) = [] \<longleftrightarrow> (\<forall>x\<in>set xs. f x = [])"
  by simp

lemma if_errors_Nil: "concat (map (\<lambda>x. if P x then [e x] else []) xs) = [] \<longleftrightarrow> (\<forall>x\<in>set xs. \<not> P x)"
  by (induction xs) auto

text \<open>The double loop over all pairs \<open>i < j\<close>.\<close>

fun all_pairs :: "('a \<Rightarrow> 'a \<Rightarrow> 'e list) \<Rightarrow> 'a list \<Rightarrow> 'e list" where
  "all_pairs f [] = []"
| "all_pairs f (x # xs) = concat (map (f x) xs) @ all_pairs f xs"

lemma all_pairs_nth:
  "all_pairs f xs = [] \<Longrightarrow> i < j \<Longrightarrow> j < length xs \<Longrightarrow> f (xs ! i) (xs ! j) = []"
proof (induction xs arbitrary: i j)
  case (Cons x xs)
  then obtain j' where j: "j = Suc j'" by (cases j) auto
  show ?case
  proof (cases i)
    case 0
    with Cons.prems j show ?thesis by simp
  next
    case (Suc i')
    with Cons.prems j Cons.IH [of i' j'] show ?thesis by simp
  qed
qed simp

text \<open>Concatenated groups are disjoint when each element determines its group.\<close>

lemma distinct_concat_map:
  assumes "distinct is" and "\<And>i. distinct (g i)" and fn: "\<And>i x. x \<in> set (g i) \<Longrightarrow> i = f x"
  shows "distinct (concat (map g is))"
  using assms(1)
proof (induction "is")
  case (Cons i js)
  have "x \<notin> set (concat (map g js))" if "x \<in> set (g i)" for x
    using that fn Cons.prems by auto
  with Cons assms(2) show ?case by auto
qed simp

lemma find_Some_in: "find P xs = Some x \<Longrightarrow> x \<in> set xs \<and> P x"
  by (induction xs) (auto split: if_splits)

lemma find_None_all: "find P xs = None \<longleftrightarrow> (\<forall>x\<in>set xs. \<not> P x)"
  by (induction xs) auto

end
