(* ===== verification/Roles.thy ===== *)
theory Roles
  imports GoText
begin

text \<open>
  Device roles, device functions and management modes (\<open>internal/model/role.go\<close>,
  \<open>function.go\<close>, \<open>management.go\<close>). The three are named string types in Go, so a value
  outside the vocabulary exists and is a case of every definition here. A nil function list is
  \<open>None\<close>: it means a legacy caller, and differs from an empty list.
\<close>

section \<open>Roles\<close>

definition RoleGateway :: string where [simp]: "RoleGateway = ''gateway''"
definition RoleAP :: string where [simp]: "RoleAP = ''ap''"
definition RoleSwitch :: string where [simp]: "RoleSwitch = ''switch''"

definition Roles :: "string list" where
  "Roles = [RoleGateway, RoleAP, RoleSwitch]"

definition role_or :: "string \<Rightarrow> string" where
  "role_or r = (if r = [] then RoleAP else r)"

definition role_wireless :: "string \<Rightarrow> bool" where
  "role_wireless r = (let v = role_or r in v = RoleAP \<or> v = RoleGateway)"

definition role_routes :: "string \<Rightarrow> bool" where
  "role_routes r \<longleftrightarrow> role_or r = RoleGateway"

datatype name_error = NotARole string | NotAFunction string | NoFunctions | NotAMode string

definition parse_role :: "string \<Rightarrow> name_error + string" where
  "parse_role s =
     (let v = to_lower (trim_space s)
      in if v = [] then Inr RoleAP
         else (case find (\<lambda>r. v = r) Roles of Some r \<Rightarrow> Inr r | None \<Rightarrow> Inl (NotARole s)))"

definition role_of :: "string \<Rightarrow> string" where
  "role_of s = (case parse_role s of Inr r \<Rightarrow> r | Inl _ \<Rightarrow> RoleAP)"

section \<open>Functions\<close>

definition FunctionGateway :: string where [simp]: "FunctionGateway = ''gateway''"
definition FunctionAP :: string where [simp]: "FunctionAP = ''ap''"
definition FunctionSwitch :: string where [simp]: "FunctionSwitch = ''switch''"

definition DeviceFunctionChoices :: "string list" where
  "DeviceFunctionChoices = [FunctionGateway, FunctionAP, FunctionSwitch]"

definition functions_for_role :: "string \<Rightarrow> string list" where
  "functions_for_role role =
     (if role_or role = RoleGateway then [FunctionGateway, FunctionAP, FunctionSwitch]
      else if role_or role = RoleSwitch then [FunctionSwitch]
      else [FunctionAP, FunctionSwitch])"

text \<open>The first loop of \<open>ParseDeviceFunctions\<close>: the first unknown name is the error.\<close>

fun collect_functions :: "string list \<Rightarrow> string list \<Rightarrow> name_error + string list" where
  "collect_functions seen [] = Inr seen"
| "collect_functions seen (raw # rest) =
     (let fn = to_lower (trim_space raw)
      in if fn \<in> set DeviceFunctionChoices then collect_functions (fn # seen) rest
         else Inl (NotAFunction raw))"

definition parse_device_functions :: "string list option \<Rightarrow> string \<Rightarrow> name_error + string list" where
  "parse_device_functions inp role =
     (case inp of
        None \<Rightarrow> Inr (functions_for_role role)
      | Some names \<Rightarrow>
          if names = [] then Inl NoFunctions
          else (case collect_functions [] names of
                  Inl e \<Rightarrow> Inl e
                | Inr seen \<Rightarrow> Inr (filter (\<lambda>fn. fn \<in> set seen) DeviceFunctionChoices)))"

definition device_functions_of :: "string list option \<Rightarrow> string \<Rightarrow> string list" where
  "device_functions_of inp role =
     (case parse_device_functions inp (role_of role) of Inl _ \<Rightarrow> [] | Inr fs \<Rightarrow> fs)"

definition has_function :: "string list \<Rightarrow> string \<Rightarrow> bool" where
  "has_function fs want \<longleftrightarrow> list_ex (\<lambda>got. got = want) fs"

definition functions_route :: "string list \<Rightarrow> bool" where
  "functions_route fs = has_function fs FunctionGateway"

definition functions_wireless :: "string list \<Rightarrow> bool" where
  "functions_wireless fs = has_function fs FunctionAP"

definition functions_switch :: "string list \<Rightarrow> bool" where
  "functions_switch fs = has_function fs FunctionSwitch"

definition primary_role :: "string list \<Rightarrow> string" where
  "primary_role fs =
     (if functions_route fs then RoleGateway
      else if functions_wireless fs then RoleAP else RoleSwitch)"

section \<open>Management modes\<close>

definition ModeManaged :: string where [simp]: "ModeManaged = ''managed''"
definition ModeMonitorOnly :: string where [simp]: "ModeMonitorOnly = ''monitor_only''"

definition parse_management_mode :: "string \<Rightarrow> name_error + string" where
  "parse_management_mode raw =
     (let mode = to_lower (trim_space raw)
      in if mode = [] \<or> mode = ModeManaged then Inr ModeManaged
         else if mode = ModeMonitorOnly then Inr ModeMonitorOnly
         else Inl (NotAMode raw))"

definition mode_configures :: "string \<Rightarrow> bool" where
  "mode_configures m \<longleftrightarrow> m = ModeManaged"

section \<open>Facts\<close>

lemma has_function_iff: "has_function fs f \<longleftrightarrow> f \<in> set fs"
  by (auto simp: has_function_def list_ex_iff)

lemma parse_role_mem: "parse_role s = Inr r \<Longrightarrow> r \<in> set Roles"
  by (auto simp: parse_role_def Let_def Roles_def split: if_splits option.splits dest: find_Some_in)

lemma role_of_mem: "role_of s \<in> set Roles"
  by (auto simp: role_of_def Roles_def dest: parse_role_mem split: sum.splits)

lemma collect_functions_Inr:
  "collect_functions seen names = Inr out \<longleftrightarrow>
     (\<forall>n\<in>set names. to_lower (trim_space n) \<in> set DeviceFunctionChoices) \<and>
     out = rev (map (\<lambda>n. to_lower (trim_space n)) names) @ seen"
  by (induction names arbitrary: seen) (auto simp: Let_def)

lemma parse_functions_Inr:
  assumes "parse_device_functions (Some names) role = Inr fs"
  shows "names \<noteq> []"
    and "\<forall>n\<in>set names. to_lower (trim_space n) \<in> set DeviceFunctionChoices"
    and "fs = filter (\<lambda>f. f \<in> (\<lambda>n. to_lower (trim_space n)) ` set names) DeviceFunctionChoices"
  using assms
  by (auto simp: parse_device_functions_def collect_functions_Inr split: if_splits sum.splits)

lemma functions_for_role_cases:
  "r \<in> set Roles \<Longrightarrow>
     functions_route (functions_for_role r) = role_routes r \<and>
     functions_wireless (functions_for_role r) = role_wireless r \<and>
     functions_switch (functions_for_role r) \<and>
     primary_role (functions_for_role r) = r"
  by (auto simp: Roles_def functions_for_role_def role_or_def functions_route_def role_routes_def
      functions_wireless_def role_wireless_def functions_switch_def primary_role_def has_function_def)

section \<open>Properties\<close>

text \<open>
  Parsing a present function array either fails or yields exactly the named functions, in
  the canonical order gateway, ap, switch, without duplicates and never empty; the result does
  not depend on the order, repetition, case or padding of the names.
\<close>

theorem parse_functions_canonical:
  assumes "parse_device_functions (Some names) role = Inr fs"
  shows "fs \<noteq> [] \<and> distinct fs \<and> subseq fs DeviceFunctionChoices \<and>
    set fs = (\<lambda>n. to_lower (trim_space n)) ` set names"
proof -
  note p = parse_functions_Inr [OF assms]
  have set: "set fs = (\<lambda>n. to_lower (trim_space n)) ` set names"
    using p(2,3) by auto
  moreover have "fs \<noteq> []"
  proof -
    have "set fs \<noteq> {}" using set p(1) by simp
    then show ?thesis by auto
  qed
  moreover have "distinct fs"
    using p(3) by (simp add: DeviceFunctionChoices_def)
  moreover have "subseq fs DeviceFunctionChoices"
    using p(3) by (simp add: subseq_filter_left)
  ultimately show ?thesis by blast
qed

theorem parse_functions_canonical_witness:
  "[''ap'', ''switch''] \<noteq> [] \<and> distinct [''ap'', ''switch''] \<and>
   subseq [''ap'', ''switch''] DeviceFunctionChoices \<and>
   set [''ap'', ''switch''] = (\<lambda>n. to_lower (trim_space n)) ` set ['' Switch'', ''AP'', ''ap'']"
proof -
  have "parse_device_functions (Some ['' Switch'', ''AP'', ''ap'']) [] = Inr [''ap'', ''switch'']"
    by code_simp
  from parse_functions_canonical [OF this] show ?thesis .
qed

text \<open>
  C40. For every stored role text, the functions a legacy row expands to route exactly when the
  role routed, publish WLANs exactly when the role was wireless, always switch, and their primary
  role is the role again; so replacing roles by functions changes no legacy device.
\<close>

theorem legacy_role_equivalence:
  "device_functions_of None s = functions_for_role (role_of s) \<and>
   functions_route (device_functions_of None s) = role_routes (role_of s) \<and>
   functions_wireless (device_functions_of None s) = role_wireless (role_of s) \<and>
   functions_switch (device_functions_of None s) \<and>
   primary_role (device_functions_of None s) = role_of s"
  using functions_for_role_cases [OF role_of_mem [of s]]
  by (simp add: device_functions_of_def parse_device_functions_def)

end
