(* ===== verification/Netip.thy ===== *)
theory Netip
  imports GoText "HOL-Library.Word"
begin

text \<open>
  IPv4 addresses and prefixes as \<open>net/netip\<close> has them. Every use in the program either demands
  \<open>Is4()\<close> or only compares prefixes that already passed that demand, so an address is a 32-bit
  word and text that is not dotted decimal does not parse. The characterisations below turn the
  bit operations of \<open>Contains\<close>, \<open>Masked\<close> and \<open>Overlaps\<close> into interval arithmetic.
\<close>

unbundle bit_operations_syntax

type_synonym ipv4 = "32 word"

record prefix4 =
  p_addr :: ipv4
  p_bits :: nat

definition wf_prefix :: "prefix4 \<Rightarrow> bool" where
  "wf_prefix p \<longleftrightarrow> p_bits p \<le> 32"

section \<open>Parsing and printing\<close>

definition parse_octet :: "string \<Rightarrow> nat option" where
  "parse_octet s =
     (if s = [] \<or> \<not> list_all is_digit s then None
      else if length s > 1 \<and> hd s = CHR ''0'' then None
      else if read_digits s > 255 then None else Some (read_digits s))"

definition addr_of_octets :: "nat \<Rightarrow> nat \<Rightarrow> nat \<Rightarrow> nat \<Rightarrow> ipv4" where
  "addr_of_octets a b c d = of_nat (((a * 256 + b) * 256 + c) * 256 + d)"

definition parse_addr :: "string \<Rightarrow> ipv4 option" where
  "parse_addr s =
     (case map parse_octet (split_on (CHR ''.'') s) of
        [Some a, Some b, Some c, Some d] \<Rightarrow> Some (addr_of_octets a b c d)
      | _ \<Rightarrow> None)"

text \<open>The digits after the last slash: no sign and no leading zero, at most 32.\<close>

definition parse_bits :: "string \<Rightarrow> nat option" where
  "parse_bits s =
     (if s = [] \<or> \<not> list_all is_digit s then None
      else if length s > 1 \<and> hd s = CHR ''0'' then None
      else if read_digits s > 32 then None else Some (read_digits s))"

definition parse_prefix :: "string \<Rightarrow> prefix4 option" where
  "parse_prefix s =
     (case rev (split_on (CHR ''/'') s) of
        b # a # rest \<Rightarrow>
          (case (parse_addr (join ''/'' (rev (a # rest))), parse_bits b) of
             (Some ip, Some n) \<Rightarrow> Some \<lparr>p_addr = ip, p_bits = n\<rparr>
           | _ \<Rightarrow> None)
      | _ \<Rightarrow> None)"

definition octet :: "ipv4 \<Rightarrow> nat \<Rightarrow> nat" where
  "octet a i = unat a div 256 ^ (3 - i) mod 256"

definition show_addr :: "ipv4 \<Rightarrow> string" where
  "show_addr a = join ''.'' (map (\<lambda>i. show_nat (octet a i)) [0, 1, 2, 3])"

definition show_prefix :: "prefix4 \<Rightarrow> string" where
  "show_prefix p = show_addr (p_addr p) @ ''/'' @ show_nat (p_bits p)"

section \<open>Masking and containment\<close>

definition netmask :: "nat \<Rightarrow> ipv4" where
  "netmask n = push_bit (32 - n) (- 1)"

definition masked :: "prefix4 \<Rightarrow> prefix4" where
  "masked p = p\<lparr>p_addr := p_addr p AND netmask (p_bits p)\<rparr>"

definition contains :: "prefix4 \<Rightarrow> ipv4 \<Rightarrow> bool" where
  "contains p a \<longleftrightarrow> drop_bit (32 - p_bits p) (a XOR p_addr p) = 0"

text \<open>\<open>Prefix.Overlaps\<close>: the addresses agree on the shorter of the two prefixes.\<close>

definition overlaps :: "prefix4 \<Rightarrow> prefix4 \<Rightarrow> bool" where
  "overlaps p q \<longleftrightarrow>
     (let n = min (p_bits p) (p_bits q) in drop_bit (32 - n) (p_addr p XOR p_addr q) = 0)"

definition block :: "prefix4 \<Rightarrow> nat" where
  "block p = 2 ^ (32 - p_bits p)"

lemma block_pos [simp]: "0 < block p"
  by (simp add: block_def)

lemma unat_ipv4_less: "unat (a :: ipv4) < 2 ^ 32"
proof -
  have "unat a < 2 ^ LENGTH(32)" by (rule unsigned_less)
  then show ?thesis by simp
qed

lemma xor_zero_iff: "a XOR b = (0 :: 'a::len word) \<longleftrightarrow> a = b"
  by (auto simp: bit_eq_iff bit_xor_iff)

lemma drop_xor_zero: "drop_bit n (a XOR b) = (0 :: 'a::len word) \<longleftrightarrow> drop_bit n a = drop_bit n b"
  by (simp add: drop_bit_xor xor_zero_iff)

lemma unat_drop_bit: "unat (drop_bit n (a :: 'a::len word)) = unat a div 2 ^ n"
  using drop_bit_eq_div [of n "unat a"] by (simp add: unat_drop_bit_eq)

lemma contains_div: "contains p a \<longleftrightarrow> unat a div block p = unat (p_addr p) div block p"
proof -
  have "contains p a \<longleftrightarrow> drop_bit (32 - p_bits p) a = drop_bit (32 - p_bits p) (p_addr p)"
    by (simp only: contains_def drop_xor_zero)
  then show ?thesis by (simp add: word_unat_eq_iff unat_drop_bit block_def)
qed

lemma masked_addr: "p_addr (masked p) = push_bit (32 - p_bits p) (drop_bit (32 - p_bits p) (p_addr p))"
  by (rule bit_word_eqI)
    (auto simp: masked_def netmask_def bit_and_iff bit_push_bit_iff bit_drop_bit_eq
      bit_not_iff bit_mask_iff)

lemma unat_masked: "unat (p_addr (masked p)) = unat (p_addr p) div block p * block p"
proof -
  let ?n = "32 - p_bits p"
  have le: "unat (p_addr p) div 2 ^ ?n * 2 ^ ?n \<le> unat (p_addr p)"
    by (rule div_times_less_eq_dividend)
  have "unat (push_bit ?n (drop_bit ?n (p_addr p))) = (unat (p_addr p) div 2 ^ ?n * 2 ^ ?n) mod 2 ^ 32"
    by (subst unsigned_push_bit_eq, subst unat_drop_bit) (simp add: push_bit_eq_mult take_bit_eq_mod)
  also have "\<dots> = unat (p_addr p) div 2 ^ ?n * 2 ^ ?n"
    by (rule mod_less) (rule le_less_trans [OF le unat_ipv4_less])
  finally show ?thesis by (simp only: masked_addr block_def)
qed

lemma bits_masked [simp]: "p_bits (masked p) = p_bits p"
  by (simp add: masked_def)

lemma block_masked [simp]: "block (masked p) = block p"
  by (simp add: block_def)

lemma contains_masked [simp]: "contains (masked p) a = contains p a"
  by (simp add: contains_div unat_masked)

text \<open>A prefix is the interval of addresses of one aligned block.\<close>

lemma contains_interval:
  "contains p a \<longleftrightarrow>
     unat (p_addr (masked p)) \<le> unat a \<and> unat a < unat (p_addr (masked p)) + block p"
proof -
  let ?B = "block p" and ?q = "unat (p_addr p) div block p"
  have B: "0 < ?B" by simp
  have "unat a div ?B = ?q \<longleftrightarrow> ?q * ?B \<le> unat a \<and> unat a < Suc ?q * ?B"
    using B by (metis div_le_mono div_nat_eqI div_mult_self_is_m dividend_less_times_div
        le_refl less_eq_div_iff_mult_less_eq mult.commute not_less_eq_eq div_less_iff_less_mult lessI)
  then show ?thesis
    by (simp add: contains_div unat_masked add.commute)
qed

definition addrs :: "prefix4 \<Rightarrow> ipv4 set" where
  "addrs p = {a. contains p a}"

lemma base_in: "p_addr (masked p) \<in> addrs p"
  by (simp add: addrs_def contains_interval)

lemma self_in: "p_addr p \<in> addrs p"
  by (simp add: addrs_def contains_div)

lemma block_dvd: "p_bits p \<le> p_bits q \<Longrightarrow> block q dvd block p"
  by (auto simp: block_def intro: le_imp_power_dvd)

text \<open>Nested or disjoint: with the shorter prefix first, one common address suffices.\<close>

lemma addrs_subset:
  assumes "p_bits p \<le> p_bits q" and "a \<in> addrs p" and "a \<in> addrs q"
  shows "addrs q \<subseteq> addrs p"
proof
  fix x assume "x \<in> addrs q"
  with assms(3) have "unat x div block q = unat a div block q"
    by (simp add: addrs_def contains_div)
  moreover obtain k where k: "block p = block q * k"
    using block_dvd [OF assms(1)] by (auto simp: dvd_def)
  ultimately have "unat x div block p = unat a div block p"
    by (simp add: div_mult2_eq)
  with assms(2) show "x \<in> addrs p"
    by (simp add: addrs_def contains_div)
qed

lemma overlap_iff_member:
  "addrs p \<inter> addrs q \<noteq> {} \<longleftrightarrow> contains p (p_addr (masked q)) \<or> contains q (p_addr (masked p))"
proof
  assume "addrs p \<inter> addrs q \<noteq> {}"
  then obtain a where a: "a \<in> addrs p" "a \<in> addrs q" by blast
  show "contains p (p_addr (masked q)) \<or> contains q (p_addr (masked p))"
  proof (cases "p_bits p \<le> p_bits q")
    case True
    then show ?thesis using addrs_subset [OF True a] base_in [of q] by (auto simp: addrs_def)
  next
    case False
    then have "p_bits q \<le> p_bits p" by simp
    then show ?thesis using addrs_subset [OF _ a(2,1)] base_in [of p] by (auto simp: addrs_def)
  qed
next
  assume "contains p (p_addr (masked q)) \<or> contains q (p_addr (masked p))"
  then show "addrs p \<inter> addrs q \<noteq> {}"
    using base_in [of p] base_in [of q] by (auto simp: addrs_def)
qed

lemma overlaps_iff: "overlaps p q \<longleftrightarrow> addrs p \<inter> addrs q \<noteq> {}"
proof -
  have short: "overlaps p q \<longleftrightarrow> contains (if p_bits p \<le> p_bits q then p else q)
      (if p_bits p \<le> p_bits q then p_addr q else p_addr p)"
    unfolding overlaps_def contains_def Let_def min_def drop_xor_zero by auto
  show ?thesis
  proof (cases "p_bits p \<le> p_bits q")
    case True
    then show ?thesis
      using addrs_subset [OF True] self_in [of q] by (auto simp: short addrs_def)
  next
    case False
    then have "p_bits q \<le> p_bits p" by simp
    then show ?thesis
      using addrs_subset [of q p] self_in [of p] False by (auto simp: short addrs_def)
  qed
qed

lemma overlaps_sym: "overlaps p q = overlaps q p"
  by (simp add: overlaps_iff inf_commute)

section \<open>Host offsets\<close>

text \<open>The position of the prefix's address inside its block, in 64-bit arithmetic.\<close>

definition host_offset :: "prefix4 \<Rightarrow> 64 word" where
  "host_offset p = ucast (p_addr p) - ucast (p_addr (masked p))"

lemma unat_host_offset: "unat (host_offset p) = unat (p_addr p) mod block p"
proof -
  have up: "unat (ucast a :: 64 word) = unat a" for a :: ipv4
    using unat_ipv4_less [of a] by (simp add: unsigned_ucast_eq take_bit_nat_eq_self)
  have le: "unat (p_addr (masked p)) \<le> unat (p_addr p)"
    by (simp add: unat_masked div_times_less_eq_dividend)
  then have "(ucast (p_addr (masked p)) :: 64 word) \<le> ucast (p_addr p)"
    by (simp add: word_le_nat_alt up)
  then have "unat (host_offset p) = unat (p_addr p) - unat (p_addr (masked p))"
    by (simp add: host_offset_def unat_sub up)
  then show ?thesis by (simp add: unat_masked minus_div_mult_eq_mod)
qed

lemma host_addr: "unat (p_addr p) = unat (p_addr (masked p)) + unat (host_offset p)"
  by (simp add: unat_host_offset unat_masked)

lemma unat_last_host: "n \<le> 32 \<Longrightarrow> unat (push_bit n 1 - 1 :: 32 word) = 2 ^ n - 1"
proof -
  assume n: "n \<le> 32"
  have "(of_nat (2 ^ n - 1) :: 32 word) = push_bit n 1 - 1"
    by (simp add: push_bit_of_1 of_nat_diff)
  moreover have "unat (of_nat (2 ^ n - 1) :: 32 word) = 2 ^ n - 1"
  proof -
    have "(2 :: nat) ^ n \<le> 2 ^ 32" using n by (intro power_increasing) auto
    then have "(2 :: nat) ^ n - 1 < 2 ^ 32"
      by (rule less_le_trans [rotated]) simp
    then show ?thesis by (subst unat_of_nat) (simp add: mod_less)
  qed
  ultimately show ?thesis by simp
qed

lemma base_block_le:
  assumes "p_bits p \<le> 32"
  shows "unat (p_addr (masked p)) + block p \<le> 2 ^ 32"
proof -
  let ?q = "unat (p_addr p) div block p"
  have split: "(2 :: nat) ^ 32 = 2 ^ p_bits p * block p"
    using assms by (simp add: block_def power_add [symmetric])
  have "?q < 2 ^ p_bits p"
    using unat_ipv4_less [of "p_addr p"] unfolding split by (rule less_mult_imp_div_less)
  then have "Suc ?q * block p \<le> 2 ^ p_bits p * block p" by (intro mult_le_mono1) simp
  then show ?thesis unfolding split unat_masked by (simp add: add.commute)
qed

text \<open>The address at an offset inside the block.\<close>

lemma addr_at_offset:
  assumes "p_bits p \<le> 32" and "i < block p"
  obtains a where "unat a = unat (p_addr (masked p)) + i" and "a \<in> addrs p"
proof -
  let ?a = "of_nat (unat (p_addr (masked p)) + i) :: ipv4"
  have "unat (p_addr (masked p)) + i < 2 ^ 32"
    using base_block_le [OF assms(1)] assms(2) by linarith
  then have "unat ?a = unat (p_addr (masked p)) + i" by (subst unat_of_nat) (simp add: mod_less)
  with that [of ?a] assms(2) show thesis by (simp add: addrs_def contains_interval)
qed

lemma unat_64_shift: "n \<le> 32 \<Longrightarrow> unat (push_bit n 1 :: 64 word) = 2 ^ n"
proof -
  assume "n \<le> 32"
  then have "(2 :: nat) ^ n \<le> 2 ^ 32" by (intro power_increasing) auto
  then have "unat (of_nat (2 ^ n) :: 64 word) = 2 ^ n" by (subst unat_of_nat) (simp add: mod_less)
  then show ?thesis by (simp add: push_bit_of_1)
qed

section \<open>Round trip\<close>

lemma octet_less: "octet a i < 256"
  by (simp add: octet_def)

lemma show_nat_single: "n < 10 \<Longrightarrow> show_nat n = [digit_char n]"
  by (simp add: show_nat.simps)

lemma show_nat_hd_zero: "hd (show_nat n) = CHR ''0'' \<Longrightarrow> n = 0"
proof (induction n rule: show_nat.induct)
  case (1 n)
  show ?case
  proof (cases "n < 10")
    case True
    then have "digit_val (hd (show_nat n)) = n"
      by (simp add: show_nat_single digit_char_digit)
    with "1.prems" show ?thesis by (simp add: digit_val_def)
  next
    case False
    then have "hd (show_nat n) = hd (show_nat (n div 10))"
      by (subst show_nat.simps) simp
    with 1 False show ?thesis by simp
  qed
qed

lemma show_nat_canonical: "\<not> (length (show_nat n) > 1 \<and> hd (show_nat n) = CHR ''0'')"
proof
  assume a: "length (show_nat n) > 1 \<and> hd (show_nat n) = CHR ''0''"
  then have "n = 0" by (simp add: show_nat_hd_zero)
  with a show False by (simp add: show_nat_single)
qed

lemma parse_octet_show: "n \<le> 255 \<Longrightarrow> parse_octet (show_nat n) = Some n"
  using show_nat_canonical [of n] by (auto simp: parse_octet_def show_nat_digits read_show_nat)

lemma parse_bits_show: "n \<le> 32 \<Longrightarrow> parse_bits (show_nat n) = Some n"
  using show_nat_canonical [of n] by (auto simp: parse_bits_def show_nat_digits read_show_nat)

lemma nat_octets:
  assumes "n < (256 :: nat) ^ 4"
  shows "((n div 256 ^ 3 mod 256 * 256 + n div 256 ^ 2 mod 256) * 256 + n div 256 mod 256) * 256
     + n mod 256 = n"
proof -
  have top: "n div 256 ^ 3 mod 256 = n div 256 ^ 3"
    using assms by (simp add: less_mult_imp_div_less)
  have "n div 256 ^ 3 * 256 + n div 256 ^ 2 mod 256 = n div 256 ^ 2"
    using div_mult_mod_eq [of "n div 256 ^ 2" 256] by (simp add: div_mult2_eq [symmetric])
  moreover have "n div 256 ^ 2 * 256 + n div 256 mod 256 = n div 256"
    using div_mult_mod_eq [of "n div 256" 256] by (simp add: div_mult2_eq [symmetric])
  ultimately show ?thesis
    by (simp only: top) simp
qed

lemma addr_of_octets_octet: "addr_of_octets (octet a 0) (octet a 1) (octet a 2) (octet a 3) = a"
proof -
  have "unat a < 256 ^ 4" using unat_ipv4_less [of a] by simp
  then show ?thesis
    using nat_octets [of "unat a"] by (simp add: addr_of_octets_def octet_def)
qed

lemma parse_show_addr: "parse_addr (show_addr a) = Some a"
proof -
  have "split_on (CHR ''.'') (show_addr a) = map (\<lambda>i. show_nat (octet a i)) [0, 1, 2, 3]"
    unfolding show_addr_def by (rule split_join) (auto simp: show_nat_no_dot)
  then show ?thesis
    using octet_less [of a 0] octet_less [of a 1] octet_less [of a 2] octet_less [of a 3]
    by (simp add: parse_addr_def parse_octet_show addr_of_octets_octet [simplified])
qed

lemma show_addr_no_slash: "CHR ''/'' \<notin> set (show_addr a)"
  by (auto simp: show_addr_def show_nat_no_slash)

lemma parse_show_prefix: "wf_prefix p \<Longrightarrow> parse_prefix (show_prefix p) = Some p"
  by (simp add: parse_prefix_def show_prefix_def split_on_append show_addr_no_slash
      split_on_none show_nat_no_slash parse_show_addr parse_bits_show wf_prefix_def)

interpretation addr_text: print_parse show_addr parse_addr "\<lambda>_. True"
  by unfold_locales (rule parse_show_addr)

interpretation prefix_text: print_parse show_prefix parse_prefix wf_prefix
  by unfold_locales (rule parse_show_prefix)

lemma parse_prefix_wf: "parse_prefix s = Some p \<Longrightarrow> wf_prefix p"
  by (auto simp: parse_prefix_def parse_bits_def wf_prefix_def
      split: list.splits option.splits if_splits)

lemmas [net_simps] = parse_prefix_def parse_addr_def parse_octet_def parse_bits_def
  addr_of_octets_def masked_def netmask_def contains_def overlaps_def host_offset_def

end
