(* ===== verification/SiteModel.thy ===== *)
theory SiteModel
  imports Roles Netip
begin

text \<open>
  The desired state of one site: the records of \<open>internal/model/site.go\<close>, \<open>zone.go\<close>,
  \<open>policy.go\<close>, \<open>mesh.go\<close>, \<open>uplink.go\<close> and \<open>override.go\<close> with the lookups over
  them. Named string types of the source (bands, security modes, policy kinds) stay strings, since
  the validators reject values outside their vocabulary. A Go \<open>int\<close> is an \<open>int\<close>; where
  arithmetic could overflow the range hypothesis \<open>go_int\<close> appears in the statement.
\<close>

definition go_int :: "int \<Rightarrow> bool" where
  "go_int i \<longleftrightarrow> - (2 ^ 63) \<le> i \<and> i < 2 ^ 63"

section \<open>Radio bands and WLANs\<close>

definition Band2G :: string where [simp]: "Band2G = ''2g''"
definition Band5G :: string where [simp]: "Band5G = ''5g''"
definition Band6G :: string where [simp]: "Band6G = ''6g''"

definition band_valid :: "string \<Rightarrow> bool" where
  "band_valid b \<longleftrightarrow> b = Band2G \<or> b = Band5G \<or> b = Band6G"

definition band_for_frequency :: "int \<Rightarrow> string option" where
  "band_for_frequency mhz =
     (if 2400 \<le> mhz \<and> mhz < 2500 then Some Band2G
      else if 5000 \<le> mhz \<and> mhz < 5900 then Some Band5G
      else if 5925 \<le> mhz \<and> mhz \<le> 7125 then Some Band6G else None)"

definition needs_key :: "string \<Rightarrow> bool" where
  "needs_key m \<longleftrightarrow> m = ''sae'' \<or> m = ''sae-mixed'' \<or> m = ''psk2''"

record security =
  sec_mode :: string
  sec_key :: string
  sec_pmf :: string

record roaming =
  r_ft :: bool
  r_ft_over_ds :: bool
  r_kv :: bool
  r_ft_with_psk2 :: bool

record wlan_options =
  opt_hidden :: bool
  opt_isolate :: bool
  opt_max_assoc :: int
  opt_allow_uplink :: bool

record wlan =
  w_id :: int
  w_ssid :: string
  w_network_id :: int
  w_group_id :: int
  w_bands :: "string list"
  w_security :: security
  w_roaming :: roaming
  w_options :: wlan_options
  w_enabled :: bool

definition publishes_on :: "wlan \<Rightarrow> string \<Rightarrow> bool" where
  "publishes_on w b = list_ex (\<lambda>want. want = b) (w_bands w)"

section \<open>Networks\<close>

record dhcp_config =
  dhcp_enabled :: bool
  dhcp_start :: int
  dhcp_limit :: int
  dhcp_lease :: string

record ipv6_config =
  v6_mode :: string
  v6_len :: int

definition default_ipv6 :: ipv6_config where
  "default_ipv6 = \<lparr>v6_mode = ''preserve'', v6_len = 60\<rparr>"

definition default_dhcp :: dhcp_config where
  "default_dhcp = \<lparr>dhcp_enabled = True, dhcp_start = 100, dhcp_limit = 150, dhcp_lease = ''12h''\<rparr>"

record network =
  n_id :: int
  n_name :: string
  n_vlan :: int
  n_cidr :: string
  n_zone :: string
  n_dhcp :: "dhcp_config option"
  n_ipv6 :: "ipv6_config option"
  n_legacy_dhcp :: bool
  n_enabled :: bool

definition effective_dhcp :: "network \<Rightarrow> dhcp_config" where
  "effective_dhcp n = (case n_dhcp n of None \<Rightarrow> default_dhcp | Some d \<Rightarrow> d)"

definition effective_ipv6 :: "network \<Rightarrow> ipv6_config" where
  "effective_ipv6 n = (case n_ipv6 n of None \<Rightarrow> default_ipv6 | Some c \<Rightarrow> c)"

text \<open>The guard \<open>n.Enabled && n.VLAN > 1\<close>: an active, controller-managed routed network.\<close>

definition active :: "network \<Rightarrow> bool" where
  "active n \<longleftrightarrow> n_enabled n \<and> n_vlan n > 1"

section \<open>Groups, devices, meshes, uplinks and overrides\<close>

record ap_group =
  g_id :: int
  g_name :: string
  g_devices :: "int list"

definition group_contains :: "ap_group \<Rightarrow> int \<Rightarrow> bool" where
  "group_contains g d = list_ex (\<lambda>i. i = d) (g_devices g)"

record device =
  d_id :: int
  d_name :: string
  d_role :: string
  d_functions :: "string list option"

definition effective_functions :: "device \<Rightarrow> string list" where
  "effective_functions d =
     (case d_functions d of None \<Rightarrow> functions_for_role (d_role d) | Some fs \<Rightarrow> fs)"

record mesh =
  m_id :: int
  m_mesh_id :: string
  m_network_id :: int
  m_group_id :: int
  m_band :: string
  m_key :: string
  m_enabled :: bool

record uplink =
  u_id :: int
  u_device_id :: int
  u_wlan_id :: int
  u_band :: string
  u_enabled :: bool

record override =
  ov_device_id :: int
  ov_wlan_id :: int
  ov_key :: string
  ov_value :: string

section \<open>Zone policies and rules\<close>

record zone_policy =
  zp_name :: string
  zp_forward_to :: "string list"
  zp_explicit :: bool

record firewall_rule =
  fr_action :: string
  fr_source_zone :: string
  fr_destination_zone :: string
  fr_protocols :: "string list"
  fr_source_cidr :: string
  fr_destination_cidr :: string
  fr_source_port :: string
  fr_destination_port :: string
  fr_source_set_id :: int
  fr_source_macs :: "string list"

record port_forward =
  pf_source_zone :: string
  pf_destination_zone :: string
  pf_protocols :: "string list"
  pf_external_port :: int
  pf_destination_ip :: string
  pf_destination_port :: int
  pf_source_cidr :: string

record static_route =
  sr_network_id :: int
  sr_target :: string
  sr_gateway :: string
  sr_metric :: int

record policy =
  p_id :: int
  p_order :: int
  p_name :: string
  p_kind :: string
  p_origin :: string
  p_enabled :: bool
  p_firewall :: "firewall_rule option"
  p_port_forward :: "port_forward option"
  p_static_route :: "static_route option"

record policy_client =
  pc_mac :: string
  pc_group :: string
  pc_blocked :: bool
  pc_fixed_ip :: string

record policy_set =
  ps_id :: int
  ps_name :: string
  ps_members :: "string list"

section \<open>The site and its lookups\<close>

record site =
  s_uuid :: string
  s_name :: string
  s_networks :: "network list"
  s_zones :: "zone_policy list"
  s_policies :: "policy list"
  s_policy_sets :: "policy_set list"
  s_policy_clients :: "policy_client list"
  s_wlans :: "wlan list"
  s_meshes :: "mesh list"
  s_uplinks :: "uplink list"
  s_groups :: "ap_group list"
  s_overrides :: "(int \<times> override list) list"

definition network_by_id :: "site \<Rightarrow> int \<Rightarrow> network option" where
  "network_by_id s i = find (\<lambda>n. n_id n = i) (s_networks s)"

definition group_by_id :: "site \<Rightarrow> int \<Rightarrow> ap_group option" where
  "group_by_id s i = find (\<lambda>g. g_id g = i) (s_groups s)"

definition wlan_by_id :: "site \<Rightarrow> int \<Rightarrow> wlan option" where
  "wlan_by_id s i = find (\<lambda>w. w_id w = i) (s_wlans s)"

definition policy_set_by_id :: "site \<Rightarrow> int \<Rightarrow> policy_set option" where
  "policy_set_by_id s i = find (\<lambda>p. ps_id p = i) (s_policy_sets s)"

definition wlans_for :: "site \<Rightarrow> int \<Rightarrow> wlan list" where
  "wlans_for s d =
     filter (\<lambda>w. w_enabled w \<and>
       (case group_by_id s (w_group_id w) of None \<Rightarrow> False | Some g \<Rightarrow> group_contains g d)) (s_wlans s)"

definition meshes_for :: "site \<Rightarrow> int \<Rightarrow> mesh list" where
  "meshes_for s d =
     filter (\<lambda>m. m_enabled m \<and>
       (case group_by_id s (m_group_id m) of None \<Rightarrow> False | Some g \<Rightarrow> group_contains g d)) (s_meshes s)"

definition uplink_for :: "site \<Rightarrow> int \<Rightarrow> uplink option" where
  "uplink_for s d = find (\<lambda>u. u_device_id u = d \<and> u_enabled u) (s_uplinks s)"

lemma group_contains_iff: "group_contains g d \<longleftrightarrow> d \<in> set (g_devices g)"
  by (auto simp: group_contains_def list_ex_iff)

lemma publishes_on_iff: "publishes_on w b \<longleftrightarrow> b \<in> set (w_bands w)"
  by (auto simp: publishes_on_def list_ex_iff)

section \<open>A concrete site\<close>

text \<open>Two managed VLANs, one WLAN, one AP group: the input at which the properties are evaluated.\<close>

definition sample_net :: "int \<Rightarrow> string \<Rightarrow> int \<Rightarrow> string \<Rightarrow> network" where
  "sample_net i name vlan cidr =
     \<lparr>n_id = i, n_name = name, n_vlan = vlan, n_cidr = cidr, n_zone = [], n_dhcp = None,
      n_ipv6 = None, n_legacy_dhcp = False, n_enabled = True\<rparr>"

definition sample_wlan :: wlan where
  "sample_wlan =
     \<lparr>w_id = 7, w_ssid = ''guest'', w_network_id = 2, w_group_id = 1, w_bands = [''2g'', ''5g''],
      w_security = \<lparr>sec_mode = ''psk2'', sec_key = ''secret123'', sec_pmf = ''1''\<rparr>,
      w_roaming = \<lparr>r_ft = False, r_ft_over_ds = False, r_kv = True, r_ft_with_psk2 = False\<rparr>,
      w_options = \<lparr>opt_hidden = False, opt_isolate = True, opt_max_assoc = 0, opt_allow_uplink = True\<rparr>,
      w_enabled = True\<rparr>"

definition sample_site :: site where
  "sample_site =
     \<lparr>s_uuid = ''u-1'', s_name = ''home'',
      s_networks = [sample_net 1 ''iot'' 20 ''10.0.20.1/24'', sample_net 2 ''guest'' 30 ''10.0.30.1/24''],
      s_zones = [\<lparr>zp_name = ''guest'', zp_forward_to = [''wan'', ''iot''], zp_explicit = True\<rparr>],
      s_policies = [], s_policy_sets = [], s_policy_clients = [],
      s_wlans = [sample_wlan], s_meshes = [], s_uplinks = [],
      s_groups = [\<lparr>g_id = 1, g_name = ''all'', g_devices = [1, 2]\<rparr>], s_overrides = []\<rparr>"

end
