(* ===== verification/Zones.thy ===== *)
theory Zones
  imports SiteModel
begin

text \<open>
  Firewall zones (\<open>internal/model/zone.go\<close>): the identifier fw4 sees for a human label, the
  active managed zones of a site, their validation, and the effective directional forwarding
  policy with its historical default.
\<close>

definition FirewallZoneMaxLen :: nat where "FirewallZoneMaxLen = 11"

fun zone_char :: "char \<Rightarrow> string" where
  "zone_char r =
     (if is_lower r \<or> is_digit r then [r]
      else if r = CHR ''_'' \<or> r = CHR ''-'' \<or> r = CHR '' '' then ''_'' else [])"

definition firewall_zone_base :: "string \<Rightarrow> string" where
  "firewall_zone_base name =
     trim_by (\<lambda>c. c = CHR ''_'') (concat (map zone_char (to_lower (trim_space name))))"

definition firewall_zone_name :: "string \<Rightarrow> string" where
  "firewall_zone_name name =
     (let base = firewall_zone_base name
      in if base = [] then ''net''
         else if length base > FirewallZoneMaxLen then take FirewallZoneMaxLen base else base)"

definition zone_label :: "network \<Rightarrow> string" where
  "zone_label n = (if n_zone n = [] then n_name n else n_zone n)"

text \<open>The loop body of \<open>ActiveZoneNames\<close>: the identifier and label a network contributes.\<close>

definition zone_candidate :: "network \<Rightarrow> (string \<times> string) option" where
  "zone_candidate n =
     (if \<not> active n then None
      else let raw = zone_label n; name = trim_space raw
      in if name = [] \<or> name \<noteq> raw then None
         else let base = firewall_zone_base name
         in if base = [] \<or> \<not> is_lower (hd base) then None
            else let i = firewall_zone_name name
            in if i = ''lan'' \<or> i = ''wan'' then None else Some (i, name))"

definition zone_candidates :: "site \<Rightarrow> (string \<times> string) list" where
  "zone_candidates s = List.map_filter zone_candidate (s_networks s)"

definition labels_of :: "(string \<times> string) list \<Rightarrow> string \<Rightarrow> string list" where
  "labels_of cands i = nub (map snd (filter (\<lambda>c. fst c = i) cands))"

definition active_zone_names :: "site \<Rightarrow> string list" where
  "active_zone_names s =
     (let cands = zone_candidates s
      in sort (concat (map (\<lambda>i. let ls = labels_of cands i in if length ls = 1 then ls else [])
                (nub (map fst cands)))))"

datatype zone_error =
    ZoneNotExact string string
  | ZoneNoLetters string string
  | ZoneStartsWithDigit string string string
  | ZoneReserved string string string
  | ZoneAlias string string string
  | SourceNotExact string
  | SourceTwice string
  | SourceReserved string string
  | SourceNotActive string
  | DestNotExact string string
  | DestSelf string
  | DestRendersWan string string
  | DestNotActive string string

fun zone_name_errors :: "(string \<times> string) list \<Rightarrow> network list \<Rightarrow> zone_error list" where
  "zone_name_errors seen [] = []"
| "zone_name_errors seen (n # ns) =
     (if \<not> active n then zone_name_errors seen ns
      else let raw = zone_label n; name = trim_space raw
      in if name = [] \<or> name \<noteq> raw then ZoneNotExact (n_name n) raw # zone_name_errors seen ns
         else let base = firewall_zone_base name
         in if base = [] then ZoneNoLetters (n_name n) name # zone_name_errors seen ns
            else if is_digit (hd base) then
              ZoneStartsWithDigit (n_name n) name (firewall_zone_name name) # zone_name_errors seen ns
            else let i = firewall_zone_name name
            in if i = ''lan'' \<or> i = ''wan'' then ZoneReserved (n_name n) name i # zone_name_errors seen ns
               else (case map_of seen i of
                       Some previous \<Rightarrow>
                         if previous \<noteq> name then ZoneAlias previous name i # zone_name_errors seen ns
                         else zone_name_errors ((i, name) # seen) ns
                     | None \<Rightarrow> zone_name_errors ((i, name) # seen) ns))"

definition validate_zone_names :: "site \<Rightarrow> zone_error list" where
  "validate_zone_names s = zone_name_errors [] (s_networks s)"

definition canonical_zone_destinations :: "string list \<Rightarrow> string list" where
  "canonical_zone_destinations dests = sort (nub dests)"

text \<open>A later stored row for the same source wins, as in the source's map.\<close>

definition effective_zone_policies :: "site \<Rightarrow> zone_policy list" where
  "effective_zone_policies s =
     (let by_name = rev (map (\<lambda>p. (zp_name p, p\<lparr>zp_forward_to := canonical_zone_destinations (zp_forward_to p),
                                         zp_explicit := True\<rparr>)) (s_zones s))
      in map (\<lambda>name. case map_of by_name name of
                Some p \<Rightarrow> p
              | None \<Rightarrow> \<lparr>zp_name = name, zp_forward_to = [''wan''], zp_explicit = False\<rparr>)
           (active_zone_names s))"

definition dest_errors :: "string list \<Rightarrow> string \<Rightarrow> string \<Rightarrow> zone_error list" where
  "dest_errors act src dest =
     (if dest = [] \<or> trim_space dest \<noteq> dest then [DestNotExact src dest]
      else if dest = src then [DestSelf src]
      else if firewall_zone_name dest = ''wan'' \<and> dest \<noteq> ''wan'' then [DestRendersWan src dest]
      else if dest \<noteq> ''wan'' \<and> dest \<notin> set act then [DestNotActive src dest] else [])"

fun zone_policy_errors :: "string list \<Rightarrow> string list \<Rightarrow> zone_policy list \<Rightarrow> zone_error list" where
  "zone_policy_errors act seen [] = []"
| "zone_policy_errors act seen (p # ps) =
     (if zp_name p = [] \<or> trim_space (zp_name p) \<noteq> zp_name p then
        SourceNotExact (zp_name p) # zone_policy_errors act seen ps
      else if zp_name p \<in> set seen then SourceTwice (zp_name p) # zone_policy_errors act seen ps
      else (let source_id = firewall_zone_name (zp_name p)
            in if source_id = ''lan'' \<or> source_id = ''wan'' then [SourceReserved (zp_name p) source_id]
               else if zp_name p \<notin> set act then [SourceNotActive (zp_name p)] else [])
           @ concat (map (dest_errors act (zp_name p)) (zp_forward_to p))
           @ zone_policy_errors act (zp_name p # seen) ps)"

definition validate_zone_policies :: "site \<Rightarrow> zone_error list" where
  "validate_zone_policies s = zone_policy_errors (active_zone_names s) [] (s_zones s)"

section \<open>The rendered identifier\<close>

definition zone_byte :: "char \<Rightarrow> bool" where
  "zone_byte c \<longleftrightarrow> is_lower c \<or> is_digit c \<or> c = CHR ''_''"

lemma zone_char_bytes: "c \<in> set (zone_char r) \<Longrightarrow> zone_byte c"
  by (auto simp: zone_byte_def split: if_splits)

lemma zone_base_bytes: "c \<in> set (firewall_zone_base name) \<Longrightarrow> zone_byte c"
  unfolding firewall_zone_base_def
  by (drule subsetD [OF set_trim_by]) (auto simp: zone_char_bytes simp del: zone_char.simps)

lemma zone_base_hd:
  "firewall_zone_base name \<noteq> [] \<Longrightarrow>
     is_lower (hd (firewall_zone_base name)) \<or> is_digit (hd (firewall_zone_base name))"
  using trim_by_hd [of "\<lambda>c. c = CHR ''_''"] zone_base_bytes [of "hd (firewall_zone_base name)" name]
  by (auto simp: zone_byte_def firewall_zone_base_def)

lemma zone_name_props:
  "firewall_zone_name name \<noteq> [] \<and> length (firewall_zone_name name) \<le> FirewallZoneMaxLen \<and>
   (\<forall>c\<in>set (firewall_zone_name name). zone_byte c)"
proof -
  have net: "\<forall>c\<in>set ''net''. zone_byte c"
    by (simp add: zone_byte_def is_lower_def Let_def)
  show ?thesis
    using zone_base_bytes [of _ name] net
    by (auto simp: firewall_zone_name_def Let_def FirewallZoneMaxLen_def dest: in_set_takeD)
qed

lemma is_lower_not_digit: "is_lower c \<Longrightarrow> \<not> is_digit c"
  by (auto simp: is_lower_def is_digit_def Let_def)

section \<open>Active zones\<close>

lemma zone_candidates_set:
  "(i, l) \<in> set (zone_candidates s) \<longleftrightarrow> (\<exists>n\<in>set (s_networks s). zone_candidate n = Some (i, l))"
  by (auto simp: zone_candidates_def List.map_filter_def) force

lemma candidate_id: "zone_candidate n = Some (i, l) \<Longrightarrow> i = firewall_zone_name l \<and> l = zone_label n"
  by (auto simp: zone_candidate_def Let_def split: if_splits)

lemma labels_of_set: "set (labels_of cands i) = {l. (i, l) \<in> set cands}"
  by (force simp: labels_of_def)

lemma labels_of_single:
  "length (labels_of cands i) = Suc 0 \<longleftrightarrow> (\<exists>l. labels_of cands i = [l])"
  by (cases "labels_of cands i") auto

text \<open>The groups of \<open>ActiveZoneNames\<close> that hold exactly one label, in the order of their ids.\<close>

definition single_labels :: "(string \<times> string) list \<Rightarrow> string list" where
  "single_labels cands =
     concat (map (\<lambda>i. let ls = labels_of cands i in if length ls = 1 then ls else []) (nub (map fst cands)))"

lemma active_zone_names_eq: "active_zone_names s = sort (single_labels (zone_candidates s))"
  by (simp add: active_zone_names_def single_labels_def Let_def)

lemma single_labels_set:
  "l \<in> set (single_labels cands) \<longleftrightarrow> (\<exists>i. labels_of cands i = [l])"
proof
  assume "\<exists>i. labels_of cands i = [l]"
  then obtain i where i: "labels_of cands i = [l]" by blast
  then have "(i, l) \<in> set cands" using labels_of_set [of cands i] by auto
  then have "i \<in> set (map fst cands)" by force
  with i show "l \<in> set (single_labels cands)"
    by (auto simp: single_labels_def Let_def intro!: bexI [of _ i])
next
  assume "l \<in> set (single_labels cands)"
  then show "\<exists>i. labels_of cands i = [l]"
    by (auto simp: single_labels_def Let_def labels_of_single split: if_splits)
qed

lemma distinct_single_labels:
  assumes "\<And>i l. (i, l) \<in> set cands \<Longrightarrow> i = f l"
  shows "distinct (single_labels cands)"
  unfolding single_labels_def
  by (rule distinct_concat_map [where f = f])
    (use assms labels_of_set [of cands] in \<open>auto simp: Let_def labels_of_def split: if_splits\<close>)

lemma active_zones_sorted_distinct:
  "sorted (active_zone_names s) \<and> distinct (active_zone_names s)"
proof -
  have "distinct (single_labels (zone_candidates s))"
    by (rule distinct_single_labels [where f = firewall_zone_name])
      (auto simp: zone_candidates_set dest: candidate_id)
  then show ?thesis by (simp add: active_zone_names_eq)
qed

lemma active_zone_iff:
  "l \<in> set (active_zone_names s) \<longleftrightarrow>
     (firewall_zone_name l, l) \<in> set (zone_candidates s) \<and>
     (\<forall>l'. (firewall_zone_name l, l') \<in> set (zone_candidates s) \<longrightarrow> l' = l)"
proof -
  have one: "labels_of (zone_candidates s) i = [l] \<longleftrightarrow>
      {l'. (i, l') \<in> set (zone_candidates s)} = {l}" for i
  proof -
    have "distinct (labels_of (zone_candidates s) i)" by (simp add: labels_of_def)
    then have "labels_of (zone_candidates s) i = [l] \<longleftrightarrow> set (labels_of (zone_candidates s) i) = {l}"
      by (cases "labels_of (zone_candidates s) i") (auto simp: subset_singleton_iff insert_eq_iff)
    then show ?thesis by (simp add: labels_of_set)
  qed
  have ids: "(i, l') \<in> set (zone_candidates s) \<Longrightarrow> i = firewall_zone_name l'" for i l'
    by (auto simp: zone_candidates_set dest: candidate_id)
  show ?thesis
    unfolding active_zone_names_eq set_sort single_labels_set one
    using ids by (auto 4 3)
qed

lemma active_zone_not_reserved:
  "l \<in> set (active_zone_names s) \<Longrightarrow>
     firewall_zone_name l \<noteq> ''lan'' \<and> firewall_zone_name l \<noteq> ''wan'' \<and> l \<noteq> [] \<and> trim_space l = l"
  by (auto simp: active_zone_iff zone_candidates_set zone_candidate_def Let_def split: if_splits)

lemma wan_renders_wan: "firewall_zone_name ''wan'' = ''wan''"
  by code_simp

interpretation zone_destinations: canonical canonical_zone_destinations "\<lambda>A. A"
  by unfold_locales (simp_all add: canonical_zone_destinations_def)

section \<open>Validated sites\<close>

lemma zone_name_errors_Cons:
  assumes "active n" and "zone_name_errors seen (n # ns) = []"
  shows "zone_candidate n = Some (firewall_zone_name (zone_label n), zone_label n) \<and>
    (\<forall>l. map_of seen (firewall_zone_name (zone_label n)) = Some l \<longrightarrow> l = zone_label n) \<and>
    zone_name_errors ((firewall_zone_name (zone_label n), zone_label n) # seen) ns = []"
  using assms zone_base_hd [of "zone_label n"]
  by (auto simp: zone_candidate_def Let_def split: if_splits option.splits)

text \<open>Every active network contributes its label, and labels with one identifier are equal.\<close>

lemma zone_name_errors_labels:
  "zone_name_errors seen ns = [] \<Longrightarrow> n \<in> set ns \<Longrightarrow> active n \<Longrightarrow>
     zone_candidate n = Some (firewall_zone_name (zone_label n), zone_label n) \<and>
     (\<forall>l. map_of seen (firewall_zone_name (zone_label n)) = Some l \<longrightarrow> l = zone_label n)"
proof (induction ns arbitrary: seen)
  case (Cons m ns)
  show ?case
  proof (cases "active m")
    case True
    note step = zone_name_errors_Cons [OF True Cons.prems(1)]
    show ?thesis
    proof (cases "n = m")
      case False
      with Cons.prems have "n \<in> set ns" by simp
      with Cons.IH [OF conjunct2 [OF conjunct2 [OF step]]] Cons.prems(3) step
      show ?thesis by (auto split: if_splits)
    qed (use step in simp)
  next
    case False
    with Cons show ?thesis by auto
  qed
qed simp

lemma zone_name_errors_agree:
  "zone_name_errors seen ns = [] \<Longrightarrow> m \<in> set ns \<Longrightarrow> n \<in> set ns \<Longrightarrow> active m \<Longrightarrow> active n \<Longrightarrow>
     firewall_zone_name (zone_label m) = firewall_zone_name (zone_label n) \<Longrightarrow>
     zone_label m = zone_label n"
proof (induction ns arbitrary: seen)
  case (Cons k ns)
  show ?case
  proof (cases "active k")
    case True
    note step = conjunct2 [OF conjunct2 [OF zone_name_errors_Cons [OF True Cons.prems(1)]]]
    have later: "zone_label x = zone_label k"
      if "x \<in> set ns" "active x" "firewall_zone_name (zone_label x) = firewall_zone_name (zone_label k)" for x
      using zone_name_errors_labels [OF step that(1,2)] that(3) by simp
    consider "m = k" "n = k" | "m = k" "n \<in> set ns" | "m \<in> set ns" "n = k" | "m \<in> set ns" "n \<in> set ns"
      using Cons.prems(2,3) by auto
    then show ?thesis
    proof cases
      case 4
      with Cons.IH [OF step] Cons.prems show ?thesis by blast
    qed (use later Cons.prems in auto)
  next
    case False
    with Cons show ?thesis by auto
  qed
qed simp

lemma zone_policy_errors_Cons:
  "zone_policy_errors act seen (p # ps) = [] \<Longrightarrow>
     zp_name p \<in> set act \<and> zp_name p \<notin> set seen \<and>
     (\<forall>d\<in>set (zp_forward_to p). dest_errors act (zp_name p) d = []) \<and>
     zone_policy_errors act (zp_name p # seen) ps = []"
  by (simp add: Let_def split: if_splits)

lemma zone_policy_errors_Nil:
  "zone_policy_errors act seen ps = [] \<Longrightarrow> p \<in> set ps \<Longrightarrow>
     zp_name p \<in> set act \<and> (\<forall>d\<in>set (zp_forward_to p). dest_errors act (zp_name p) d = [])"
proof (induction ps arbitrary: seen)
  case (Cons q qs)
  note step = zone_policy_errors_Cons [OF Cons.prems(1)]
  with Cons.IH [of "zp_name q # seen"] Cons.prems(2) show ?case by (cases "p = q") simp_all
qed simp

lemma dest_errors_Nil: "dest_errors act src d = [] \<Longrightarrow> d \<noteq> src \<and> (d = ''wan'' \<or> d \<in> set act)"
  by (auto simp: dest_errors_def split: if_splits)

lemma effective_names: "map zp_name (effective_zone_policies s) = active_zone_names s"
proof -
  have "map_of (rev (map (\<lambda>p. (zp_name p, p\<lparr>zp_forward_to := canonical_zone_destinations (zp_forward_to p),
      zp_explicit := True\<rparr>)) zs)) name = Some p \<Longrightarrow> zp_name p = name" for zs name p
    by (drule map_of_SomeD) auto
  then show ?thesis
    by (auto simp: effective_zone_policies_def Let_def intro!: map_idI split: option.splits)
qed

lemma effective_lookup:
  assumes "p \<in> set (effective_zone_policies s)"
  obtains (explicit) q where "q \<in> set (s_zones s)" "zp_name q = zp_name p" "zp_explicit p"
      "zp_forward_to p = canonical_zone_destinations (zp_forward_to q)"
    | (default) "zp_name p \<notin> zp_name ` set (s_zones s)" "\<not> zp_explicit p" "zp_forward_to p = [''wan'']"
proof -
  let ?f = "\<lambda>p. (zp_name p, p\<lparr>zp_forward_to := canonical_zone_destinations (zp_forward_to p),
      zp_explicit := True\<rparr>)"
  let ?m = "rev (map ?f (s_zones s))"
  from assms obtain name where name: "p = (case map_of ?m name of Some p \<Rightarrow> p
      | None \<Rightarrow> \<lparr>zp_name = name, zp_forward_to = [''wan''], zp_explicit = False\<rparr>)"
    by (auto simp: effective_zone_policies_def Let_def)
  show thesis
  proof (cases "map_of ?m name")
    case None
    then have "name \<notin> zp_name ` set (s_zones s)"
      by (force simp: map_of_eq_None_iff)
    with None name show thesis by (intro default) auto
  next
    case (Some q)
    then have "(name, q) \<in> set ?m" by (rule map_of_SomeD)
    then obtain r where "r \<in> set (s_zones s)" "name = zp_name r"
      "q = r\<lparr>zp_forward_to := canonical_zone_destinations (zp_forward_to r), zp_explicit := True\<rparr>"
      by auto
    with Some name show thesis by (intro explicit [of r]) auto
  qed
qed

section \<open>Properties\<close>

text \<open>
  The identifier rendered for any zone label is nonempty, at most eleven bytes, and made of
  lower-case letters, digits and underscores only.
\<close>

theorem zone_identifier_wellformed:
  "firewall_zone_name name \<noteq> [] \<and> length (firewall_zone_name name) \<le> 11 \<and>
   list_all (\<lambda>c. is_lower c \<or> is_digit c \<or> c = CHR ''_'') (firewall_zone_name name)"
  using zone_name_props [of name]
  by (auto simp: FirewallZoneMaxLen_def list_all_iff zone_byte_def)

text \<open>
  When zone names validate, the zone of every enabled managed network is an active zone, and
  two such networks share a rendered identifier only if they share the label: no two zones of the
  site collapse into one on the router.
\<close>

theorem valid_names_all_active:
  assumes "validate_zone_names s = []" and "n \<in> set (s_networks s)" and "active n"
  shows "zone_label n \<in> set (active_zone_names s) \<and>
    (\<forall>m\<in>set (s_networks s). active m \<and>
       firewall_zone_name (zone_label m) = firewall_zone_name (zone_label n) \<longrightarrow>
       zone_label m = zone_label n)"
proof -
  note v = assms(1) [unfolded validate_zone_names_def]
  have agree: "zone_label m = zone_label n"
    if "m \<in> set (s_networks s)" "active m"
      "firewall_zone_name (zone_label m) = firewall_zone_name (zone_label n)" for m
    using zone_name_errors_agree [OF v that(1) assms(2) that(2) assms(3) that(3)] .
  have "l = zone_label n"
    if "(firewall_zone_name (zone_label n), l) \<in> set (zone_candidates s)" for l
  proof -
    from that obtain m where m: "m \<in> set (s_networks s)"
      "zone_candidate m = Some (firewall_zone_name (zone_label n), l)"
      by (auto simp: zone_candidates_set)
    then have "active m" by (auto simp: zone_candidate_def split: if_splits)
    note agree [OF m(1) this]
    moreover have "firewall_zone_name (zone_label n) = firewall_zone_name l" and l: "l = zone_label m"
      using candidate_id [OF m(2)] by blast+
    ultimately show ?thesis by simp
  qed
  moreover have "(firewall_zone_name (zone_label n), zone_label n) \<in> set (zone_candidates s)"
    using zone_name_errors_labels [OF v assms(2,3)] assms(2) by (auto simp: zone_candidates_set)
  ultimately show ?thesis using agree by (auto simp: active_zone_iff)
qed

theorem valid_names_all_active_witness: "''iot'' \<in> set (active_zone_names sample_site)"
proof -
  let ?n = "sample_net 1 ''iot'' 20 ''10.0.20.1/24''"
  have "validate_zone_names sample_site = []" by code_simp
  moreover have "?n \<in> set (s_networks sample_site)" by (simp add: sample_site_def)
  moreover have "active ?n" by code_simp
  moreover have "zone_label ?n = ''iot''" by code_simp
  ultimately show ?thesis using valid_names_all_active [of sample_site ?n] by simp
qed

lemma zone_policy_errors_distinct:
  "zone_policy_errors act seen ps = [] \<Longrightarrow> distinct (map zp_name ps) \<and> set (map zp_name ps) \<inter> set seen = {}"
proof (induction ps arbitrary: seen)
  case (Cons q qs)
  note step = zone_policy_errors_Cons [OF Cons.prems]
  with Cons.IH [of "zp_name q # seen"] show ?case by auto
qed simp

text \<open>
  C38. The effective forwarding matrix has one row per active zone in sorted order. When the
  stored rows validate, each row forwards only to wan or to another active zone, never to itself;
  every stored row is in the matrix, marked explicit, with exactly its destinations, each once and
  in sorted order; and a row is the historical default (wan only, not explicit) exactly when
  nothing is stored for its zone.
\<close>

theorem effective_matrix_sound:
  assumes "validate_zone_policies s = []"
  shows "map zp_name (effective_zone_policies s) = active_zone_names s \<and>
    (\<forall>p\<in>set (effective_zone_policies s).
       (\<forall>d\<in>set (zp_forward_to p). d \<noteq> zp_name p \<and> (d = ''wan'' \<or> d \<in> set (active_zone_names s))) \<and>
       (zp_explicit p \<longleftrightarrow> zp_name p \<in> zp_name ` set (s_zones s)) \<and>
       (\<not> zp_explicit p \<longrightarrow> zp_forward_to p = [''wan''])) \<and>
    (\<forall>q\<in>set (s_zones s). \<exists>p\<in>set (effective_zone_policies s). zp_name p = zp_name q \<and> zp_explicit p \<and>
       set (zp_forward_to p) = set (zp_forward_to q) \<and> sorted (zp_forward_to p) \<and> distinct (zp_forward_to p))"
proof -
  note errs = zone_policy_errors_Nil [OF assms [unfolded validate_zone_policies_def]]
  note dist = zone_policy_errors_distinct [OF assms [unfolded validate_zone_policies_def]]
  have row: "(\<forall>d\<in>set (zp_forward_to p). d \<noteq> zp_name p \<and> (d = ''wan'' \<or> d \<in> set (active_zone_names s))) \<and>
      (zp_explicit p \<longleftrightarrow> zp_name p \<in> zp_name ` set (s_zones s)) \<and> (\<not> zp_explicit p \<longrightarrow> zp_forward_to p = [''wan''])"
    if p: "p \<in> set (effective_zone_policies s)" for p
    using p
  proof (cases rule: effective_lookup)
    case (explicit q)
    have "\<forall>d\<in>set (zp_forward_to q). d \<noteq> zp_name p \<and> (d = ''wan'' \<or> d \<in> set (active_zone_names s))"
      using errs [OF explicit(1)] dest_errors_Nil explicit(2) by metis
    with explicit show ?thesis
      using zone_destinations.canon_set [of "zp_forward_to q"] by (auto intro: rev_image_eqI)
  next
    case default
    have "zp_name p \<in> set (active_zone_names s)"
      using p effective_names [of s] by (metis image_eqI list.set_map)
    then have "zp_name p \<noteq> ''wan''"
      by (metis active_zone_not_reserved wan_renders_wan)
    with default show ?thesis by simp
  qed
  have stored: "\<exists>p\<in>set (effective_zone_policies s). zp_name p = zp_name q \<and> zp_explicit p \<and>
       set (zp_forward_to p) = set (zp_forward_to q) \<and> sorted (zp_forward_to p) \<and> distinct (zp_forward_to p)"
    if q: "q \<in> set (s_zones s)" for q
  proof -
    have "zp_name q \<in> set (map zp_name (effective_zone_policies s))"
      using errs [OF q] by (simp add: effective_names)
    then obtain p where p: "p \<in> set (effective_zone_policies s)" "zp_name p = zp_name q" by auto
    from p(1) show ?thesis
    proof (cases rule: effective_lookup)
      case (explicit r)
      then have "r = q" using dist q p(2) by (auto simp: distinct_map dest: inj_onD)
      with explicit p show ?thesis by (intro bexI [of _ p]) (auto simp: canonical_zone_destinations_def)
    next
      case default
      with q p(2) show ?thesis by auto
    qed
  qed
  show ?thesis using row stored by (simp add: effective_names)
qed

theorem effective_matrix_sound_witness:
  "map zp_name (effective_zone_policies sample_site) = active_zone_names sample_site"
proof -
  have "validate_zone_policies sample_site = []" by code_simp
  from effective_matrix_sound [OF this] show ?thesis by blast
qed

end
