(* ===== verification/Policies.thy ===== *)
theory Policies
  imports Zones
begin

text \<open>
  Firewall rules, port forwards, static routes, policy sets and client policy
  (\<open>internal/model/policy.go\<close>): canonical forms, the validator, and what a site that passes it
  guarantees. The validator rewrites the policies it accepts, so each step returns its errors and
  the rewritten value. An address or prefix that is not IPv4 is refused by every check here; it is
  modelled as text that does not parse, which differs only in the further errors reported beside
  that refusal. The two loops over a map of source and destination run in that order.
\<close>

section \<open>Vocabulary\<close>

definition PolicyFirewallRule :: string where [simp]: "PolicyFirewallRule = ''firewall_rule''"
definition PolicyPortForward :: string where [simp]: "PolicyPortForward = ''port_forward''"
definition PolicyStaticRoute :: string where [simp]: "PolicyStaticRoute = ''static_route''"

definition OriginManual :: string where [simp]: "OriginManual = ''manual''"
definition OriginObjectManager :: string where [simp]: "OriginObjectManager = ''object_manager''"

definition FirewallAccept :: string where [simp]: "FirewallAccept = ''accept''"
definition FirewallDrop :: string where [simp]: "FirewallDrop = ''drop''"
definition FirewallReject :: string where [simp]: "FirewallReject = ''reject''"

definition MaxPolicySetMembers :: int where "MaxPolicySetMembers = 1024"
definition MaxPolicySetMembersTotal :: int where "MaxPolicySetMembersTotal = 65536"
definition MaxExpandedPolicySourceMACs :: int where "MaxExpandedPolicySourceMACs = 65536"

datatype port_error = PortShape string | PortOutside string | PortDescending string

datatype set_error =
    SetBadId string
  | SetIdTwice int
  | SetBadName int
  | SetNameTwice string string
  | SetBadMember string string
  | SetEmpty string
  | SetTooMany string int
  | SetsTooLarge

datatype header_error =
    ExpansionTooLarge
  | BadIdOrOrder string
  | IdTwice int
  | BadName int
  | BadOrigin string string
  | NotOnePayload string
  | KindWithoutPayload string string
  | UnknownKindOf string string

datatype rule_error =
    BadSourceZone string string
  | BadDestinationZone string string
  | SameZone string
  | BadAction string string
  | BadProtocol string string
  | BadCIDR string string
  | BadPort string port_error
  | PortsWithoutTransport string
  | BadMAC string string
  | NegativeSet string
  | SetAndMACs string
  | UnknownSet string int

datatype forward_error =
    ForwardNotFromWan string
  | ForwardBadZone string string
  | ForwardNeedsProtocol string
  | ForwardBadPorts string
  | ForwardBadAddress string string
  | ForwardNotInZone string string

datatype route_error =
    RouteBadTarget string string
  | RouteBadGateway string string
  | RouteBadMetric string
  | RouteNegativeNetwork string
  | RouteUnknownNetwork string int
  | RouteGatewayNotHost string string
  | RouteOverlaps string string

datatype pair_error =
    OpposingActions string string
  | PortClaimedTwice string string int
  | DenialBeforeForward string string

datatype client_error =
    ClientBadMAC string
  | ClientTwice string
  | ClientBadGroup string
  | FixedNotIPv4 string string
  | FixedNotInOneNetwork string string
  | FixedWithoutDHCP string string
  | FixedNotUsable string string
  | FixedTwice string string string

datatype policy_error =
    SetError set_error
  | HeaderError header_error
  | RuleError rule_error
  | ForwardError forward_error
  | RouteError route_error
  | PairError pair_error
  | ClientError client_error
  | AcceptsBlocked string string

section \<open>Canonical protocols, MAC addresses and ports\<close>

definition canonical_protocols :: "string list \<Rightarrow> string list" where
  "canonical_protocols ps =
     (let seen = filter (\<lambda>v. v \<noteq> []) (map (\<lambda>v. to_lower (trim_space v)) ps)
      in if ''all'' \<in> set seen then [''all''] else sort (nub seen))"

text \<open>\<open>net.ParseMAC\<close> for six bytes, returning the text \<open>HardwareAddr.String\<close> prints.\<close>

definition hex_digit :: "char \<Rightarrow> bool" where
  "hex_digit c \<longleftrightarrow> (let n = (of_char c :: nat) in 48 \<le> n \<and> n \<le> 57 \<or> 65 \<le> n \<and> n \<le> 70 \<or> 97 \<le> n \<and> n \<le> 102)"

definition hex_parts :: "char \<Rightarrow> nat \<Rightarrow> nat \<Rightarrow> string \<Rightarrow> string list option" where
  "hex_parts sep width count s =
     (let ps = split_on sep s
      in if length ps = count \<and> list_all (\<lambda>p. length p = width \<and> list_all hex_digit p) ps
         then Some (map to_lower ps) else None)"

definition parse_mac :: "string \<Rightarrow> string option" where
  "parse_mac s =
     (if length s = 17 \<and> (s ! 2 = CHR '':'' \<or> s ! 2 = CHR ''-'') then
        map_option (join '':'') (hex_parts (s ! 2) 2 6 s)
      else if length s = 14 \<and> s ! 4 = CHR ''.'' then
        map_option (\<lambda>ps. join '':'' (concat (map (\<lambda>p. [take 2 p, drop 2 p]) ps))) (hex_parts (CHR ''.'') 4 3 s)
      else None)"

fun collect_macs :: "string list \<Rightarrow> string list \<Rightarrow> string + string list" where
  "collect_macs seen [] = Inr seen"
| "collect_macs seen (raw # rest) =
     (case parse_mac (trim_space raw) of
        None \<Rightarrow> Inl raw
      | Some mac \<Rightarrow> collect_macs (to_lower mac # seen) rest)"

definition canonical_macs :: "string list \<Rightarrow> string + string list" where
  "canonical_macs raws =
     (case collect_macs [] raws of Inl raw \<Rightarrow> Inl raw | Inr seen \<Rightarrow> Inr (sort (nub seen)))"

definition canonical_port_range :: "string \<Rightarrow> port_error + string" where
  "canonical_port_range raw =
     (let parts = split_on (CHR ''-'') (trim_space raw)
      in if length parts > 2 then Inl (PortShape raw)
         else case atoi (hd parts) of
                None \<Rightarrow> Inl (PortOutside raw)
              | Some lo \<Rightarrow>
                  if lo < 1 \<or> lo > 65535 then Inl (PortOutside raw)
                  else if length parts = 2 then
                    (case atoi (parts ! 1) of
                       None \<Rightarrow> Inl (PortDescending raw)
                     | Some hi \<Rightarrow>
                         if hi < lo \<or> hi > 65535 then Inl (PortDescending raw)
                         else if hi = lo then Inr (itoa lo)
                         else Inr (itoa lo @ ''-'' @ itoa hi))
                  else Inr (itoa lo))"

definition canonical_port_contains :: "string \<Rightarrow> int \<Rightarrow> bool" where
  "canonical_port_contains raw port =
     (let parts = split_on (CHR ''-'') raw
      in case atoi (hd parts) of
           None \<Rightarrow> True
         | Some lo \<Rightarrow>
             if length parts = 2 then
               (case atoi (parts ! 1) of None \<Rightarrow> True | Some hi \<Rightarrow> lo \<le> port \<and> port \<le> hi)
             else lo \<le> port \<and> port \<le> lo)"

definition protocol_lists_overlap :: "string list \<Rightarrow> string list \<Rightarrow> bool" where
  "protocol_lists_overlap as bs =
     list_ex (\<lambda>av. list_ex (\<lambda>bv. av = ''all'' \<or> bv = ''all'' \<or> av = bv) bs) as"

section \<open>Addresses\<close>

definition parse_ipv4_prefix :: "string \<Rightarrow> prefix4 option" where
  "parse_ipv4_prefix raw = parse_prefix (trim_space raw)"

definition usable_host :: "prefix4 \<Rightarrow> ipv4 \<Rightarrow> bool" where
  "usable_host p a \<longleftrightarrow>
     contains p a \<and> p_bits p \<le> 30 \<and>
     (let offset = a - p_addr (masked p); last_host = push_bit (32 - p_bits p) 1 - 1
      in 0 < offset \<and> offset < last_host)"

definition networks_containing :: "site \<Rightarrow> ipv4 \<Rightarrow> network list" where
  "networks_containing s a =
     filter (\<lambda>n. active n \<and> (case parse_prefix (n_cidr n) of None \<Rightarrow> False | Some p \<Rightarrow> contains p a))
       (s_networks s)"

section \<open>Policy sets and source addresses\<close>

definition firewall_source_macs :: "site \<Rightarrow> firewall_rule \<Rightarrow> string list option" where
  "firewall_source_macs s r =
     (if fr_source_set_id r = 0 then Some (fr_source_macs r)
      else map_option ps_members (policy_set_by_id s (fr_source_set_id r)))"

text \<open>Lookups in the maps the validator builds: a later entry for the same key wins.\<close>

definition members_map :: "site \<Rightarrow> int \<Rightarrow> string list option" where
  "members_map s i = map_of (rev (map (\<lambda>p. (ps_id p, ps_members p)) (s_policy_sets s))) i"

fun mac_expansion :: "site \<Rightarrow> int \<Rightarrow> policy list \<Rightarrow> int \<times> bool" where
  "mac_expansion s acc [] = (acc, True)"
| "mac_expansion s acc (p # ps) =
     (case p_firewall p of
        None \<Rightarrow> mac_expansion s acc ps
      | Some r \<Rightarrow>
          (let count = int (if fr_source_set_id r > 0
                 then (case members_map s (fr_source_set_id r) of None \<Rightarrow> 0 | Some ms \<Rightarrow> length ms)
                 else length (fr_source_macs r))
           in if count > MaxExpandedPolicySourceMACs - acc then (acc, False)
              else mac_expansion s (acc + count) ps))"

definition policy_source_mac_expansion :: "site \<Rightarrow> int \<times> bool" where
  "policy_source_mac_expansion s = mac_expansion s 0 (s_policies s)"

definition has_explicit_firewall_intent :: "site \<Rightarrow> bool" where
  "has_explicit_firewall_intent s \<longleftrightarrow>
     list_ex zp_explicit (effective_zone_policies s) \<or>
     list_ex (\<lambda>p. p_enabled p \<and> (p_kind p = PolicyFirewallRule \<or> p_kind p = PolicyPortForward)) (s_policies s) \<or>
     list_ex pc_blocked (s_policy_clients s)"

definition exact_name :: "string \<Rightarrow> bool" where
  "exact_name name \<longleftrightarrow> trim_space name \<noteq> [] \<and> trim_space name = name \<and> length name \<le> 128"

fun check_sets :: "int list \<Rightarrow> string gomap \<Rightarrow> int \<Rightarrow> bool \<Rightarrow> policy_set list \<Rightarrow>
    policy_error list \<times> policy_set list \<times> bool" where
  "check_sets ids names acc over [] = ([], [], over)"
| "check_sets ids names acc over (p # ps) =
     (let folded = to_lower (ps_name p);
          errs = (if ps_id p \<le> 0 then [SetError (SetBadId (ps_name p))] else [])
            @ (if ps_id p \<in> set ids then [SetError (SetIdTwice (ps_id p))] else [])
            @ (if \<not> exact_name (ps_name p) \<or> list_ex is_control (ps_name p) then [SetError (SetBadName (ps_id p))] else [])
            @ (if get_str names folded \<noteq> [] then [SetError (SetNameTwice (get_str names folded) (ps_name p))] else []);
          ids' = ps_id p # ids; names' = put folded (ps_name p) names
      in case canonical_macs (ps_members p) of
           Inl raw \<Rightarrow>
             (let (es, out, ov) = check_sets ids' names' acc over ps
              in (errs @ SetError (SetBadMember (ps_name p) raw) # es, p # out, ov))
         | Inr members \<Rightarrow>
             (let n = int (length members);
                  size_errs = (if members = [] then [SetError (SetEmpty (ps_name p))]
                    else if n > MaxPolicySetMembers then [SetError (SetTooMany (ps_name p) n)] else []);
                  (es, out, ov) =
                    (if n > MaxPolicySetMembersTotal - acc then check_sets ids' names' acc True ps
                     else check_sets ids' names' (acc + n) over ps)
              in (errs @ size_errs @ es, p\<lparr>ps_members := members\<rparr> # out, ov)))"

definition validate_policy_sets :: "site \<Rightarrow> policy_error list \<times> site" where
  "validate_policy_sets s =
     (let (errs, sets, over) = check_sets [] [] 0 False (s_policy_sets s)
      in (errs @ (if over then [SetError SetsTooLarge] else []), s\<lparr>s_policy_sets := sets\<rparr>))"

section \<open>Rules\<close>

definition cidr_field :: "string \<Rightarrow> string \<Rightarrow> policy_error list \<times> string" where
  "cidr_field name raw =
     (if raw = [] then ([], raw)
      else case parse_ipv4_prefix raw of
             None \<Rightarrow> ([RuleError (BadCIDR name raw)], raw)
           | Some p \<Rightarrow> ([], show_prefix (masked p)))"

definition port_field :: "string \<Rightarrow> string \<Rightarrow> policy_error list \<times> string" where
  "port_field name raw =
     (if raw = [] then ([], raw)
      else case canonical_port_range raw of Inl e \<Rightarrow> ([RuleError (BadPort name e)], raw) | Inr c \<Rightarrow> ([], c))"

definition validate_firewall_rule ::
  "string \<Rightarrow> firewall_rule \<Rightarrow> string list \<Rightarrow> policy_error list \<times> firewall_rule" where
  "validate_firewall_rule name r zones =
     (let protocols = (case canonical_protocols (fr_protocols r) of [] \<Rightarrow> [''all''] | ps \<Rightarrow> ps);
          (e1, scidr) = cidr_field name (fr_source_cidr r);
          (e2, dcidr) = cidr_field name (fr_destination_cidr r);
          (e3, sport) = port_field name (fr_source_port r);
          (e4, dport) = port_field name (fr_destination_port r);
          (e5, macs) = (case canonical_macs (fr_source_macs r) of
                          Inl raw \<Rightarrow> ([RuleError (BadMAC name raw)], fr_source_macs r) | Inr ms \<Rightarrow> ([], ms))
      in ((if fr_source_zone r \<notin> set zones then [RuleError (BadSourceZone name (fr_source_zone r))] else [])
          @ (if fr_destination_zone r \<noteq> [] \<and> fr_destination_zone r \<notin> set zones
             then [RuleError (BadDestinationZone name (fr_destination_zone r))] else [])
          @ (if fr_destination_zone r \<noteq> [] \<and> fr_source_zone r = fr_destination_zone r
             then [RuleError (SameZone name)] else [])
          @ (if fr_action r \<noteq> FirewallAccept \<and> fr_action r \<noteq> FirewallDrop \<and> fr_action r \<noteq> FirewallReject
             then [RuleError (BadAction name (fr_action r))] else [])
          @ concat (map (\<lambda>p. if p \<noteq> ''all'' \<and> p \<noteq> ''tcp'' \<and> p \<noteq> ''udp'' \<and> p \<noteq> ''icmp''
                             then [RuleError (BadProtocol name p)] else []) protocols)
          @ e1 @ e2 @ e3 @ e4
          @ (if (sport \<noteq> [] \<or> dport \<noteq> []) \<and> ''tcp'' \<notin> set protocols \<and> ''udp'' \<notin> set protocols
             then [RuleError (PortsWithoutTransport name)] else [])
          @ e5,
          r\<lparr>fr_protocols := protocols, fr_source_cidr := scidr, fr_destination_cidr := dcidr,
            fr_source_port := sport, fr_destination_port := dport, fr_source_macs := macs\<rparr>))"

definition forward_target :: "site \<Rightarrow> string \<Rightarrow> ipv4 \<Rightarrow> bool" where
  "forward_target s zone a =
     list_ex (\<lambda>n. active n \<and> zone_label n = zone \<and>
       (case parse_prefix (n_cidr n) of
          None \<Rightarrow> False
        | Some p \<Rightarrow> contains p a \<and> a \<noteq> p_addr p \<and> usable_host p a)) (s_networks s)"

definition validate_port_forward ::
  "site \<Rightarrow> string \<Rightarrow> port_forward \<Rightarrow> string list \<Rightarrow> policy_error list \<times> port_forward" where
  "validate_port_forward s name r zones =
     (let protocols = canonical_protocols (pf_protocols r);
          addr = parse_addr (trim_space (pf_destination_ip r));
          (e1, scidr) = cidr_field name (pf_source_cidr r)
      in ((if pf_source_zone r \<noteq> ''wan'' then [ForwardError (ForwardNotFromWan name)] else [])
          @ (if pf_destination_zone r = ''wan'' \<or> pf_destination_zone r \<notin> set zones
             then [ForwardError (ForwardBadZone name (pf_destination_zone r))] else [])
          @ (if protocols = [] then [ForwardError (ForwardNeedsProtocol name)] else [])
          @ concat (map (\<lambda>p. if p \<noteq> ''tcp'' \<and> p \<noteq> ''udp'' then [RuleError (BadProtocol name p)] else []) protocols)
          @ (if pf_external_port r < 1 \<or> pf_external_port r > 65535 \<or>
                pf_destination_port r < 1 \<or> pf_destination_port r > 65535 then [ForwardError (ForwardBadPorts name)] else [])
          @ (case addr of
               None \<Rightarrow> [ForwardError (ForwardBadAddress name (pf_destination_ip r))]
             | Some a \<Rightarrow>
                 if forward_target s (pf_destination_zone r) a then []
                 else [ForwardError (ForwardNotInZone name (show_addr a))])
          @ e1,
          r\<lparr>pf_protocols := protocols, pf_source_cidr := scidr,
            pf_destination_ip := (case addr of None \<Rightarrow> pf_destination_ip r | Some a \<Rightarrow> show_addr a)\<rparr>))"

definition validate_static_route ::
  "site \<Rightarrow> string \<Rightarrow> static_route \<Rightarrow> policy_error list \<times> static_route" where
  "validate_static_route s name r =
     (let target = parse_ipv4_prefix (sr_target r);
          gateway = parse_addr (trim_space (sr_gateway r))
      in ((case target of
             None \<Rightarrow> [RouteError (RouteBadTarget name (sr_target r))]
           | Some t \<Rightarrow> if p_bits t < 8 \<or> t \<noteq> masked t then [RouteError (RouteBadTarget name (sr_target r))] else [])
          @ (if gateway = None then [RouteError (RouteBadGateway name (sr_gateway r))] else [])
          @ (if sr_metric r < 0 \<or> sr_metric r > 65535 then [RouteError (RouteBadMetric name)] else [])
          @ (if sr_network_id r < 0 then [RouteError (RouteNegativeNetwork name)]
             else if sr_network_id r > 0 then
               (case network_by_id s (sr_network_id r) of
                  None \<Rightarrow> [RouteError (RouteUnknownNetwork name (sr_network_id r))]
                | Some n \<Rightarrow>
                    if \<not> active n then [RouteError (RouteUnknownNetwork name (sr_network_id r))]
                    else case gateway of
                           None \<Rightarrow> []
                         | Some g \<Rightarrow>
                             (case parse_prefix (n_cidr n) of
                                None \<Rightarrow> [RouteError (RouteGatewayNotHost name (n_name n))]
                              | Some p \<Rightarrow> if contains p g \<and> usable_host p g then []
                                          else [RouteError (RouteGatewayNotHost name (n_name n))]))
             else [])
          @ (case target of
               None \<Rightarrow> []
             | Some t \<Rightarrow>
                 concat (map (\<lambda>n. case parse_prefix (n_cidr n) of
                     None \<Rightarrow> []
                   | Some p \<Rightarrow> if active n \<and> overlaps (masked p) t then [RouteError (RouteOverlaps name (n_name n))] else [])
                   (s_networks s))),
          r\<lparr>sr_target := (case target of None \<Rightarrow> sr_target r | Some t \<Rightarrow> show_prefix (masked t)),
            sr_gateway := (case gateway of None \<Rightarrow> sr_gateway r | Some g \<Rightarrow> show_addr g)\<rparr>))"

section \<open>Pairs of policies\<close>

definition denial_overlaps_forward :: "policy \<Rightarrow> policy \<Rightarrow> bool" where
  "denial_overlaps_forward deny forward =
     (case (p_firewall deny, p_port_forward forward) of
        (Some rule, Some redirect) \<Rightarrow>
          p_kind deny = PolicyFirewallRule \<and> p_kind forward = PolicyPortForward \<and>
          fr_action rule \<noteq> FirewallAccept \<and> fr_source_zone rule = ''wan'' \<and>
          fr_destination_zone rule = pf_destination_zone redirect \<and>
          protocol_lists_overlap (fr_protocols rule) (pf_protocols redirect) \<and>
          \<not> (fr_source_cidr rule \<noteq> [] \<and> pf_source_cidr redirect \<noteq> [] \<and>
             (case (parse_prefix (fr_source_cidr rule), parse_prefix (pf_source_cidr redirect)) of
                (Some a, Some b) \<Rightarrow> \<not> overlaps a b | _ \<Rightarrow> False)) \<and>
          \<not> (fr_destination_cidr rule \<noteq> [] \<and>
             (case (parse_prefix (fr_destination_cidr rule), parse_addr (pf_destination_ip redirect)) of
                (Some p, Some a) \<Rightarrow> \<not> contains p a | _ \<Rightarrow> False)) \<and>
          (fr_destination_port rule = [] \<or>
           canonical_port_contains (fr_destination_port rule) (pf_destination_port redirect))
      | _ \<Rightarrow> False)"

definition validate_policy_pair :: "policy \<Rightarrow> policy \<Rightarrow> policy_error list" where
  "validate_policy_pair a b =
     (if \<not> p_enabled a \<or> \<not> p_enabled b then []
      else if p_kind a = PolicyFirewallRule \<and> p_kind b = PolicyFirewallRule \<and>
        (case (p_firewall a, p_firewall b) of
           (Some x, Some y) \<Rightarrow> fr_source_zone x = fr_source_zone y \<and>
             fr_destination_zone x = fr_destination_zone y \<and> fr_action x \<noteq> fr_action y
         | _ \<Rightarrow> False)
      then [PairError (OpposingActions (p_name a) (p_name b))]
      else if p_kind a = PolicyPortForward \<and> p_kind b = PolicyPortForward \<and>
        (case (p_port_forward a, p_port_forward b) of
           (Some x, Some y) \<Rightarrow> pf_external_port x = pf_external_port y \<and>
             protocol_lists_overlap (pf_protocols x) (pf_protocols y)
         | _ \<Rightarrow> False)
      then [PairError (PortClaimedTwice (p_name a) (p_name b)
              (case p_port_forward a of Some x \<Rightarrow> pf_external_port x | None \<Rightarrow> 0))]
      else if denial_overlaps_forward a b \<or> denial_overlaps_forward b a
      then [PairError (DenialBeforeForward (p_name a) (p_name b))] else [])"

definition pair_errors :: "policy list \<Rightarrow> policy_error list" where
  "pair_errors ps = all_pairs validate_policy_pair ps"

section \<open>The policy loop\<close>

definition payload_count :: "policy \<Rightarrow> nat" where
  "payload_count p =
     (if p_firewall p \<noteq> None then 1 else 0) + (if p_port_forward p \<noteq> None then 1 else 0)
     + (if p_static_route p \<noteq> None then 1 else 0)"

definition check_set_reference :: "site \<Rightarrow> string \<Rightarrow> firewall_rule \<Rightarrow> policy_error list" where
  "check_set_reference s name r =
     (if fr_source_set_id r < 0 then [RuleError (NegativeSet name)]
      else if fr_source_set_id r > 0 then
        (if fr_source_macs r \<noteq> [] then [RuleError (SetAndMACs name)] else [])
        @ (if policy_set_by_id s (fr_source_set_id r) = None
           then [RuleError (UnknownSet name (fr_source_set_id r))] else [])
      else [])"

definition check_payload :: "site \<Rightarrow> string list \<Rightarrow> policy \<Rightarrow> policy_error list \<times> policy" where
  "check_payload s zones p =
     (if payload_count p \<noteq> 1 then ([HeaderError (NotOnePayload (p_name p))], p)
      else if p_kind p = PolicyFirewallRule then
        (case p_firewall p of
           None \<Rightarrow> ([HeaderError (KindWithoutPayload (p_name p) (p_kind p))], p)
         | Some r \<Rightarrow>
             (let (es, r') = validate_firewall_rule (p_name p) r zones
              in (es @ check_set_reference s (p_name p) r', p\<lparr>p_firewall := Some r'\<rparr>)))
      else if p_kind p = PolicyPortForward then
        (case p_port_forward p of
           None \<Rightarrow> ([HeaderError (KindWithoutPayload (p_name p) (p_kind p))], p)
         | Some r \<Rightarrow>
             (let (es, r') = validate_port_forward s (p_name p) r zones
              in (es, p\<lparr>p_port_forward := Some r'\<rparr>)))
      else if p_kind p = PolicyStaticRoute then
        (case p_static_route p of
           None \<Rightarrow> ([HeaderError (KindWithoutPayload (p_name p) (p_kind p))], p)
         | Some r \<Rightarrow>
             (let (es, r') = validate_static_route s (p_name p) r
              in (es, p\<lparr>p_static_route := Some r'\<rparr>)))
      else ([HeaderError (UnknownKindOf (p_name p) (p_kind p))], p))"

definition policy_header_errors :: "int list \<Rightarrow> policy \<Rightarrow> policy_error list" where
  "policy_header_errors seen p =
     (if p_id p < 0 \<or> p_order p < 0 then [HeaderError (BadIdOrOrder (p_name p))] else [])
     @ (if p_id p > 0 \<and> p_id p \<in> set seen then [HeaderError (IdTwice (p_id p))] else [])
     @ (if \<not> exact_name (p_name p) then [HeaderError (BadName (p_id p))] else [])
     @ (if p_origin p \<noteq> OriginManual \<and> p_origin p \<noteq> OriginObjectManager
        then [HeaderError (BadOrigin (p_name p) (p_origin p))] else [])"

fun check_policies :: "site \<Rightarrow> string list \<Rightarrow> int list \<Rightarrow> policy list \<Rightarrow> policy_error list \<times> policy list" where
  "check_policies s zones seen [] = ([], [])"
| "check_policies s zones seen (p # ps) =
     (let (es, p') = check_payload s zones p;
          (rest, ps') = check_policies s zones (if p_id p > 0 then p_id p # seen else seen) ps
      in (policy_header_errors seen p @ es @ rest, p' # ps'))"

section \<open>Clients\<close>

definition client_mac :: "policy_client \<Rightarrow> string option" where
  "client_mac c = (case canonical_macs [pc_mac c] of Inr [mac] \<Rightarrow> Some mac | _ \<Rightarrow> None)"

definition group_ok :: "string \<Rightarrow> bool" where
  "group_ok g \<longleftrightarrow> g = [] \<or> trim_space g = g \<and> length g \<le> 128 \<and> \<not> list_ex is_control g"

text \<open>One client's fixed address: the errors, and the address when it got as far as the duplicate check.\<close>

definition fixed_ip_errors :: "site \<Rightarrow> string \<Rightarrow> string gomap \<Rightarrow> string \<Rightarrow> policy_error list \<times> ipv4 option" where
  "fixed_ip_errors s mac ips raw =
     (case parse_addr (trim_space raw) of
        None \<Rightarrow> ([ClientError (FixedNotIPv4 mac raw)], None)
      | Some a \<Rightarrow>
          (case networks_containing s a of
             [n] \<Rightarrow>
               ((if \<not> dhcp_enabled (effective_dhcp n) then [ClientError (FixedWithoutDHCP mac (n_name n))] else [])
                @ (case parse_prefix (n_cidr n) of
                     None \<Rightarrow> []
                   | Some p \<Rightarrow> if a = p_addr p \<or> \<not> usable_host p a then [ClientError (FixedNotUsable mac (n_name n))] else [])
                @ (let previous = get_str ips (show_addr a)
                   in if previous \<noteq> [] \<and> previous \<noteq> mac then [ClientError (FixedTwice (show_addr a) previous mac)] else []),
                Some a)
           | _ \<Rightarrow> ([ClientError (FixedNotInOneNetwork mac (show_addr a))], None)))"

fun client_errors :: "site \<Rightarrow> string list \<Rightarrow> string gomap \<Rightarrow> policy_client list \<Rightarrow> policy_error list" where
  "client_errors s macs ips [] = []"
| "client_errors s macs ips (c # cs) =
     (case client_mac c of
        None \<Rightarrow> ClientError (ClientBadMAC (pc_mac c)) # client_errors s macs ips cs
      | Some mac \<Rightarrow>
          (let errs = (if mac \<in> set macs then [ClientError (ClientTwice mac)] else [])
                 @ (if \<not> group_ok (pc_group c) then [ClientError (ClientBadGroup mac)] else [])
           in if pc_fixed_ip c = [] then errs @ client_errors s (mac # macs) ips cs
              else (let (es, a) = fixed_ip_errors s mac ips (pc_fixed_ip c);
                        ips' = (case a of None \<Rightarrow> ips | Some a \<Rightarrow> put (show_addr a) mac ips)
                    in errs @ es @ client_errors s (mac # macs) ips' cs)))"

section \<open>Blocked clients\<close>

definition blocked_macs :: "site \<Rightarrow> string list" where
  "blocked_macs s =
     concat (map (\<lambda>c. case client_mac c of None \<Rightarrow> [] | Some m \<Rightarrow> [m]) (filter pc_blocked (s_policy_clients s)))"

definition first_blocked :: "string list \<Rightarrow> string" where
  "first_blocked bs = (case sort bs of [] \<Rightarrow> [] | b # _ \<Rightarrow> b)"

text \<open>A rule that could let a forwarded packet of a local client through.\<close>

definition accepts_forwarded :: "string list \<Rightarrow> policy \<Rightarrow> firewall_rule option" where
  "accepts_forwarded zones p =
     (case p_firewall p of
        None \<Rightarrow> None
      | Some r \<Rightarrow>
          if p_enabled p \<and> p_kind p = PolicyFirewallRule \<and> fr_action r = FirewallAccept \<and>
             fr_destination_zone r \<noteq> [] \<and> fr_source_zone r \<noteq> ''wan'' \<and> fr_source_zone r \<in> set zones
          then Some r else None)"

definition blocked_errors :: "site \<Rightarrow> string list \<Rightarrow> string list \<Rightarrow> policy \<Rightarrow> policy_error list" where
  "blocked_errors s zones bs p =
     (case accepts_forwarded zones p of
        None \<Rightarrow> []
      | Some r \<Rightarrow>
          if bs = [] then []
          else let macs = (if fr_source_set_id r > 0 then members_map s (fr_source_set_id r)
                           else Some (fr_source_macs r));
                   overlap = (case macs of
                                None \<Rightarrow> first_blocked bs
                              | Some ms \<Rightarrow>
                                  if ms = [] then first_blocked bs
                                  else (case find (\<lambda>m. m \<in> set bs) ms of None \<Rightarrow> [] | Some m \<Rightarrow> m))
               in if macs = None \<or> overlap \<noteq> [] then [AcceptsBlocked (p_name p) overlap] else [])"

definition policy_zones :: "site \<Rightarrow> string list" where
  "policy_zones s = ''wan'' # active_zone_names s"

definition validate_policies :: "site \<Rightarrow> policy_error list \<times> site" where
  "validate_policies s0 =
     (let (set_errs, s) = validate_policy_sets s0;
          zones = policy_zones s;
          (pol_errs, ps) = check_policies s zones [] (s_policies s);
          s' = s\<lparr>s_policies := ps\<rparr>
      in (set_errs
          @ (if snd (policy_source_mac_expansion s) then [] else [HeaderError ExpansionTooLarge])
          @ pol_errs
          @ pair_errors ps
          @ client_errors s [] [] (s_policy_clients s)
          @ concat (map (blocked_errors s zones (blocked_macs s)) ps), s'))"

section \<open>Facts on canonical forms\<close>

lemma join_ne: "length ps \<ge> 2 \<Longrightarrow> sep \<noteq> [] \<Longrightarrow> join sep ps \<noteq> []"
  by (cases ps; cases "tl ps"; auto)

lemma length_concat_pairs: "length (concat (map (\<lambda>p. [f p, g p]) zs)) = 2 * length zs"
  by (induction zs) auto

lemma hex_parts_length: "hex_parts sep w n s = Some ps \<Longrightarrow> length ps = n"
  by (auto simp: hex_parts_def Let_def split: if_splits)

lemma parse_mac_ne:
  assumes "parse_mac s = Some m"
  shows "m \<noteq> []"
proof -
  obtain ps where "m = join '':'' ps" and "length ps = 6"
    using assms
    by (auto simp: parse_mac_def length_concat_pairs dest!: hex_parts_length split: if_splits)
  then show ?thesis by (simp add: join_ne)
qed

lemma collect_macs_Inr:
  "collect_macs seen raws = Inr out \<Longrightarrow>
     set out = set seen \<union> {to_lower m |m. \<exists>raw\<in>set raws. parse_mac (trim_space raw) = Some m}"
proof (induction seen raws rule: collect_macs.induct)
  case (2 seen raw rest)
  then show ?case by (cases "parse_mac (trim_space raw)") fastforce+
qed simp

lemma canonical_macs_Inr:
  assumes "canonical_macs raws = Inr ms"
  shows "sorted ms" and "distinct ms" and "[] \<notin> set ms"
    and "set ms = {to_lower m |m. \<exists>raw\<in>set raws. parse_mac (trim_space raw) = Some m}"
proof -
  obtain seen where seen: "collect_macs [] raws = Inr seen" and ms: "ms = sort (nub seen)"
    using assms by (auto simp: canonical_macs_def split: sum.splits)
  show "sorted ms" and "distinct ms" by (simp_all add: ms)
  show set: "set ms = {to_lower m |m. \<exists>raw\<in>set raws. parse_mac (trim_space raw) = Some m}"
    using collect_macs_Inr [OF seen] by (simp add: ms)
  show "[] \<notin> set ms"
    unfolding set by (auto simp: to_lower_def dest: parse_mac_ne)
qed

lemma client_mac_ne: "client_mac c = Some mac \<Longrightarrow> mac \<noteq> []"
  using canonical_macs_Inr(3) [of "[pc_mac c]"]
  by (auto simp: client_mac_def split: sum.splits list.splits)

lemma protocols_set: "v \<in> set (canonical_protocols ps) \<Longrightarrow> v \<noteq> []"
  by (auto simp: canonical_protocols_def Let_def split: if_splits)

lemma find_map_of: "map_option f (find (\<lambda>x. key x = k) xs) = map_of (map (\<lambda>x. (key x, f x)) xs) k"
  by (induction xs) auto

lemma map_of_rev_distinct: "distinct (map fst xs) \<Longrightarrow> map_of (rev xs) k = map_of xs k"
  by (metis distinct_rev map_of_eq_Some_iff not_Some_eq rev_map set_rev)

section \<open>Facts on the validator\<close>

lemma check_sets_ok:
  "check_sets ids names acc over ps = ([], out, ov) \<Longrightarrow>
     map ps_id out = map ps_id ps \<and> distinct (map ps_id ps) \<and> (\<forall>i\<in>set (map ps_id ps). 0 < i \<and> i \<notin> set ids) \<and>
     (\<forall>q\<in>set out. ps_members q \<noteq> [] \<and> int (length (ps_members q)) \<le> MaxPolicySetMembers \<and>
        sorted (ps_members q) \<and> distinct (ps_members q))"
proof (induction ps arbitrary: ids names acc over out ov)
  case (Cons p ps)
  obtain ms where ms: "canonical_macs (ps_members p) = Inr ms"
    using Cons.prems by (cases "canonical_macs (ps_members p)") (auto simp: Let_def split: prod.splits)
  let ?a = "if int (length ms) > MaxPolicySetMembersTotal - acc then acc else acc + int (length ms)"
  let ?o = "int (length ms) > MaxPolicySetMembersTotal - acc \<or> over"
  obtain out' where rest: "check_sets (ps_id p # ids) (put (to_lower (ps_name p)) (ps_name p) names) ?a ?o ps = ([], out', ov)"
    and out: "out = p\<lparr>ps_members := ms\<rparr> # out'"
    and here: "0 < ps_id p" "ps_id p \<notin> set ids" "ms \<noteq> []" "int (length ms) \<le> MaxPolicySetMembers"
    using Cons.prems ms by (auto simp: Let_def split: prod.splits if_splits)
  from Cons.IH [OF rest] here out canonical_macs_Inr(1,2) [OF ms] show ?case by auto
qed simp

lemma check_policies_all2:
  "check_policies s zones seen ps = (es, ps') \<Longrightarrow> list_all2 (\<lambda>p p'. p' = snd (check_payload s zones p)) ps ps'"
  by (induction ps arbitrary: seen es ps') (auto simp: Let_def split: prod.splits)

lemma check_policies_ok:
  "check_policies s zones seen ps = ([], ps') \<Longrightarrow> p' \<in> set ps' \<Longrightarrow>
     \<exists>p\<in>set ps. check_payload s zones p = ([], p') \<and> exact_name (p_name p)"
proof (induction ps arbitrary: seen ps')
  case (Cons p ps)
  obtain es q where here: "check_payload s zones p = (es, q)" by (meson surj_pair)
  obtain rest qs where there: "check_policies s zones (if p_id p > 0 then p_id p # seen else seen) ps = (rest, qs)"
    by (meson surj_pair)
  from Cons.prems(1) here there have "es = []" "rest = []" "ps' = q # qs" "exact_name (p_name p)"
    by (auto simp: Let_def policy_header_errors_def split: if_splits)
  with Cons.IH [of _ qs] Cons.prems(2) here there show ?case by auto
qed simp

lemma client_errors_mac:
  "client_errors s macs ips cs = [] \<Longrightarrow> c \<in> set cs \<Longrightarrow> client_mac c \<noteq> None"
proof (induction cs arbitrary: macs ips)
  case (Cons d cs)
  then show ?case
    by (cases "client_mac d") (auto simp: Let_def split: prod.splits if_splits)
qed simp

lemma policy_zones_frame [simp]:
  "policy_zones (s\<lparr>s_policies := ps\<rparr>) = policy_zones s"
  "policy_zones (s\<lparr>s_policy_sets := sets\<rparr>) = policy_zones s"
  by (simp_all add: policy_zones_def active_zone_names_def zone_candidates_def)

text \<open>What an empty error list says, part by part.\<close>

lemma validate_policies_ok:
  assumes "validate_policies s = ([], s')"
  obtains sets ps where "check_sets [] [] 0 False (s_policy_sets s) = ([], sets, False)"
    "check_policies (s\<lparr>s_policy_sets := sets\<rparr>) (policy_zones s) [] (s_policies s) = ([], ps)"
    "s' = s\<lparr>s_policy_sets := sets, s_policies := ps\<rparr>"
    "pair_errors ps = []"
    "client_errors (s\<lparr>s_policy_sets := sets\<rparr>) [] [] (s_policy_clients s) = []"
    "\<forall>p\<in>set ps. blocked_errors (s\<lparr>s_policy_sets := sets\<rparr>) (policy_zones s) (blocked_macs s) p = []"
proof -
  obtain es sets ov where cs: "check_sets [] [] 0 False (s_policy_sets s) = (es, sets, ov)"
    by (metis surj_pair)
  let ?s = "s\<lparr>s_policy_sets := sets\<rparr>"
  obtain pe ps where cp: "check_policies ?s (policy_zones s) [] (s_policies s) = (pe, ps)"
    by (meson surj_pair)
  have bm: "blocked_macs ?s = blocked_macs s" by (simp add: blocked_macs_def)
  show thesis
    by (rule that [of sets ps])
      (use assms cs cp bm in \<open>auto simp: validate_policies_def validate_policy_sets_def Let_def
        split: if_splits\<close>)
qed

lemma usable_host_iff:
  "usable_host p a \<longleftrightarrow> p_bits p \<le> 30 \<and> unat (p_addr (masked p)) < unat a \<and>
     unat a < unat (p_addr (masked p)) + block p - 1"
proof -
  let ?b = "p_addr (masked p)"
  have blk: "unat (push_bit (32 - p_bits p) 1 - 1 :: 32 word) = block p - 1"
    by (simp only: unat_last_host [of "32 - p_bits p"] block_def diff_le_self)
  show ?thesis
  proof (cases "?b \<le> a")
    case True
    then have "unat (a - ?b) = unat a - unat ?b" by (rule unat_sub)
    with True blk show ?thesis
      by (auto simp: usable_host_def contains_interval Let_def word_less_nat_alt word_le_nat_alt)
  next
    case False
    then have "\<not> contains p a" by (simp add: contains_interval word_le_nat_alt)
    with False show ?thesis by (auto simp: usable_host_def word_le_nat_alt)
  qed
qed
end
