(* ===== verification/PolicyClaims.thy ===== *)
theory PolicyClaims
  imports Policies
begin

text \<open>What a site that passes \<open>ValidatePolicies\<close> guarantees, with a concrete policy set.\<close>

section \<open>A concrete policy set\<close>

definition sample_rule :: firewall_rule where
  "sample_rule =
     \<lparr>fr_action = ''accept'', fr_source_zone = ''iot'', fr_destination_zone = ''wan'',
      fr_protocols = ['' TCP'', ''udp'', ''tcp''], fr_source_cidr = ''10.0.20.9/24'', fr_destination_cidr = [],
      fr_source_port = [], fr_destination_port = ''80-90'', fr_source_set_id = 4, fr_source_macs = []\<rparr>"

definition sample_forward :: port_forward where
  "sample_forward =
     \<lparr>pf_source_zone = ''wan'', pf_destination_zone = ''guest'', pf_protocols = [''tcp''],
      pf_external_port = 8443, pf_destination_ip = ''10.0.30.20'', pf_destination_port = 443,
      pf_source_cidr = []\<rparr>"

definition sample_route :: static_route where
  "sample_route =
     \<lparr>sr_network_id = 1, sr_target = ''172.16.0.0/16'', sr_gateway = ''10.0.20.7'', sr_metric = 10\<rparr>"

definition blank_policy :: "int \<Rightarrow> string \<Rightarrow> policy" where
  "blank_policy i kind =
     \<lparr>p_id = i, p_order = i, p_name = ''rule'', p_kind = kind, p_origin = ''manual'', p_enabled = True,
      p_firewall = None, p_port_forward = None, p_static_route = None\<rparr>"

definition policy_site :: site where
  "policy_site = sample_site\<lparr>
     s_policies :=
       [(blank_policy 1 ''firewall_rule'')\<lparr>p_firewall := Some sample_rule\<rparr>,
        (blank_policy 2 ''port_forward'')\<lparr>p_port_forward := Some sample_forward\<rparr>,
        (blank_policy 3 ''static_route'')\<lparr>p_static_route := Some sample_route\<rparr>],
     s_policy_sets := [\<lparr>ps_id = 4, ps_name = ''kids'', ps_members = [''AA-BB-CC-00-11-22'']\<rparr>],
     s_policy_clients :=
       [\<lparr>pc_mac = ''aa:bb:cc:00:11:33'', pc_group = [], pc_blocked = True, pc_fixed_ip = []\<rparr>,
        \<lparr>pc_mac = ''aa:bb:cc:00:11:44'', pc_group = ''tv'', pc_blocked = False, pc_fixed_ip = ''10.0.20.50''\<rparr>]\<rparr>"

text \<open>The same site after validation: canonical hardware addresses, protocols and prefixes.\<close>

definition policy_site' :: site where
  "policy_site' = policy_site\<lparr>
     s_policies :=
       [(blank_policy 1 ''firewall_rule'')\<lparr>p_firewall := Some (sample_rule\<lparr>fr_protocols := [''tcp'', ''udp''],
          fr_source_cidr := ''10.0.20.0/24''\<rparr>)\<rparr>,
        (blank_policy 2 ''port_forward'')\<lparr>p_port_forward := Some sample_forward\<rparr>,
        (blank_policy 3 ''static_route'')\<lparr>p_static_route := Some sample_route\<rparr>],
     s_policy_sets := [\<lparr>ps_id = 4, ps_name = ''kids'', ps_members = [''aa:bb:cc:00:11:22'']\<rparr>]\<rparr>"

lemma policy_site_ok: "validate_policies policy_site = ([], policy_site')"
  by code_simp

section \<open>Blocked clients\<close>

text \<open>The source addresses a rule matches: no list means every source.\<close>

definition source_matches :: "site \<Rightarrow> firewall_rule \<Rightarrow> string \<Rightarrow> bool" where
  "source_matches s r mac \<longleftrightarrow>
     (case firewall_source_macs s r of None \<Rightarrow> True | Some ms \<Rightarrow> ms = [] \<or> mac \<in> set ms)"

lemma policies_frame:
  "firewall_source_macs (s\<lparr>s_policies := ps\<rparr>) r = firewall_source_macs s r"
  by (simp add: firewall_source_macs_def policy_set_by_id_def)

lemma members_map_lookup:
  assumes "distinct (map ps_id (s_policy_sets s))"
  shows "members_map s i = map_option ps_members (policy_set_by_id s i)"
  using map_of_rev_distinct [of "map (\<lambda>p. (ps_id p, ps_members p)) (s_policy_sets s)" i] assms
  by (simp add: members_map_def policy_set_by_id_def find_map_of comp_def)

lemma blocked_errors_Nil:
  assumes "blocked_errors s zones bs p = []" and "accepts_forwarded zones p = Some r"
    and "mac \<in> set bs" and "[] \<notin> set bs"
    and "distinct (map ps_id (s_policy_sets s))" and "0 \<le> fr_source_set_id r"
  shows "\<not> source_matches s r mac"
proof -
  let ?macs = "if fr_source_set_id r > 0 then members_map s (fr_source_set_id r) else Some (fr_source_macs r)"
  have macs: "?macs = firewall_source_macs s r"
    using assms(6) by (simp add: firewall_source_macs_def members_map_lookup [OF assms(5)])
  have "sort bs \<noteq> []" using assms(3) by (metis empty_iff list.set(1) set_sort)
  then have "first_blocked bs \<in> set bs"
    by (auto simp: first_blocked_def neq_Nil_conv) (metis list.set_intros(1) set_sort)
  then have fb: "first_blocked bs \<noteq> []" using assms(4) by metis
  have "bs \<noteq> []" using assms(3) by auto
  then obtain ms where ms: "firewall_source_macs s r = Some ms" "ms \<noteq> []"
    and "(case find (\<lambda>m. m \<in> set bs) ms of None \<Rightarrow> [] | Some m \<Rightarrow> m) = []"
    using assms(1,2) fb unfolding blocked_errors_def macs [symmetric]
    by (auto simp: Let_def split: option.splits if_splits)
  moreover have "find (\<lambda>m. m \<in> set bs) ms = None"
    using calculation(3) assms(4) by (auto split: option.splits dest: find_Some_in)
  ultimately show ?thesis
    using assms(3) by (auto simp: source_matches_def find_None_all)
qed

lemma checked_firewall_rule:
  assumes "check_payload s zones p = ([], p')" and "p_kind p' = PolicyFirewallRule" and "p_firewall p' = Some r'"
  obtains r where "p_firewall p = Some r" "validate_firewall_rule (p_name p) r zones = ([], r')"
    "check_set_reference s (p_name p) r' = []"
  using assms by (auto simp: check_payload_def split: if_splits option.splits prod.splits)

text \<open>
  C32. Blocking a client holds against every rule: in a site that validates, no enabled rule that
  accepts forwarded traffic from a local zone matches the hardware address of a blocked client, be
  its source list written in the rule, taken from a policy set, or absent.
\<close>

theorem blocked_clients_stay_blocked:
  assumes "validate_policies s = ([], s')"
    and "c \<in> set (s_policy_clients s')" and "pc_blocked c"
    and "p \<in> set (s_policies s')" and "accepts_forwarded (policy_zones s') p = Some r"
  shows "\<exists>mac. client_mac c = Some mac \<and> \<not> source_matches s' r mac"
proof -
  obtain sets ps where v: "check_sets [] [] 0 False (s_policy_sets s) = ([], sets, False)"
    "check_policies (s\<lparr>s_policy_sets := sets\<rparr>) (policy_zones s) [] (s_policies s) = ([], ps)"
    "s' = s\<lparr>s_policy_sets := sets, s_policies := ps\<rparr>"
    "client_errors (s\<lparr>s_policy_sets := sets\<rparr>) [] [] (s_policy_clients s) = []"
    "\<forall>p\<in>set ps. blocked_errors (s\<lparr>s_policy_sets := sets\<rparr>) (policy_zones s) (blocked_macs s) p = []"
    by (rule validate_policies_ok [OF assms(1)])
  let ?s = "s\<lparr>s_policy_sets := sets\<rparr>"
  have c: "c \<in> set (s_policy_clients s)" and p: "p \<in> set ps" using assms(2,4) v(3) by auto
  obtain mac where mac: "client_mac c = Some mac" using client_errors_mac [OF v(4) c] by auto
  have "mac \<in> set (blocked_macs s)" using c mac assms(3) by (force simp: blocked_macs_def)
  moreover have "[] \<notin> set (blocked_macs s)"
    by (auto simp: blocked_macs_def split: option.splits dest: client_mac_ne [OF sym])
  moreover have acc: "accepts_forwarded (policy_zones s) p = Some r" using assms(5) v(3) by simp
  moreover have "distinct (map ps_id (s_policy_sets ?s))" using check_sets_ok [OF v(1)] by simp
  moreover have "0 \<le> fr_source_set_id r"
  proof -
    obtain q where q: "check_payload ?s (policy_zones s) q = ([], p)"
      using check_policies_ok [OF v(2) p] by blast
    have "p_kind p = PolicyFirewallRule" "p_firewall p = Some r"
      using acc by (auto simp: accepts_forwarded_def split: option.splits if_splits)
    from checked_firewall_rule [OF q this] have "check_set_reference ?s (p_name q) r = []" by blast
    then show ?thesis by (auto simp: check_set_reference_def split: if_splits)
  qed
  ultimately have "\<not> source_matches ?s r mac"
    using blocked_errors_Nil v(5) p by metis
  then have "\<not> source_matches s' r mac"
    unfolding source_matches_def v(3) policies_frame .
  with mac show ?thesis by blast
qed

theorem blocked_clients_stay_blocked_witness:
  "\<exists>mac. client_mac (hd (s_policy_clients policy_site')) = Some mac \<and>
     \<not> source_matches policy_site' (the (p_firewall (hd (s_policies policy_site')))) mac"
proof -
  have "hd (s_policy_clients policy_site') \<in> set (s_policy_clients policy_site')"
    and "pc_blocked (hd (s_policy_clients policy_site'))"
    and "hd (s_policies policy_site') \<in> set (s_policies policy_site')"
    and "accepts_forwarded (policy_zones policy_site') (hd (s_policies policy_site')) =
      Some (the (p_firewall (hd (s_policies policy_site'))))"
    by code_simp+
  from blocked_clients_stay_blocked [OF policy_site_ok this] show ?thesis .
qed

section \<open>Port ranges\<close>

lemma itoa_digits: "0 \<le> i \<Longrightarrow> list_all is_digit (itoa i)"
  using show_nat_digits [of "nat i"] by (simp add: itoa_def)

lemma itoa_plain:
  assumes "0 \<le> i"
  shows "CHR ''-'' \<notin> set (itoa i)" and "itoa i \<noteq> []" and "\<not> is_space (hd (itoa i))" and "\<not> is_space (last (itoa i))"
proof -
  have d: "list_all is_digit (itoa i)" by (rule itoa_digits [OF assms])
  show ne: "itoa i \<noteq> []" using show_nat_ne by (simp add: itoa_def assms)
  have ns: "is_digit c \<Longrightarrow> \<not> is_space c \<and> c \<noteq> CHR ''-''" for c
    by (auto simp: is_digit_def is_space_def Let_def)
  show "CHR ''-'' \<notin> set (itoa i)" using d ns by (auto simp: list_all_iff)
  show "\<not> is_space (hd (itoa i))" "\<not> is_space (last (itoa i))"
    using d ns ne hd_in_set last_in_set by (auto simp: list_all_iff)
qed

definition port_text :: "int \<Rightarrow> int \<Rightarrow> string" where
  "port_text lo hi = (if hi = lo then itoa lo else itoa lo @ ''-'' @ itoa hi)"

lemma split_port_text:
  assumes "1 \<le> lo" and "lo \<le> hi"
  shows "split_on (CHR ''-'') (port_text lo hi) = (if hi = lo then [itoa lo] else [itoa lo, itoa hi])"
  using assms by (simp add: port_text_def split_on_append split_on_none itoa_plain)

lemma trim_port_text: "1 \<le> lo \<Longrightarrow> lo \<le> hi \<Longrightarrow> trim_space (port_text lo hi) = port_text lo hi"
  unfolding trim_space_def by (rule trim_by_noop) (auto simp: port_text_def itoa_plain)

lemma canonical_port_range_Inr:
  assumes "canonical_port_range raw = Inr c"
  obtains lo hi where "1 \<le> lo" "lo \<le> hi" "hi \<le> 65535" "c = port_text lo hi"
proof -
  let ?ps = "split_on (CHR ''-'') (trim_space raw)"
  obtain lo where lo: "atoi (hd ?ps) = Some lo" "1 \<le> lo" "lo \<le> 65535"
    using assms by (auto simp: canonical_port_range_def Let_def split: if_splits option.splits)
  show thesis
  proof (cases "length ?ps = 2")
    case True
    obtain hi where "atoi (?ps ! 1) = Some hi" "lo \<le> hi" "hi \<le> 65535" "c = port_text lo hi"
      using assms lo True
      by (auto simp: canonical_port_range_def port_text_def Let_def split: if_splits option.splits)
    with lo that show thesis by blast
  next
    case False
    with assms lo have "c = port_text lo lo"
      by (simp add: canonical_port_range_def port_text_def Let_def split: if_splits)
    with lo that [of lo lo] show thesis by blast
  qed
qed

text \<open>
  A port or port range that is accepted is stored in one canonical text: it denotes an
  ascending range inside 1 to 65535, validating it again changes nothing, and the conflict check
  between rules finds a port in it exactly when the range contains the port.
\<close>

theorem port_range_canonical:
  assumes "canonical_port_range raw = Inr c"
  shows "canonical_port_range c = Inr c \<and>
    (\<exists>lo hi. 1 \<le> lo \<and> lo \<le> hi \<and> hi \<le> 65535 \<and>
       c = (if hi = lo then itoa lo else itoa lo @ ''-'' @ itoa hi) \<and>
       (\<forall>port. canonical_port_contains c port \<longleftrightarrow> lo \<le> port \<and> port \<le> hi))"
proof -
  obtain lo hi where r: "1 \<le> lo" "lo \<le> hi" "hi \<le> 65535" and c: "c = port_text lo hi"
    by (rule canonical_port_range_Inr [OF assms])
  have a: "atoi (itoa lo) = Some lo" "atoi (itoa hi) = Some hi" using r by (simp_all add: atoi_itoa)
  have "canonical_port_range c = Inr c"
    using r a by (simp add: canonical_port_range_def c trim_port_text split_port_text Let_def) (simp add: port_text_def)
  moreover have "canonical_port_contains c port \<longleftrightarrow> lo \<le> port \<and> port \<le> hi" for port
    using r a by (simp add: canonical_port_contains_def c split_port_text Let_def)
  ultimately show ?thesis using r c by (auto simp: port_text_def)
qed

theorem port_range_canonical_witness: "canonical_port_range ''80-90'' = Inr ''80-90''"
proof -
  have "canonical_port_range '' +80-90'' = Inr ''80-90''" by code_simp
  from port_range_canonical [OF this] show ?thesis by blast
qed

section \<open>Port forwards\<close>

lemma checked_port_forward:
  assumes "check_payload s zones p = ([], p')" and "p_kind p' = PolicyPortForward" and "p_port_forward p' = Some r'"
  obtains r where "validate_port_forward s (p_name p) r zones = ([], r')"
  using assms by (auto simp: check_payload_def split: if_splits option.splits prod.splits)

lemma checked_static_route:
  assumes "check_payload s zones p = ([], p')" and "p_kind p' = PolicyStaticRoute" and "p_static_route p' = Some r'"
  obtains r where "validate_static_route s (p_name p) r = ([], r')"
  using assms by (auto simp: check_payload_def split: if_splits option.splits prod.splits)

text \<open>The host addresses of a prefix: neither its network nor its broadcast address.\<close>

definition hosts :: "prefix4 \<Rightarrow> ipv4 set" where
  "hosts q = {a \<in> addrs q. a \<noteq> p_addr (masked q) \<and> unat a \<noteq> unat (p_addr (masked q)) + block q - 1}"

lemma usable_in_hosts: "usable_host q a \<Longrightarrow> a \<in> hosts q"
  by (auto simp: usable_host_iff hosts_def addrs_def contains_interval)

lemma port_forward_ok:
  assumes "validate_port_forward s name r zones = ([], r')"
  shows "pf_source_zone r' = ''wan'' \<and> pf_protocols r' \<noteq> [] \<and> set (pf_protocols r') \<subseteq> {''tcp'', ''udp''} \<and>
    pf_external_port r' \<in> {1..65535} \<and> pf_destination_port r' \<in> {1..65535} \<and>
    (\<exists>a. parse_addr (pf_destination_ip r') = Some a \<and> forward_target s (pf_destination_zone r') a)"
proof -
  have "concat (map (\<lambda>p. if p \<noteq> ''tcp'' \<and> p \<noteq> ''udp'' then [RuleError (BadProtocol name p)] else [])
      (canonical_protocols (pf_protocols r))) = []"
    using assms by (simp add: validate_port_forward_def Let_def split: prod.splits)
  then have "set (canonical_protocols (pf_protocols r)) \<subseteq> {''tcp'', ''udp''}"
    unfolding if_errors_Nil by blast
  with assms show ?thesis
    by (auto simp: validate_port_forward_def Let_def parse_show_addr split: if_splits option.splits prod.splits)
qed

text \<open>
  C36. Every port forward of a validated site leads from the wan to a host address, other than the
  router's own, of an active network in the zone it names, for tcp or udp and ports in range.
\<close>

theorem port_forward_reaches_host:
  assumes "validate_policies s = ([], s')" and "p \<in> set (s_policies s')"
    and "p_kind p = PolicyPortForward" and "p_port_forward p = Some r"
  shows "pf_source_zone r = ''wan'' \<and> pf_protocols r \<noteq> [] \<and> set (pf_protocols r) \<subseteq> {''tcp'', ''udp''} \<and>
    pf_external_port r \<in> {1..65535} \<and> pf_destination_port r \<in> {1..65535} \<and>
    (\<exists>a n q. parse_addr (pf_destination_ip r) = Some a \<and> n \<in> set (s_networks s') \<and> active n \<and>
       zone_label n = pf_destination_zone r \<and> parse_prefix (n_cidr n) = Some q \<and>
       a \<in> hosts q \<and> a \<noteq> p_addr q)"
proof -
  obtain sets ps where v: "check_policies (s\<lparr>s_policy_sets := sets\<rparr>) (policy_zones s) [] (s_policies s) = ([], ps)"
    "s' = s\<lparr>s_policy_sets := sets, s_policies := ps\<rparr>"
    by (rule validate_policies_ok [OF assms(1)])
  then have "p \<in> set ps" using assms(2) by simp
  then obtain q where "check_payload (s\<lparr>s_policy_sets := sets\<rparr>) (policy_zones s) q = ([], p)"
    using check_policies_ok [OF v(1)] by blast
  then obtain r0 where "validate_port_forward (s\<lparr>s_policy_sets := sets\<rparr>) (p_name q) r0 (policy_zones s) = ([], r)"
    by (rule checked_port_forward [OF _ assms(3,4)])
  note ok = port_forward_ok [OF this]
  then obtain a where a: "parse_addr (pf_destination_ip r) = Some a"
    "forward_target (s\<lparr>s_policy_sets := sets\<rparr>) (pf_destination_zone r) a" by blast
  then obtain n q where "n \<in> set (s_networks s)" "active n" "zone_label n = pf_destination_zone r"
    "parse_prefix (n_cidr n) = Some q" "a \<noteq> p_addr q" "usable_host q a"
    by (auto simp: forward_target_def list_ex_iff split: option.splits)
  with a(1) ok v(2) usable_in_hosts show ?thesis by (auto intro!: exI [of _ a])
qed

theorem port_forward_reaches_host_witness:
  "\<exists>a. parse_addr ''10.0.30.20'' = Some a \<and> pf_source_zone sample_forward = ''wan''"
proof -
  let ?p = "(blank_policy 2 ''port_forward'')\<lparr>p_port_forward := Some sample_forward\<rparr>"
  have "?p \<in> set (s_policies policy_site')" "p_kind ?p = PolicyPortForward" "p_port_forward ?p = Some sample_forward"
    by (simp_all add: policy_site'_def blank_policy_def)
  from port_forward_reaches_host [OF policy_site_ok this] show ?thesis
    by (auto simp: sample_forward_def)
qed

section \<open>Pairs of policies\<close>

lemma validated_pair:
  assumes "validate_policies s = ([], s')" and "i < j" and "j < length (s_policies s')"
  shows "validate_policy_pair (s_policies s' ! i) (s_policies s' ! j) = []"
proof -
  obtain sets ps where "s' = s\<lparr>s_policy_sets := sets, s_policies := ps\<rparr>" "pair_errors ps = []"
    by (rule validate_policies_ok [OF assms(1)])
  with all_pairs_nth [of validate_policy_pair] assms(2,3) show ?thesis by (simp add: pair_errors_def)
qed

text \<open>
  C37. The policies of a validated site do not contradict one another in the two ways the validator
  looks for: two enabled firewall rules with the same source and destination zones have the same
  action, and two enabled port forwards share a wan port only if they share no protocol.
\<close>

theorem policies_never_conflict:
  assumes "validate_policies s = ([], s')" and "i < j" and "j < length (s_policies s')"
    and "p = s_policies s' ! i" and "q = s_policies s' ! j" and "p_enabled p" and "p_enabled q"
  shows "(p_kind p = PolicyFirewallRule \<and> p_kind q = PolicyFirewallRule \<longrightarrow>
      (\<forall>x y. p_firewall p = Some x \<and> p_firewall q = Some y \<and>
         fr_source_zone x = fr_source_zone y \<and> fr_destination_zone x = fr_destination_zone y \<longrightarrow>
         fr_action x = fr_action y)) \<and>
    (p_kind p = PolicyPortForward \<and> p_kind q = PolicyPortForward \<longrightarrow>
      (\<forall>x y. p_port_forward p = Some x \<and> p_port_forward q = Some y \<and> pf_external_port x = pf_external_port y \<longrightarrow>
         set (pf_protocols x) \<inter> set (pf_protocols y) = {}))"
proof -
  have "validate_policy_pair p q = []" using validated_pair [OF assms(1-3)] assms(4,5) by simp
  with assms(6,7) show ?thesis
    by (auto simp: validate_policy_pair_def protocol_lists_overlap_def list_ex_iff split: if_splits) blast+
qed

definition udp_twin :: site where
  "udp_twin = policy_site'\<lparr>s_policies :=
     [(blank_policy 2 ''port_forward'')\<lparr>p_port_forward := Some sample_forward\<rparr>,
      (blank_policy 5 ''port_forward'')\<lparr>p_port_forward := Some (sample_forward\<lparr>pf_protocols := [''udp'']\<rparr>)\<rparr>]\<rparr>"

theorem policies_never_conflict_witness:
  "set (pf_protocols sample_forward) \<inter> set (pf_protocols (sample_forward\<lparr>pf_protocols := [''udp'']\<rparr>)) = {}"
proof -
  have "validate_policies udp_twin = ([], udp_twin)" by code_simp
  moreover have "p_enabled (s_policies udp_twin ! 0)" "p_enabled (s_policies udp_twin ! 1)"
    "1 < length (s_policies udp_twin)"
    by (simp_all add: udp_twin_def blank_policy_def)
  ultimately show ?thesis
    using policies_never_conflict [of udp_twin udp_twin 0 1, OF _ _ _ refl refl]
    by (simp add: udp_twin_def blank_policy_def)
qed

section \<open>Fixed addresses\<close>

text \<open>A fixed address that the validator accepts for a client.\<close>

definition fixed_address :: "site \<Rightarrow> policy_client \<Rightarrow> ipv4 \<Rightarrow> bool" where
  "fixed_address s c a \<longleftrightarrow>
     parse_addr (trim_space (pc_fixed_ip c)) = Some a \<and>
     (\<exists>n q. networks_containing s a = [n] \<and> dhcp_enabled (effective_dhcp n) \<and>
        parse_prefix (n_cidr n) = Some q \<and> a \<in> hosts q \<and> a \<noteq> p_addr q)"

lemma fixed_ip_errors_Nil:
  assumes "fixed_ip_errors s mac ips (pc_fixed_ip c) = ([], r)"
  obtains a where "r = Some a" "fixed_address s c a" "get_str ips (show_addr a) = [] \<or> get_str ips (show_addr a) = mac"
proof -
  obtain a where a: "parse_addr (trim_space (pc_fixed_ip c)) = Some a"
    using assms by (auto simp: fixed_ip_errors_def split: option.splits)
  obtain n where n: "networks_containing s a = [n]"
    using assms a by (auto simp: fixed_ip_errors_def split: list.splits)
  then have "n \<in> set (networks_containing s a)" by simp
  then obtain q where q: "parse_prefix (n_cidr n) = Some q"
    by (auto simp: networks_containing_def split: option.splits)
  from assms a n q that [of a] show thesis
    by (auto simp: fixed_ip_errors_def fixed_address_def Let_def dest: usable_in_hosts split: if_splits)
qed

lemma client_errors_ok:
  "client_errors s macs ips cs = [] \<Longrightarrow> c \<in> set cs \<Longrightarrow>
     \<exists>mac. client_mac c = Some mac \<and> mac \<notin> set macs \<and>
       (pc_fixed_ip c = [] \<or>
        (\<exists>a. fixed_address s c a \<and> (get_str ips (show_addr a) = [] \<or> get_str ips (show_addr a) = mac)))"
proof (induction cs arbitrary: macs ips)
  case (Cons d cs)
  obtain m where m: "client_mac d = Some m" "m \<notin> set macs"
    using Cons.prems(1) by (cases "client_mac d") (auto simp: Let_def split: if_splits prod.splits)
  show ?case
  proof (cases "pc_fixed_ip d = []")
    case True
    with Cons.prems(1) m have rest: "client_errors s (m # macs) ips cs = []" by (simp add: Let_def split: if_splits)
    show ?thesis
    proof (cases "c = d")
      case False
      with Cons.prems(2) Cons.IH [OF rest] show ?thesis by auto
    qed (use m True in simp)
  next
    case False
    obtain r where r: "fixed_ip_errors s m ips (pc_fixed_ip d) = ([], r)"
      and rest: "client_errors s (m # macs) (case r of None \<Rightarrow> ips | Some a \<Rightarrow> put (show_addr a) m ips) cs = []"
      using Cons.prems(1) m False by (auto simp: Let_def split: if_splits prod.splits)
    obtain a where a: "r = Some a" "fixed_address s d a"
      "get_str ips (show_addr a) = [] \<or> get_str ips (show_addr a) = m"
      by (rule fixed_ip_errors_Nil [OF r])
    show ?thesis
    proof (cases "c = d")
      case True
      with m a show ?thesis by auto
    next
      case False
      then have "c \<in> set cs" using Cons.prems(2) by simp
      from Cons.IH [OF rest this] a(1) client_mac_ne [OF m(1)] show ?thesis
        by (auto split: if_splits)
    qed
  qed
qed simp

lemma client_errors_apart:
  "client_errors s macs ips cs = [] \<Longrightarrow> i < j \<Longrightarrow> j < length cs \<Longrightarrow>
     client_mac (cs ! i) \<noteq> client_mac (cs ! j) \<and>
     (\<forall>a b. fixed_address s (cs ! i) a \<and> fixed_address s (cs ! j) b \<and>
        pc_fixed_ip (cs ! i) \<noteq> [] \<and> pc_fixed_ip (cs ! j) \<noteq> [] \<longrightarrow> a \<noteq> b)"
proof (induction cs arbitrary: macs ips i j)
  case (Cons d cs)
  obtain m where m: "client_mac d = Some m"
    using client_errors_mac [OF Cons.prems(1), of d] by auto
  obtain j' where j: "j = Suc j'" using Cons.prems(2) by (cases j) auto
  have in_cs: "cs ! j' \<in> set cs" using Cons.prems(3) j by simp
  show ?case
  proof (cases i)
    case (Suc i')
    have "\<exists>ips'. client_errors s (m # macs) ips' cs = []"
      using Cons.prems(1) m by (auto simp: Let_def split: if_splits prod.splits)
    then obtain ips' where "client_errors s (m # macs) ips' cs = []" by blast
    from Cons.IH [OF this, of i' j'] Cons.prems(2,3) j Suc show ?thesis by simp
  next
    case 0
    show ?thesis
    proof (cases "pc_fixed_ip d = []")
      case True
      with Cons.prems(1) m have "client_errors s (m # macs) ips cs = []" by (simp add: Let_def split: if_splits)
      from client_errors_ok [OF this in_cs] m True 0 j show ?thesis by auto
    next
      case False
      obtain r where r: "fixed_ip_errors s m ips (pc_fixed_ip d) = ([], r)"
        and rest: "client_errors s (m # macs) (case r of None \<Rightarrow> ips | Some a \<Rightarrow> put (show_addr a) m ips) cs = []"
        using Cons.prems(1) m False by (auto simp: Let_def split: if_splits prod.splits)
      obtain a where a: "r = Some a" "fixed_address s d a" by (rule fixed_ip_errors_Nil [OF r])
      from client_errors_ok [OF rest in_cs] a obtain m' where m': "client_mac (cs ! j') = Some m'" "m' \<noteq> m"
        "pc_fixed_ip (cs ! j') = [] \<or> (\<exists>b. fixed_address s (cs ! j') b \<and>
           (get_str (put (show_addr a) m ips) (show_addr b) = [] \<or>
            get_str (put (show_addr a) m ips) (show_addr b) = m'))" by auto
      have "b \<noteq> a" if fx: "fixed_address s (cs ! j') b" and ne: "pc_fixed_ip (cs ! j') \<noteq> []" for b
      proof
        assume "b = a"
        moreover obtain b' where "fixed_address s (cs ! j') b'"
          "get_str (put (show_addr a) m ips) (show_addr b') \<in> {[], m'}"
          using m'(3) ne by blast
        moreover have "b' = b" using calculation(2) fx by (simp add: fixed_address_def)
        ultimately show False using m'(2) client_mac_ne [OF m] by simp
      qed
      moreover have "x = a" if "fixed_address s d x" for x
        using that a(2) by (simp add: fixed_address_def)
      ultimately show ?thesis using m m' 0 j by auto
    qed
  qed
qed simp

text \<open>
  Every fixed address of a validated site is a host address, other than the router's, of
  exactly one active network whose DHCP server is on, and no two client rows share a hardware
  address or a fixed address.
\<close>

theorem fixed_addresses_sound:
  assumes "validate_policies s = ([], s')" and "j < length (s_policy_clients s')"
    and "pc_fixed_ip (s_policy_clients s' ! j) \<noteq> []"
  shows "\<exists>a n q. parse_addr (trim_space (pc_fixed_ip (s_policy_clients s' ! j))) = Some a \<and>
    networks_containing s' a = [n] \<and> dhcp_enabled (effective_dhcp n) \<and>
    parse_prefix (n_cidr n) = Some q \<and> a \<in> hosts q \<and> a \<noteq> p_addr q \<and>
    (\<forall>i<j. client_mac (s_policy_clients s' ! i) \<noteq> client_mac (s_policy_clients s' ! j) \<and>
       (pc_fixed_ip (s_policy_clients s' ! i) \<noteq> [] \<longrightarrow>
        parse_addr (trim_space (pc_fixed_ip (s_policy_clients s' ! i))) \<noteq> Some a))"
proof -
  obtain sets ps where s': "s' = s\<lparr>s_policy_sets := sets, s_policies := ps\<rparr>"
    and ce: "client_errors (s\<lparr>s_policy_sets := sets\<rparr>) [] [] (s_policy_clients s) = []"
    by (rule validate_policies_ok [OF assms(1)])
  let ?s = "s\<lparr>s_policy_sets := sets\<rparr>" and ?cs = "s_policy_clients s"
  have cs: "s_policy_clients s' = ?cs" by (simp add: s')
  have nets: "networks_containing s' = networks_containing ?s"
    by (rule ext) (simp add: s' networks_containing_def)
  have fixed: "\<exists>a. fixed_address ?s (?cs ! i) a" if "i < length ?cs" "pc_fixed_ip (?cs ! i) \<noteq> []" for i
    using client_errors_ok [OF ce nth_mem [OF that(1)]] that(2) by auto
  obtain a where a: "fixed_address ?s (?cs ! j) a" using fixed assms(2,3) cs by auto
  then obtain n q where q: "parse_addr (trim_space (pc_fixed_ip (?cs ! j))) = Some a"
    "networks_containing ?s a = [n]" "dhcp_enabled (effective_dhcp n)" "parse_prefix (n_cidr n) = Some q"
    "a \<in> hosts q" "a \<noteq> p_addr q"
    unfolding fixed_address_def by blast
  have "client_mac (?cs ! i) \<noteq> client_mac (?cs ! j) \<and>
      (pc_fixed_ip (?cs ! i) \<noteq> [] \<longrightarrow> parse_addr (trim_space (pc_fixed_ip (?cs ! i))) \<noteq> Some a)" if "i < j" for i
  proof -
    note apart = client_errors_apart [OF ce that, unfolded cs [symmetric], OF assms(2), unfolded cs]
    have "parse_addr (trim_space (pc_fixed_ip (?cs ! i))) \<noteq> Some a" if ne: "pc_fixed_ip (?cs ! i) \<noteq> []"
    proof -
      obtain b where b: "fixed_address ?s (?cs ! i) b" using fixed [OF _ ne] \<open>i < j\<close> assms(2) cs by auto
      with apart a ne assms(3) cs have "b \<noteq> a" by auto
      with b show ?thesis by (simp add: fixed_address_def)
    qed
    with apart show ?thesis by blast
  qed
  with q show ?thesis unfolding cs nets by blast
qed

theorem fixed_addresses_sound_witness:
  "\<exists>a n. parse_addr ''10.0.20.50'' = Some a \<and> networks_containing policy_site' a = [n]"
proof -
  have "1 < length (s_policy_clients policy_site')" "pc_fixed_ip (s_policy_clients policy_site' ! 1) \<noteq> []"
    and "trim_space (pc_fixed_ip (s_policy_clients policy_site' ! 1)) = ''10.0.20.50''"
    by code_simp+
  with fixed_addresses_sound [OF policy_site_ok, of 1] show ?thesis by auto
qed

section \<open>Static routes\<close>

lemma static_route_ok:
  assumes "validate_static_route s name r = ([], r')"
  shows "\<exists>t g. parse_prefix (sr_target r') = Some t \<and> masked t = t \<and> 8 \<le> p_bits t \<and>
    parse_addr (sr_gateway r') = Some g \<and> 0 \<le> sr_metric r' \<and> sr_metric r' \<le> 65535 \<and> 0 \<le> sr_network_id r' \<and>
    (0 < sr_network_id r' \<longrightarrow> (\<exists>n q. network_by_id s (sr_network_id r') = Some n \<and> active n \<and>
       parse_prefix (n_cidr n) = Some q \<and> usable_host q g)) \<and>
    (\<forall>n\<in>set (s_networks s). \<forall>q. active n \<and> parse_prefix (n_cidr n) = Some q \<longrightarrow> \<not> overlaps (masked q) t)"
proof -
  obtain t where t: "parse_ipv4_prefix (sr_target r) = Some t" "masked t = t" "8 \<le> p_bits t"
    using assms by (auto simp: validate_static_route_def Let_def split: option.splits if_splits)
  obtain g where g: "parse_addr (trim_space (sr_gateway r)) = Some g"
    using assms by (auto simp: validate_static_route_def Let_def split: if_splits)
  have "wf_prefix t" using t(1) by (auto simp: parse_ipv4_prefix_def parse_prefix_wf)
  then have "parse_prefix (sr_target r') = Some t" "parse_addr (sr_gateway r') = Some g"
    using assms t g by (auto simp: validate_static_route_def Let_def parse_show_prefix parse_show_addr)
  moreover have "\<forall>n\<in>set (s_networks s). \<forall>q. active n \<and> parse_prefix (n_cidr n) = Some q \<longrightarrow> \<not> overlaps (masked q) t"
    using assms t by (auto simp: validate_static_route_def Let_def split: option.splits if_splits)
  moreover have "0 < sr_network_id r' \<longrightarrow> (\<exists>n q. network_by_id s (sr_network_id r') = Some n \<and> active n \<and>
       parse_prefix (n_cidr n) = Some q \<and> usable_host q g)"
    using assms t g by (auto simp: validate_static_route_def Let_def split: option.splits if_splits)
  moreover have "0 \<le> sr_metric r' \<and> sr_metric r' \<le> 65535 \<and> 0 \<le> sr_network_id r'"
    using assms by (auto simp: validate_static_route_def Let_def split: option.splits if_splits)
  ultimately show ?thesis using t by blast
qed

text \<open>
  Every static route of a validated site is written as a canonical network of /8 or longer,
  has no address in common with any connected managed network, and when it names a network its
  gateway is a host address of that active network.
\<close>

theorem static_routes_sound:
  assumes "validate_policies s = ([], s')" and "p \<in> set (s_policies s')"
    and "p_kind p = PolicyStaticRoute" and "p_static_route p = Some r"
  shows "\<exists>t g. parse_prefix (sr_target r) = Some t \<and> masked t = t \<and> 8 \<le> p_bits t \<and>
    parse_addr (sr_gateway r) = Some g \<and> sr_metric r \<in> {0..65535} \<and>
    (0 < sr_network_id r \<longrightarrow> (\<exists>n q. network_by_id s' (sr_network_id r) = Some n \<and> active n \<and>
       parse_prefix (n_cidr n) = Some q \<and> g \<in> hosts q)) \<and>
    (\<forall>n\<in>set (s_networks s'). \<forall>q. active n \<and> parse_prefix (n_cidr n) = Some q \<longrightarrow> addrs q \<inter> addrs t = {})"
proof -
  obtain sets ps where v: "check_policies (s\<lparr>s_policy_sets := sets\<rparr>) (policy_zones s) [] (s_policies s) = ([], ps)"
    "s' = s\<lparr>s_policy_sets := sets, s_policies := ps\<rparr>"
    by (rule validate_policies_ok [OF assms(1)])
  then have "p \<in> set ps" using assms(2) by simp
  then obtain q where "check_payload (s\<lparr>s_policy_sets := sets\<rparr>) (policy_zones s) q = ([], p)"
    using check_policies_ok [OF v(1)] by blast
  then obtain r0 where "validate_static_route (s\<lparr>s_policy_sets := sets\<rparr>) (p_name q) r0 = ([], r)"
    by (rule checked_static_route [OF _ assms(3,4)])
  note ok = static_route_ok [OF this]
  have same: "addrs (masked q) = addrs q" for q by (simp add: addrs_def)
  have nets: "s_networks (s\<lparr>s_policy_sets := sets\<rparr>) = s_networks s'"
    "network_by_id (s\<lparr>s_policy_sets := sets\<rparr>) i = network_by_id s' i" for i
    by (simp_all add: v(2) network_by_id_def)
  from ok obtain t g where "parse_prefix (sr_target r) = Some t" "masked t = t" "8 \<le> p_bits t"
    "parse_addr (sr_gateway r) = Some g" "0 \<le> sr_metric r" "sr_metric r \<le> 65535"
    "0 < sr_network_id r \<longrightarrow> (\<exists>n q. network_by_id s' (sr_network_id r) = Some n \<and> active n \<and>
       parse_prefix (n_cidr n) = Some q \<and> usable_host q g)"
    "\<forall>n\<in>set (s_networks s'). \<forall>q. active n \<and> parse_prefix (n_cidr n) = Some q \<longrightarrow> \<not> overlaps (masked q) t"
    unfolding nets by blast
  moreover from this(8) have "\<forall>n\<in>set (s_networks s'). \<forall>q. active n \<and> parse_prefix (n_cidr n) = Some q \<longrightarrow>
      addrs q \<inter> addrs t = {}"
    by (auto simp: overlaps_iff same)
  ultimately show ?thesis using usable_in_hosts by (intro exI [of _ t] exI [of _ g]) auto
qed

theorem static_routes_sound_witness: "\<exists>t. parse_prefix ''172.16.0.0/16'' = Some t \<and> masked t = t"
proof -
  let ?p = "(blank_policy 3 ''static_route'')\<lparr>p_static_route := Some sample_route\<rparr>"
  have "?p \<in> set (s_policies policy_site')" "p_kind ?p = PolicyStaticRoute" "p_static_route ?p = Some sample_route"
    by (simp_all add: policy_site'_def blank_policy_def)
  from static_routes_sound [OF policy_site_ok this] show ?thesis
    by (auto simp: sample_route_def)
qed

end
