(* ===== verification/SiteValidate.thy ===== *)
theory SiteValidate
  imports PolicyClaims "HOL-Library.Multiset"
begin

text \<open>
  The site validator (\<open>Site.Validate\<close> in \<open>internal/model/site.go\<close>) with the parts it
  calls: network addresses, DHCP pools, IPv6 policy, mesh links (\<open>mesh.go\<close>) and wireless
  uplinks (\<open>uplink.go\<close>). Pool arithmetic is on 64-bit words, as in the source.
\<close>

section \<open>Addresses and pools of one network\<close>

datatype cidr_error = NotIPv4Cidr string | PrefixTooShort string | SubnetAsGateway string | BroadcastAsGateway string

datatype dhcp_error =
    PoolStart
  | PoolLimit
  | LeaseTime string
  | PoolNetwork cidr_error
  | NoHosts nat
  | PoolTooLong
  | PoolHasGateway

datatype ipv6_error = BadMode string | BadAssignment

definition ipv6_validate :: "ipv6_config \<Rightarrow> ipv6_error option" where
  "ipv6_validate c =
     (if v6_mode c \<noteq> ''preserve'' \<and> v6_mode c \<noteq> ''prefix_delegation'' \<and> v6_mode c \<noteq> ''disabled''
      then Some (BadMode (v6_mode c))
      else if v6_len c < 48 \<or> v6_len c > 64 then Some BadAssignment else None)"

definition validate_network_cidr :: "string \<Rightarrow> cidr_error + prefix4" where
  "validate_network_cidr cidr =
     (case parse_prefix (trim_space cidr) of
        None \<Rightarrow> Inl (NotIPv4Cidr cidr)
      | Some p \<Rightarrow>
          if p_bits p < 8 then Inl (PrefixTooShort cidr)
          else if p_bits p \<le> 30 then
            (let last_offset = (push_bit (32 - p_bits p) 1 :: 64 word) - 1; offset = host_offset p
             in if offset = 0 then Inl (SubnetAsGateway cidr)
                else if offset = last_offset then Inl (BroadcastAsGateway cidr)
                else Inr p)
          else Inr p)"

text \<open>The lease pattern: a number without a leading zero and a unit, or the word infinite.\<close>

definition lease_ok :: "string \<Rightarrow> bool" where
  "lease_ok s \<longleftrightarrow>
     s = ''infinite'' \<or>
     (length s \<ge> 2 \<and> last s \<in> set ''smhdw'' \<and> list_all is_digit (butlast s) \<and> hd s \<noteq> CHR ''0'')"

definition dhcp_validate :: "dhcp_config \<Rightarrow> string \<Rightarrow> dhcp_error option" where
  "dhcp_validate d cidr =
     (if \<not> dhcp_enabled d then None
      else if dhcp_start d < 1 then Some PoolStart
      else if dhcp_limit d < 1 then Some PoolLimit
      else if \<not> lease_ok (trim_space (dhcp_lease d)) then Some (LeaseTime (dhcp_lease d))
      else case validate_network_cidr cidr of
             Inl e \<Rightarrow> Some (PoolNetwork e)
           | Inr p \<Rightarrow>
               if p_bits p > 30 then Some (NoHosts (p_bits p))
               else (let hosts = (push_bit (32 - p_bits p) 1 :: 64 word);
                         start = word_of_int (dhcp_start d);
                         last_lease = start + word_of_int (dhcp_limit d) - 1;
                         gateway = host_offset p
                     in if hosts - 1 \<le> last_lease then Some PoolTooLong
                        else if start \<le> gateway \<and> gateway \<le> last_lease then Some PoolHasGateway
                        else None))"

section \<open>Meshes and uplinks\<close>

definition meshIDMax :: nat where "meshIDMax = 32"
definition saeKeyMin :: nat where "saeKeyMin = 8"

datatype mesh_error = MeshNoId int | MeshLongId string | MeshShortKey string | MeshNoBand string

definition mesh_validate :: "mesh \<Rightarrow> mesh_error list" where
  "mesh_validate m =
     (let i = trim_space (m_mesh_id m)
      in (if i = [] then [MeshNoId (m_id m)] else if length i > meshIDMax then [MeshLongId i] else [])
         @ (if m_key m \<noteq> [] \<and> length (m_key m) < saeKeyMin then [MeshShortKey i] else [])
         @ (if \<not> band_valid (m_band m) then [MeshNoBand i] else []))"

definition mesh_open :: "mesh \<Rightarrow> bool" where
  "mesh_open m \<longleftrightarrow> m_key m = []"

datatype uplink_error =
    UplinkNoDevice
  | UplinkNoNetwork int
  | UplinkDisabled string
  | UplinkNotAccepted string
  | UplinkOwnNetwork string
  | UplinkWrongBand string string

definition uplink_validate :: "site \<Rightarrow> uplink \<Rightarrow> uplink_error list" where
  "uplink_validate s u =
     (if u_device_id u = 0 then [UplinkNoDevice] else [])
     @ (case wlan_by_id s (u_wlan_id u) of
          None \<Rightarrow> [UplinkNoNetwork (u_wlan_id u)]
        | Some w \<Rightarrow>
            (if \<not> w_enabled w then [UplinkDisabled (w_ssid w)] else [])
            @ (if \<not> opt_allow_uplink (w_options w) then [UplinkNotAccepted (w_ssid w)] else [])
            @ concat (map (\<lambda>g. if g_id g = w_group_id w \<and> group_contains g (u_device_id u)
                               then [UplinkOwnNetwork (w_ssid w)] else []) (s_groups s))
            @ (if \<not> publishes_on w (u_band u) then [UplinkWrongBand (w_ssid w) (u_band u)] else []))"

section \<open>The site\<close>

datatype network_error =
    VLANTwice int string string
  | NetworkIPv6 string ipv6_error
  | NetworkCIDR string cidr_error
  | LegacyDHCP string dhcp_error
  | NetworkDHCP string dhcp_error
  | SubnetsOverlap string string

datatype reference_error =
    NoSSID int
  | WLANUnknownNetwork string int
  | WLANUnknownGroup string int
  | WLANNoBands string
  | WLANNoKey string string
  | MeshUnknownNetwork string int
  | MeshUnknownGroup string int
  | MeshTwice string string

datatype site_error =
    NoUUID
  | ZoneErr zone_error
  | NetworkErr network_error
  | PolicyErr policy_error
  | ReferenceErr reference_error
  | MeshErr mesh_error
  | UplinkErr uplink_error

text \<open>
  One network: its errors besides a repeated VLAN, and, when it is active with a valid address,
  its masked prefix.
\<close>

definition one_network :: "network \<Rightarrow> network_error list \<times> (prefix4 \<times> string) list" where
  "one_network n =
     (if \<not> active n then ([], [])
      else case validate_network_cidr (n_cidr n) of
             Inl e \<Rightarrow> ([NetworkCIDR (n_name n) e], [])
           | Inr p \<Rightarrow>
               (case dhcp_validate (effective_dhcp n) (n_cidr n) of
                  None \<Rightarrow> []
                | Some e \<Rightarrow> [if n_legacy_dhcp n then LegacyDHCP (n_name n) e else NetworkDHCP (n_name n) e],
                [(masked p, n_name n)]))"

fun network_errors :: "(int \<times> string) list \<Rightarrow> network list \<Rightarrow> network_error list" where
  "network_errors seen [] = []"
| "network_errors seen (n # ns) =
     (case map_of seen (n_vlan n) of None \<Rightarrow> [] | Some prev \<Rightarrow> [VLANTwice (n_vlan n) prev (n_name n)])
     @ (case ipv6_validate (effective_ipv6 n) of None \<Rightarrow> [] | Some e \<Rightarrow> [NetworkIPv6 (n_name n) e])
     @ fst (one_network n)
     @ network_errors ((n_vlan n, n_name n) # seen) ns"

definition routed_subnets :: "network list \<Rightarrow> (prefix4 \<times> string) list" where
  "routed_subnets ns = concat (map (\<lambda>n. snd (one_network n)) ns)"

definition overlap_error :: "prefix4 \<times> string \<Rightarrow> prefix4 \<times> string \<Rightarrow> network_error list" where
  "overlap_error a b =
     (if contains (fst a) (p_addr (fst b)) \<or> contains (fst b) (p_addr (fst a))
      then [SubnetsOverlap (snd a) (snd b)] else [])"

definition overlap_errors :: "(prefix4 \<times> string) list \<Rightarrow> network_error list" where
  "overlap_errors routed =
     all_pairs overlap_error (sort_key (\<lambda>r. (unat (p_addr (fst r)), p_bits (fst r), snd r)) routed)"

definition wlan_errors :: "site \<Rightarrow> wlan \<Rightarrow> reference_error list" where
  "wlan_errors s w =
     (if trim_space (w_ssid w) = [] then [NoSSID (w_id w)] else [])
     @ (if network_by_id s (w_network_id w) = None then [WLANUnknownNetwork (w_ssid w) (w_network_id w)] else [])
     @ (if group_by_id s (w_group_id w) = None then [WLANUnknownGroup (w_ssid w) (w_group_id w)] else [])
     @ (if w_bands w = [] then [WLANNoBands (w_ssid w)] else [])
     @ (if needs_key (sec_mode (w_security w)) \<and> sec_key (w_security w) = []
        then [WLANNoKey (w_ssid w) (sec_mode (w_security w))] else [])"

definition mesh_errors :: "site \<Rightarrow> mesh \<Rightarrow> site_error list" where
  "mesh_errors s m =
     map MeshErr (mesh_validate m)
     @ (if network_by_id s (m_network_id m) = None
        then [ReferenceErr (MeshUnknownNetwork (m_mesh_id m) (m_network_id m))] else [])
     @ (if group_by_id s (m_group_id m) = None
        then [ReferenceErr (MeshUnknownGroup (m_mesh_id m) (m_group_id m))] else [])"

definition mesh_key :: "mesh \<Rightarrow> string" where
  "mesh_key m = to_lower (trim_space (m_mesh_id m)) @ ''/'' @ m_band m"

fun mesh_twice_errors :: "string list \<Rightarrow> mesh list \<Rightarrow> reference_error list" where
  "mesh_twice_errors seen [] = []"
| "mesh_twice_errors seen (m # ms) =
     (if mesh_key m \<in> set seen then [MeshTwice (m_mesh_id m) (m_band m)] else [])
     @ mesh_twice_errors (mesh_key m # seen) ms"

definition validate_site :: "site \<Rightarrow> site_error list \<times> site" where
  "validate_site s =
     (let (pol_errs, s') = validate_policies s
      in ((if trim_space (s_uuid s) = [] then [NoUUID] else [])
          @ map ZoneErr (validate_zone_names s)
          @ map NetworkErr (network_errors [] (s_networks s))
          @ map NetworkErr (overlap_errors (routed_subnets (s_networks s)))
          @ map ZoneErr (validate_zone_policies s)
          @ map PolicyErr pol_errs
          @ map ReferenceErr (concat (map (wlan_errors s) (s_wlans s)))
          @ concat (map (mesh_errors s) (s_meshes s))
          @ map UplinkErr (concat (map (uplink_validate s) (filter u_enabled (s_uplinks s))))
          @ map ReferenceErr (mesh_twice_errors [] (s_meshes s)), s'))"

section \<open>DHCP pools\<close>

lemma valid_cidr_wf: "validate_network_cidr cidr = Inr p \<Longrightarrow> p_bits p \<le> 32 \<and> 8 \<le> p_bits p"
  using parse_prefix_wf [of "trim_space cidr" p]
  by (auto simp: validate_network_cidr_def wf_prefix_def Let_def split: option.splits if_splits)

lemma valid_cidr_host:
  assumes "validate_network_cidr cidr = Inr p" and "p_bits p \<le> 30"
  shows "p_addr p \<in> hosts p"
proof -
  have b: "unat (push_bit (32 - p_bits p) 1 - 1 :: 64 word) = block p - 1"
    using unat_64_shift [of "32 - p_bits p"]
    by (subst unat_minus_one) (auto simp: block_def unat_eq_zero [symmetric])
  have "host_offset p \<noteq> 0" "host_offset p \<noteq> push_bit (32 - p_bits p) 1 - 1"
    using assms by (auto simp: validate_network_cidr_def Let_def split: option.splits if_splits)
  then have "unat (p_addr p) mod block p \<noteq> 0" "unat (p_addr p) mod block p \<noteq> block p - 1"
    using b by (auto simp: word_unat_eq_iff unat_host_offset)
  with host_addr [of p] self_in [of p] show ?thesis
    by (auto simp: hosts_def word_unat_eq_iff unat_host_offset)
qed

lemma dhcp_word_bounds:
  assumes "go_int (dhcp_start d)" and "go_int (dhcp_limit d)" and "1 \<le> dhcp_start d" and "1 \<le> dhcp_limit d"
  shows "unat (word_of_int (dhcp_start d) :: 64 word) = nat (dhcp_start d)"
    and "unat (word_of_int (dhcp_start d) + word_of_int (dhcp_limit d) - 1 :: 64 word) =
      nat (dhcp_start d + dhcp_limit d - 1)"
proof -
  have u: "unat (word_of_int i :: 64 word) = nat i" if "0 \<le> i" "i < 2 ^ 64" for i
    using that by (simp add: unsigned_of_int take_bit_int_eq_self)
  show "unat (word_of_int (dhcp_start d) :: 64 word) = nat (dhcp_start d)"
    using assms by (intro u) (auto simp: go_int_def)
  have "(word_of_int (dhcp_start d) + word_of_int (dhcp_limit d) - 1 :: 64 word) =
      word_of_int (dhcp_start d + dhcp_limit d - 1)" by simp
  also have "unat \<dots> = nat (dhcp_start d + dhcp_limit d - 1)"
    using assms by (intro u) (auto simp: go_int_def)
  finally show "unat (word_of_int (dhcp_start d) + word_of_int (dhcp_limit d) - 1 :: 64 word) =
      nat (dhcp_start d + dhcp_limit d - 1)" .
qed

text \<open>The word arithmetic of the validator in integers: no intermediate value wraps.\<close>

lemma dhcp_validate_iff:
  assumes "go_int (dhcp_start d)" and "go_int (dhcp_limit d)" and "dhcp_enabled d"
    and "lease_ok (trim_space (dhcp_lease d))" and "validate_network_cidr cidr = Inr p"
  shows "dhcp_validate d cidr = None \<longleftrightarrow>
    1 \<le> dhcp_start d \<and> 1 \<le> dhcp_limit d \<and> p_bits p \<le> 30 \<and>
    dhcp_start d + dhcp_limit d - 1 < int (block p) - 1 \<and>
    \<not> (dhcp_start d \<le> int (unat (host_offset p)) \<and>
       int (unat (host_offset p)) \<le> dhcp_start d + dhcp_limit d - 1)"
proof (cases "1 \<le> dhcp_start d \<and> 1 \<le> dhcp_limit d \<and> p_bits p \<le> 30")
  case True
  then have pos: "1 \<le> dhcp_start d" "1 \<le> dhcp_limit d" "p_bits p \<le> 30" by auto
  note w = dhcp_word_bounds [OF assms(1,2) pos(1,2)]
  have b: "unat (push_bit (32 - p_bits p) 1 - 1 :: 64 word) = block p - 1"
    using unat_64_shift [of "32 - p_bits p"]
    by (subst unat_minus_one) (auto simp: block_def unat_eq_zero [symmetric])
  have "dhcp_validate d cidr = None \<longleftrightarrow> \<not> block p - 1 \<le> nat (dhcp_start d + dhcp_limit d - 1) \<and>
      \<not> (nat (dhcp_start d) \<le> unat (host_offset p) \<and>
         unat (host_offset p) \<le> nat (dhcp_start d + dhcp_limit d - 1))"
    using assms(3-5) pos unfolding word_le_nat_alt [symmetric] w [symmetric] b [symmetric]
    by (simp add: dhcp_validate_def Let_def)
  moreover have "1 \<le> block p" by (simp add: Suc_leI)
  then have "(\<not> block p - 1 \<le> nat (dhcp_start d + dhcp_limit d - 1) \<and>
      \<not> (nat (dhcp_start d) \<le> g \<and> g \<le> nat (dhcp_start d + dhcp_limit d - 1))) \<longleftrightarrow>
    (dhcp_start d + dhcp_limit d - 1 < int (block p) - 1 \<and>
      \<not> (dhcp_start d \<le> int g \<and> int g \<le> dhcp_start d + dhcp_limit d - 1))" for g
    using pos by linarith
  ultimately show ?thesis using pos by blast
next
  case False
  with assms(3-5) show ?thesis by (auto simp: dhcp_validate_def)
qed

text \<open>
  C35. On a network with a valid address, the validator accepts an enabled DHCP pool with a lease
  time it accepts exactly when start and limit are at least one, the subnet has host addresses, and
  every offset from start up to start plus limit is a host address of the subnet other than the
  gateway's. This holds for all 64-bit values of start and limit: the unsigned arithmetic never
  wraps into a pool that leaves the subnet.
\<close>

theorem dhcp_pool_exact:
  assumes "go_int (dhcp_start d)" and "go_int (dhcp_limit d)" and "dhcp_enabled d"
    and "lease_ok (trim_space (dhcp_lease d))" and "validate_network_cidr cidr = Inr p"
  shows "dhcp_validate d cidr = None \<longleftrightarrow>
    1 \<le> dhcp_start d \<and> 1 \<le> dhcp_limit d \<and> p_bits p \<le> 30 \<and>
    (\<forall>i. dhcp_start d \<le> i \<and> i < dhcp_start d + dhcp_limit d \<longrightarrow>
       (\<exists>a\<in>hosts p. a \<noteq> p_addr p \<and> int (unat a) = int (unat (p_addr (masked p))) + i))"
    (is "?ok \<longleftrightarrow> ?spec")
proof
  let ?base = "unat (p_addr (masked p))"
  assume ?ok
  then have r: "1 \<le> dhcp_start d" "1 \<le> dhcp_limit d" "p_bits p \<le> 30"
    "dhcp_start d + dhcp_limit d - 1 < int (block p) - 1"
    "\<not> (dhcp_start d \<le> int (unat (host_offset p)) \<and>
        int (unat (host_offset p)) \<le> dhcp_start d + dhcp_limit d - 1)"
    using dhcp_validate_iff [OF assms] by blast+
  have "\<exists>a\<in>hosts p. a \<noteq> p_addr p \<and> int (unat a) = int ?base + i"
    if i: "dhcp_start d \<le> i" "i < dhcp_start d + dhcp_limit d" for i
  proof -
    have lt: "nat i < block p" using i r by linarith
    obtain a where a: "unat a = ?base + nat i" "a \<in> addrs p"
      by (rule addr_at_offset [OF _ lt]) (use r(3) in auto)
    have "a \<in> hosts p" using a i r lt by (auto simp: hosts_def)
    moreover have "a \<noteq> p_addr p"
    proof
      assume "a = p_addr p"
      with a(1) host_addr [of p] have "int (unat (host_offset p)) = i" using i r by simp
      with i r(5) show False by simp
    qed
    moreover have "int (unat a) = int ?base + i" using a(1) i r(1) by simp
    ultimately show ?thesis by blast
  qed
  with r show ?spec by blast
next
  let ?base = "unat (p_addr (masked p))"
  assume spec: ?spec
  then have r: "1 \<le> dhcp_start d" "1 \<le> dhcp_limit d" "p_bits p \<le> 30" by auto
  have at: "\<exists>a\<in>hosts p. a \<noteq> p_addr p \<and> int (unat a) = int ?base + i"
    if "dhcp_start d \<le> i" "i < dhcp_start d + dhcp_limit d" for i
    using spec that by blast
  obtain z where z: "z \<in> hosts p" "int (unat z) = int ?base + (dhcp_start d + dhcp_limit d - 1)"
    using at [of "dhcp_start d + dhcp_limit d - 1"] r(2) by auto
  then have "unat z < ?base + block p" "unat z \<noteq> ?base + block p - 1"
    by (auto simp: hosts_def addrs_def contains_interval)
  with z(2) have "dhcp_start d + dhcp_limit d - 1 < int (block p) - 1" by linarith
  moreover have "\<not> (dhcp_start d \<le> int (unat (host_offset p)) \<and>
      int (unat (host_offset p)) \<le> dhcp_start d + dhcp_limit d - 1)"
  proof
    assume "dhcp_start d \<le> int (unat (host_offset p)) \<and>
      int (unat (host_offset p)) \<le> dhcp_start d + dhcp_limit d - 1"
    with at [of "int (unat (host_offset p))"] obtain a where a: "a \<noteq> p_addr p"
      "int (unat a) = int ?base + int (unat (host_offset p))" by auto
    then have "unat a = unat (p_addr p)" using host_addr [of p] by linarith
    with a(1) show False by (simp add: word_unat_eq_iff)
  qed
  ultimately show ?ok using dhcp_validate_iff [OF assms] r by blast
qed

theorem dhcp_pool_exact_witness:
  "\<exists>a\<in>hosts \<lparr>p_addr = 0x0A001401, p_bits = 24\<rparr>. int (unat a) = int (unat (0x0A001400 :: ipv4)) + 100"
proof -
  let ?p = "\<lparr>p_addr = 0x0A001401, p_bits = 24\<rparr>"
  have f: "go_int (dhcp_start default_dhcp)" "go_int (dhcp_limit default_dhcp)" "dhcp_enabled default_dhcp"
    "lease_ok (trim_space (dhcp_lease default_dhcp))" "validate_network_cidr ''10.0.20.1/24'' = Inr ?p"
    "dhcp_validate default_dhcp ''10.0.20.1/24'' = None" "dhcp_start default_dhcp = 100"
    "dhcp_limit default_dhcp = 150" "p_addr (masked ?p) = 0x0A001400"
    by code_simp+
  have "1 \<le> dhcp_start default_dhcp \<and> 1 \<le> dhcp_limit default_dhcp \<and> p_bits ?p \<le> 30 \<and>
    (\<forall>i. dhcp_start default_dhcp \<le> i \<and> i < dhcp_start default_dhcp + dhcp_limit default_dhcp \<longrightarrow>
       (\<exists>a\<in>hosts ?p. a \<noteq> p_addr ?p \<and> int (unat a) = int (unat (p_addr (masked ?p))) + i))"
    using dhcp_pool_exact [OF f(1-5)] f(6) by blast
  then have "\<exists>a\<in>hosts ?p. int (unat a) = int (unat (p_addr (masked ?p))) + 100"
    using f(7,8) by auto
  then show ?thesis unfolding f(9) .
qed

section \<open>Networks of a validated site\<close>

lemma one_network_ok:
  "fst (one_network n) = [] \<Longrightarrow> active n \<Longrightarrow>
     (\<exists>p. validate_network_cidr (n_cidr n) = Inr p \<and> snd (one_network n) = [(masked p, n_name n)]) \<and>
     dhcp_validate (effective_dhcp n) (n_cidr n) = None"
  by (auto simp: one_network_def split: sum.splits option.splits if_splits)

lemma network_errors_ok:
  "network_errors seen ns = [] \<Longrightarrow>
     distinct (map n_vlan ns) \<and> fst ` set seen \<inter> set (map n_vlan ns) = {} \<and>
     (\<forall>n\<in>set ns. ipv6_validate (effective_ipv6 n) = None \<and> fst (one_network n) = [])"
proof (induction ns arbitrary: seen)
  case (Cons n ns)
  have r: "network_errors ((n_vlan n, n_name n) # seen) ns = []" "map_of seen (n_vlan n) = None"
    "ipv6_validate (effective_ipv6 n) = None" "fst (one_network n) = []"
    using Cons.prems by (auto split: option.splits)
  from Cons.IH [OF r(1)] r(2-4) show ?case
    by (auto simp: map_of_eq_None_iff)
qed simp

text \<open>A symmetric relation between all pairs of a list does not depend on its order.\<close>

lemma all_pairs_sorted_wrt: "all_pairs f xs = [] \<longleftrightarrow> sorted_wrt (\<lambda>x y. f x y = []) xs"
  by (induction xs) auto

lemma sorted_wrt_mset:
  assumes "symp R"
  shows "sorted_wrt R xs \<longleftrightarrow> (\<forall>a b. {#a, b#} \<subseteq># mset xs \<longrightarrow> R a b)"
proof (induction xs)
  case (Cons x xs)
  show ?case
  proof
    assume s: "sorted_wrt R (x # xs)"
    show "\<forall>a b. {#a, b#} \<subseteq># mset (x # xs) \<longrightarrow> R a b"
    proof (intro allI impI)
      fix a b assume sub: "{#a, b#} \<subseteq># mset (x # xs)"
      consider "a = x" "b \<in> set xs" | "b = x" "a \<in> set xs" | "{#a, b#} \<subseteq># mset xs"
        using sub by (cases "a = x"; cases "b = x")
          (auto simp: insert_subset_eq_iff add_mset_commute split: if_splits)
      then show "R a b"
      proof cases
        case 3 with s Cons.IH show ?thesis by simp
      qed (use s assms in \<open>auto dest: sympD\<close>)
    qed
  next
    assume all: "\<forall>a b. {#a, b#} \<subseteq># mset (x # xs) \<longrightarrow> R a b"
    then have "R x y" if "y \<in> set xs" for y using that by auto
    moreover have "R a b" if "{#a, b#} \<subseteq># mset xs" for a b
      using all subset_mset.order_trans [OF that, of "mset (x # xs)"] by simp
    ultimately show "sorted_wrt R (x # xs)" using Cons.IH by simp
  qed
qed simp

lemma all_pairs_mset:
  assumes "all_pairs f xs = []" and "\<And>x y. f x y = [] \<Longrightarrow> f y x = []" and "mset xs = mset ys"
  shows "all_pairs f ys = []"
proof -
  have "symp (\<lambda>x y. f x y = [])" using assms(2) by (rule sympI)
  note perm = sorted_wrt_mset [OF this]
  show ?thesis using assms(1) unfolding all_pairs_sorted_wrt perm assms(3) .
qed

lemma overlap_errors_apart:
  assumes "overlap_errors (as @ a # bs @ b # cs) = []"
  shows "overlap_error a b = []"
proof -
  have "all_pairs overlap_error (as @ a # bs @ b # cs) = []"
    by (rule all_pairs_mset [OF assms [unfolded overlap_errors_def]]) (auto simp: overlap_error_def split: if_splits)
  then show ?thesis by (simp add: all_pairs_sorted_wrt sorted_wrt_append)
qed

lemma split_nth2:
  assumes "i < j" and "j < length xs"
  obtains as bs cs where "xs = as @ xs ! i # bs @ xs ! j # cs"
proof -
  have "xs = take i xs @ xs ! i # drop (Suc i) xs" using assms by (simp add: id_take_nth_drop)
  moreover have "drop (Suc i) xs = take (j - Suc i) (drop (Suc i) xs) @ xs ! j # drop (Suc j) xs"
    using assms id_take_nth_drop [of "j - Suc i" "drop (Suc i) xs"] by simp
  ultimately show thesis using that by metis
qed

lemma valid_cidr_parse:
  "validate_network_cidr cidr = Inr p \<Longrightarrow> parse_prefix (trim_space cidr) = Some p"
  by (auto simp: validate_network_cidr_def Let_def split: option.splits if_splits)

text \<open>
  C33. The networks of a validated site cannot collide: no two networks share a VLAN; the address
  of every active one reads as a prefix of at least eight bits that, when the subnet has a network
  and a broadcast address (up to thirty bits), is a host address of it; and the subnets of two
  active networks have no address in common. (The LAN of VLAN 0 or 1 is not active: its address is
  the device's own and is compared with nothing.)
\<close>

theorem validated_networks_disjoint:
  assumes "validate_site s = ([], s')"
  shows "distinct (map n_vlan (s_networks s)) \<and>
    (\<forall>n\<in>set (s_networks s). active n \<longrightarrow>
       (\<exists>p. parse_prefix (trim_space (n_cidr n)) = Some p \<and> 8 \<le> p_bits p \<and>
          (p_bits p \<le> 30 \<longrightarrow> p_addr p \<in> hosts p))) \<and>
    (\<forall>i j p q. i < j \<and> j < length (s_networks s) \<and> active (s_networks s ! i) \<and> active (s_networks s ! j) \<and>
       parse_prefix (trim_space (n_cidr (s_networks s ! i))) = Some p \<and>
       parse_prefix (trim_space (n_cidr (s_networks s ! j))) = Some q \<longrightarrow> addrs p \<inter> addrs q = {})"
proof -
  let ?routed = "routed_subnets (s_networks s)"
  have net: "network_errors [] (s_networks s) = []" and ov: "overlap_errors ?routed = []"
    using assms(1) by (auto simp: validate_site_def Let_def split: prod.splits)
  note ok = network_errors_ok [OF net]
  have one: "fst (one_network n) = []" if "n \<in> set (s_networks s)" for n
    using ok that by blast
  have own: "\<exists>p. parse_prefix (trim_space (n_cidr n)) = Some p \<and> 8 \<le> p_bits p \<and> (p_bits p \<le> 30 \<longrightarrow> p_addr p \<in> hosts p)"
    if "n \<in> set (s_networks s)" "active n" for n
    using one_network_ok [OF one [OF that(1)] that(2)] valid_cidr_wf valid_cidr_host valid_cidr_parse by blast
  have apart: "addrs p \<inter> addrs q = {}"
    if ij: "i < j" "j < length (s_networks s)" and act: "active (s_networks s ! i)" "active (s_networks s ! j)"
      and pq: "parse_prefix (trim_space (n_cidr (s_networks s ! i))) = Some p"
        "parse_prefix (trim_space (n_cidr (s_networks s ! j))) = Some q" for i j p q
  proof -
    let ?a = "s_networks s ! i" and ?b = "s_networks s ! j"
    have "?a \<in> set (s_networks s)" "?b \<in> set (s_networks s)" using ij by auto
    then obtain p' q' where v: "validate_network_cidr (n_cidr ?a) = Inr p'" "validate_network_cidr (n_cidr ?b) = Inr q'"
      and r: "snd (one_network ?a) = [(masked p', n_name ?a)]" "snd (one_network ?b) = [(masked q', n_name ?b)]"
      using one_network_ok one act by metis
    with pq valid_cidr_parse have [simp]: "p' = p" "q' = q" by fastforce+
    obtain xs ys zs where "s_networks s = xs @ ?a # ys @ ?b # zs" by (rule split_nth2 [OF ij])
    from arg_cong [OF this, of routed_subnets]
    have "?routed = routed_subnets xs @ (masked p, n_name ?a) # routed_subnets ys @ (masked q, n_name ?b) # routed_subnets zs"
      by (simp add: routed_subnets_def r)
    with ov overlap_errors_apart have "overlap_error (masked p, n_name ?a) (masked q, n_name ?b) = []" by metis
    then have "\<not> contains p (p_addr (masked q)) \<and> \<not> contains q (p_addr (masked p))"
      by (simp add: overlap_error_def split: if_splits)
    with overlap_iff_member [of p q] show ?thesis by blast
  qed
  have "distinct (map n_vlan (s_networks s))" using ok by (rule conjunct1)
  then show ?thesis
  proof (intro conjI ballI allI impI; (elim conjE)?)
    show "\<exists>p. parse_prefix (trim_space (n_cidr n)) = Some p \<and> 8 \<le> p_bits p \<and> (p_bits p \<le> 30 \<longrightarrow> p_addr p \<in> hosts p)"
      if "n \<in> set (s_networks s)" "active n" for n by (rule own [OF that])
  qed (assumption | rule apart; assumption)+
qed

text \<open>A complete site that validates: the policy site with a mesh and a wireless uplink.\<close>

definition whole_site :: site where
  "whole_site = policy_site'\<lparr>
     s_meshes := [\<lparr>m_id = 1, m_mesh_id = ''backhaul'', m_network_id = 1, m_group_id = 1, m_band = ''5g'',
                   m_key = ''long enough'', m_enabled = True\<rparr>],
     s_uplinks := [\<lparr>u_id = 1, u_device_id = 5, u_wlan_id = 7, u_band = ''5g'', u_enabled = True\<rparr>]\<rparr>"

text \<open>The site validates part by part; its two networks are evaluated one at a time.\<close>

lemma whole_cidrs:
  "validate_network_cidr ''10.0.20.1/24'' = Inr \<lparr>p_addr = 0x0A001401, p_bits = 24\<rparr>"
  "validate_network_cidr ''10.0.30.1/24'' = Inr \<lparr>p_addr = 0x0A001E01, p_bits = 24\<rparr>"
  "dhcp_validate default_dhcp ''10.0.20.1/24'' = None"
  "dhcp_validate default_dhcp ''10.0.30.1/24'' = None"
  "masked \<lparr>p_addr = 0x0A001401, p_bits = 24\<rparr> = \<lparr>p_addr = 0x0A001400, p_bits = 24\<rparr>"
  "masked \<lparr>p_addr = 0x0A001E01, p_bits = 24\<rparr> = \<lparr>p_addr = 0x0A001E00, p_bits = 24\<rparr>"
  by code_simp+

lemma whole_networks:
  "s_networks whole_site = [sample_net 1 ''iot'' 20 ''10.0.20.1/24'', sample_net 2 ''guest'' 30 ''10.0.30.1/24'']"
  "one_network (sample_net 1 ''iot'' 20 ''10.0.20.1/24'') = ([], [(\<lparr>p_addr = 0x0A001400, p_bits = 24\<rparr>, ''iot'')])"
  "one_network (sample_net 2 ''guest'' 30 ''10.0.30.1/24'') = ([], [(\<lparr>p_addr = 0x0A001E00, p_bits = 24\<rparr>, ''guest'')])"
  by (simp_all add: whole_site_def policy_site'_def policy_site_def sample_site_def one_network_def sample_net_def
      active_def effective_dhcp_def whole_cidrs)

lemma whole_network_errors: "network_errors [] (s_networks whole_site) = []"
proof -
  have "ipv6_validate (effective_ipv6 (sample_net i n v c)) = None" for i n v c
    by (simp add: effective_ipv6_def sample_net_def ipv6_validate_def default_ipv6_def)
  then show ?thesis unfolding whole_networks(1) by (simp add: whole_networks(2,3)) (simp add: sample_net_def)
qed

lemma whole_overlap_errors: "overlap_errors (routed_subnets (s_networks whole_site)) = []"
  unfolding whole_networks(1) routed_subnets_def list.map whole_networks(2,3) by code_simp

lemma whole_parts:
  "validate_policies whole_site = ([], whole_site)"
  "validate_zone_names whole_site = []"
  "validate_zone_policies whole_site = []"
  "concat (map (wlan_errors whole_site) (s_wlans whole_site)) = []"
  "concat (map (mesh_errors whole_site) (s_meshes whole_site)) = []"
  "concat (map (uplink_validate whole_site) (filter u_enabled (s_uplinks whole_site))) = []"
  "mesh_twice_errors [] (s_meshes whole_site) = []"
  "trim_space (s_uuid whole_site) = ''u-1''"
  by code_simp+

lemma whole_site_ok: "validate_site whole_site = ([], whole_site)"
  unfolding validate_site_def whole_parts whole_network_errors whole_overlap_errors by simp

theorem validated_networks_disjoint_witness:
  "addrs \<lparr>p_addr = 0x0A001401, p_bits = 24\<rparr> \<inter> addrs \<lparr>p_addr = 0x0A001E01, p_bits = 24\<rparr> = {}"
proof -
  have "active (sample_net i n v c) \<longleftrightarrow> 1 < v" "n_cidr (sample_net i n v c) = c" for i n v c
    by (simp_all add: active_def sample_net_def)
  moreover have "parse_prefix (trim_space ''10.0.20.1/24'') = Some \<lparr>p_addr = 0x0A001401, p_bits = 24\<rparr>"
    "parse_prefix (trim_space ''10.0.30.1/24'') = Some \<lparr>p_addr = 0x0A001E01, p_bits = 24\<rparr>"
    using whole_cidrs(1,2) valid_cidr_parse by blast+
  ultimately show ?thesis
    using conjunct2 [OF conjunct2 [OF validated_networks_disjoint [OF whole_site_ok]],
      THEN spec [of _ 0], THEN spec [of _ "Suc 0"], THEN spec, THEN spec, THEN mp,
      of "\<lparr>p_addr = 0x0A001401, p_bits = 24\<rparr>" "\<lparr>p_addr = 0x0A001E01, p_bits = 24\<rparr>"]
    unfolding whole_networks(1) by simp
qed

section \<open>References and uplinks of a validated site\<close>

lemma validate_site_parts:
  assumes "validate_site s = ([], s')"
  shows "w \<in> set (s_wlans s) \<Longrightarrow> wlan_errors s w = []"
    and "m \<in> set (s_meshes s) \<Longrightarrow> mesh_errors s m = []"
    and "u \<in> set (s_uplinks s) \<Longrightarrow> u_enabled u \<Longrightarrow> uplink_validate s u = []"
    and "validate_policies s = ([], s')"
    and "validate_zone_names s = []" and "validate_zone_policies s = []"
    and "mesh_twice_errors [] (s_meshes s) = []"
  using assms by (auto simp: validate_site_def Let_def split: prod.splits)

lemma mesh_twice_distinct:
  "mesh_twice_errors seen ms = [] \<Longrightarrow> distinct (map mesh_key ms) \<and> set seen \<inter> mesh_key ` set ms = {}"
  by (induction seen ms rule: mesh_twice_errors.induct) (auto split: if_splits)

text \<open>
  Everything a validated site refers to exists: each WLAN names a network and an AP group of
  the site, selects a band, and carries a key when its security mode needs one; each mesh names a
  network, a group and a band, its key is absent or long enough for SAE, and no two meshes share
  an identifier on one band, up to letter case and surrounding white space.
\<close>

theorem validated_references_resolve:
  assumes "validate_site s = ([], s')"
  shows "(\<forall>w\<in>set (s_wlans s). network_by_id s (w_network_id w) \<noteq> None \<and> group_by_id s (w_group_id w) \<noteq> None \<and>
      w_bands w \<noteq> [] \<and> (needs_key (sec_mode (w_security w)) \<longrightarrow> sec_key (w_security w) \<noteq> [])) \<and>
    (\<forall>m\<in>set (s_meshes s). network_by_id s (m_network_id m) \<noteq> None \<and> group_by_id s (m_group_id m) \<noteq> None \<and>
      band_valid (m_band m) \<and> (mesh_open m \<or> 8 \<le> length (m_key m)) \<and> length (trim_space (m_mesh_id m)) \<in> {1..32}) \<and>
    distinct (map mesh_key (s_meshes s))"
proof -
  note parts = validate_site_parts [OF assms]
  have "network_by_id s (w_network_id w) \<noteq> None \<and> group_by_id s (w_group_id w) \<noteq> None \<and>
      w_bands w \<noteq> [] \<and> (needs_key (sec_mode (w_security w)) \<longrightarrow> sec_key (w_security w) \<noteq> [])"
    if "w \<in> set (s_wlans s)" for w
    using parts(1) [OF that] by (auto simp: wlan_errors_def split: if_splits)
  moreover have "network_by_id s (m_network_id m) \<noteq> None \<and> group_by_id s (m_group_id m) \<noteq> None \<and>
      band_valid (m_band m) \<and> (mesh_open m \<or> 8 \<le> length (m_key m)) \<and> length (trim_space (m_mesh_id m)) \<in> {1..32}"
    if "m \<in> set (s_meshes s)" for m
    using parts(2) [OF that]
    by (auto simp: mesh_errors_def mesh_validate_def mesh_open_def meshIDMax_def saeKeyMin_def Let_def Suc_le_eq
        split: if_splits)
  moreover have "distinct (map mesh_key (s_meshes s))" using mesh_twice_distinct parts(7) by blast
  ultimately show ?thesis by blast
qed

theorem validated_references_resolve_witness: "network_by_id whole_site (w_network_id sample_wlan) \<noteq> None"
proof -
  have "sample_wlan \<in> set (s_wlans whole_site)"
    by (simp add: whole_site_def policy_site'_def policy_site_def sample_site_def)
  with validated_references_resolve [OF whole_site_ok] show ?thesis by blast
qed

text \<open>
  C34. A device of a validated site never joins a network it publishes itself: the WLAN its
  wireless uplink names exists, is enabled, accepts bridges and is on the air on the uplink's
  band, and is not among the WLANs the device carries.
\<close>

theorem uplink_never_own_network:
  assumes "validate_site s = ([], s')" and "uplink_for s d = Some u"
  shows "\<exists>w. wlan_by_id s (u_wlan_id u) = Some w \<and> w_enabled w \<and> opt_allow_uplink (w_options w) \<and>
    publishes_on w (u_band u) \<and> w \<notin> set (wlans_for s d)"
proof -
  have u: "u \<in> set (s_uplinks s)" "u_device_id u = d" "u_enabled u"
    using find_Some_in [OF assms(2) [unfolded uplink_for_def]] by auto
  note e = validate_site_parts(3) [OF assms(1) u(1,3)]
  then obtain w where w: "wlan_by_id s (u_wlan_id u) = Some w" "w_enabled w" "opt_allow_uplink (w_options w)"
    "publishes_on w (u_band u)"
    by (auto simp: uplink_validate_def split: option.splits if_splits)
  have "concat (map (\<lambda>g. if g_id g = w_group_id w \<and> group_contains g (u_device_id u)
      then [UplinkOwnNetwork (w_ssid w)] else []) (s_groups s)) = []"
    using e w(1) by (simp add: uplink_validate_def)
  then have "\<forall>g\<in>set (s_groups s). \<not> (g_id g = w_group_id w \<and> group_contains g d)"
    unfolding if_errors_Nil u(2) .
  then have "w \<notin> set (wlans_for s d)"
    by (auto simp: wlans_for_def group_by_id_def split: option.splits dest: find_Some_in)
  with w show ?thesis by blast
qed

theorem uplink_never_own_network_witness: "sample_wlan \<notin> set (wlans_for whole_site 5)"
proof -
  have "uplink_for whole_site 5 = Some (hd (s_uplinks whole_site))" "wlan_by_id whole_site 7 = Some sample_wlan"
    "u_wlan_id (hd (s_uplinks whole_site)) = 7"
    by code_simp+
  with uplink_never_own_network [OF whole_site_ok this(1)] show ?thesis by simp
qed

end
