(* ===== verification/Overrides.thy ===== *)
theory Overrides
  imports SiteModel
begin

text \<open>
  Per-device overrides of a WLAN (\<open>internal/model/override.go\<close>): the storage path of an
  override and its parser, and how a device's overrides fold into the WLAN it renders. The set of a
  site maps a device to its list of overrides.
\<close>

definition OverrideDisabled :: string where [simp]: "OverrideDisabled = ''disabled''"
definition OverrideHidden :: string where [simp]: "OverrideHidden = ''hidden''"
definition OverrideIsolate :: string where [simp]: "OverrideIsolate = ''isolate''"
definition OverrideMaxAssoc :: string where [simp]: "OverrideMaxAssoc = ''max_assoc''"

definition override_key_valid :: "string \<Rightarrow> bool" where
  "override_key_valid k \<longleftrightarrow>
     k = OverrideDisabled \<or> k = OverrideHidden \<or> k = OverrideIsolate \<or> k = OverrideMaxAssoc"

definition override_path :: "override \<Rightarrow> string" where
  "override_path ov = ''wlan.'' @ itoa (ov_wlan_id ov) @ ''.'' @ ov_key ov"

datatype path_error = NotAWLANPath string | NoWLANId string | NotOverridable string

definition parse_override_path :: "string \<Rightarrow> path_error + int \<times> string" where
  "parse_override_path path =
     (case split_on (CHR ''.'') path of
        [a, b, k] \<Rightarrow>
          if a \<noteq> ''wlan'' then Inl (NotAWLANPath path)
          else (case atoi b of
                  None \<Rightarrow> Inl (NoWLANId path)
                | Some i \<Rightarrow>
                    if i \<le> 0 then Inl (NoWLANId path)
                    else if \<not> override_key_valid k then Inl (NotOverridable k)
                    else Inr (i, k))
      | _ \<Rightarrow> Inl (NotAWLANPath path))"

definition override_bool :: "override \<Rightarrow> bool" where
  "override_bool ov \<longleftrightarrow> ov_value ov = ''1'' \<or> to_lower (ov_value ov) = ''true''"

definition override_int :: "override \<Rightarrow> int option" where
  "override_int ov =
     (case atoi (trim_space (ov_value ov)) of
        None \<Rightarrow> None
      | Some n \<Rightarrow> if n < 0 then None else Some n)"

text \<open>
  \<open>Overrides.For\<close>. The source sorts by key with an unstable sort; the store keeps one row per
  device, WLAN and key, so no two keys are equal and the order is determined.
\<close>

definition overrides_for :: "(int \<times> override list) list \<Rightarrow> int \<Rightarrow> int \<Rightarrow> override list" where
  "overrides_for ovs dev wid =
     sort_key ov_key
       (filter (\<lambda>ov. ov_wlan_id ov = wid) (case map_of ovs dev of None \<Rightarrow> [] | Some l \<Rightarrow> l))"

definition deviates :: "(int \<times> override list) list \<Rightarrow> int \<Rightarrow> bool" where
  "deviates ovs dev \<longleftrightarrow> (case map_of ovs dev of None \<Rightarrow> [] | Some l \<Rightarrow> l) \<noteq> []"

fun apply_one :: "override \<Rightarrow> wlan \<times> bool \<Rightarrow> wlan \<times> bool" where
  "apply_one ov (w, published) =
     (if ov_key ov = OverrideDisabled then (w, \<not> override_bool ov)
      else if ov_key ov = OverrideHidden then
        (w\<lparr>w_options := (w_options w)\<lparr>opt_hidden := override_bool ov\<rparr>\<rparr>, published)
      else if ov_key ov = OverrideIsolate then
        (w\<lparr>w_options := (w_options w)\<lparr>opt_isolate := override_bool ov\<rparr>\<rparr>, published)
      else if ov_key ov = OverrideMaxAssoc then
        (case override_int ov of
           Some n \<Rightarrow> (w\<lparr>w_options := (w_options w)\<lparr>opt_max_assoc := n\<rparr>\<rparr>, published)
         | None \<Rightarrow> (w, published))
      else (w, published))"

definition apply_overrides :: "(int \<times> override list) list \<Rightarrow> int \<Rightarrow> wlan \<Rightarrow> wlan \<times> bool" where
  "apply_overrides ovs dev w = fold apply_one (overrides_for ovs dev (w_id w)) (w, w_enabled w)"

section \<open>Facts\<close>

text \<open>What every AP of a site must have in common: the fields no override may touch.\<close>

definition shared_part ::
  "wlan \<Rightarrow> int \<times> string \<times> int \<times> int \<times> string list \<times> security \<times> roaming \<times> bool" where
  "shared_part w = (w_id w, w_ssid w, w_network_id w, w_group_id w, w_bands w, w_security w,
     w_roaming w, w_enabled w)"

lemma apply_one_shared:
  "shared_part (fst (apply_one ov wp)) = shared_part (fst wp) \<and>
   opt_allow_uplink (w_options (fst (apply_one ov wp))) = opt_allow_uplink (w_options (fst wp))"
  by (cases wp) (auto simp: shared_part_def split: option.splits)

lemma fold_apply_one_shared:
  "shared_part (fst (fold apply_one l wp)) = shared_part (fst wp) \<and>
   opt_allow_uplink (w_options (fst (fold apply_one l wp))) = opt_allow_uplink (w_options (fst wp))"
  by (induction l arbitrary: wp) (simp_all add: apply_one_shared)

lemma key_no_dot: "override_key_valid k \<Longrightarrow> CHR ''.'' \<notin> set k"
  by (auto simp: override_key_valid_def)

definition storable :: "int \<times> string \<Rightarrow> bool" where
  "storable ik \<longleftrightarrow> 0 < fst ik \<and> go_int (fst ik) \<and> override_key_valid (snd ik)"

definition path_of :: "int \<times> string \<Rightarrow> string" where
  "path_of ik =
     override_path \<lparr>ov_device_id = 0, ov_wlan_id = fst ik, ov_key = snd ik, ov_value = []\<rparr>"

lemma parse_path_of: "storable ik \<Longrightarrow> parse_override_path (path_of ik) = Inr ik"
proof -
  assume ok: "storable ik"
  obtain i k where ik: "ik = (i, k)" by (cases ik)
  have split: "split_on (CHR ''.'') (path_of ik) = [''wlan'', itoa i, k]"
    using ok split_on_append [of "CHR ''.''" "''wlan''"] split_on_append [of "CHR ''.''" "itoa i"]
    by (simp add: path_of_def override_path_def ik itoa_no_dot key_no_dot storable_def split_on_none)
  have "atoi (itoa i) = Some i"
    using ok by (intro atoi_itoa) (auto simp: ik storable_def go_int_def)
  with ok split show ?thesis
    by (simp add: parse_override_path_def ik storable_def)
qed

interpretation override_paths: print_parse path_of
  "\<lambda>s. case parse_override_path s of Inl _ \<Rightarrow> None | Inr ik \<Rightarrow> Some ik" storable
  by unfold_locales (simp add: parse_path_of)

lemma fold_apply_one_published:
  assumes "distinct (map ov_key l)"
  shows "snd (fold apply_one l (w, b)) =
    (case find (\<lambda>ov. ov_key ov = OverrideDisabled) l of None \<Rightarrow> b | Some ov \<Rightarrow> \<not> override_bool ov)"
  using assms
proof (induction l arbitrary: w b)
  case Nil
  then show ?case by simp
next
  case (Cons ov l)
  obtain w' b' where one: "apply_one ov (w, b) = (w', b')" by (meson surj_pair)
  show ?case
  proof (cases "ov_key ov = OverrideDisabled")
    case True
    then have "find (\<lambda>ov. ov_key ov = OverrideDisabled) l = None"
      using Cons.prems by (force simp: find_None_all)
    with True Cons show ?thesis by simp
  next
    case False
    then have "b' = b" using one by (auto split: if_splits option.splits)
    with False one Cons show ?thesis by simp
  qed
qed

section \<open>Properties\<close>

text \<open>
  Whatever overrides a device carries, folding them into a WLAN never changes its id, SSID,
  network, AP group, bands, security, roaming settings, site-level enablement or uplink policy:
  the settings that must be identical on every access point.
\<close>

theorem overrides_keep_shared_settings:
  "shared_part (fst (apply_overrides ovs dev w)) = shared_part w \<and>
   opt_allow_uplink (w_options (fst (apply_overrides ovs dev w))) = opt_allow_uplink (w_options w)"
  using fold_apply_one_shared [of "overrides_for ovs dev (w_id w)" "(w, w_enabled w)"]
  by (simp add: apply_overrides_def)

text \<open>
  C39. The storage path of an override reads back as its WLAN id and key, for every positive id
  and every overridable key, so distinct overrides of a device have distinct paths.
\<close>

theorem override_path_roundtrip:
  assumes "0 < ov_wlan_id ov" and "go_int (ov_wlan_id ov)" and "override_key_valid (ov_key ov)"
  shows "parse_override_path (override_path ov) = Inr (ov_wlan_id ov, ov_key ov)"
  using parse_path_of [of "(ov_wlan_id ov, ov_key ov)"] assms
  by (simp add: storable_def path_of_def override_path_def)

theorem override_path_roundtrip_witness:
  "parse_override_path ''wlan.12.hidden'' = Inr (12, ''hidden'')"
proof -
  let ?ov = "\<lparr>ov_device_id = 3, ov_wlan_id = 12, ov_key = ''hidden'', ov_value = ''1''\<rparr>"
  have "override_path ?ov = ''wlan.12.hidden''" by code_simp
  moreover have "parse_override_path (override_path ?ov) = Inr (ov_wlan_id ?ov, ov_key ?ov)"
    by (rule override_path_roundtrip) (simp_all add: go_int_def override_key_valid_def)
  ultimately show ?thesis by simp
qed

text \<open>
  A stored override of the key \<open>disabled\<close> whose value is malformed does not fail closed:
  a WLAN that the site model disables is published on that device.
\<close>

theorem malformed_disabled_override_publishes:
  assumes "ov_value ov \<noteq> ''1''" and "to_lower (ov_value ov) \<noteq> ''true''"
    and "ov_key ov = OverrideDisabled" and "ov_wlan_id ov = w_id w" and "\<not> w_enabled w"
  shows "snd (apply_overrides [(dev, [ov])] dev w)"
  using assms by (simp add: apply_overrides_def overrides_for_def override_bool_def)

theorem malformed_disabled_override_publishes_witness:
  "snd (apply_overrides [(1, [\<lparr>ov_device_id = 1, ov_wlan_id = 7, ov_key = ''disabled'', ov_value = ''yes''\<rparr>])] 1
     \<lparr>w_id = 7, w_ssid = ''guest'', w_network_id = 1, w_group_id = 1, w_bands = [''2g''],
      w_security = \<lparr>sec_mode = ''psk2'', sec_key = ''k'', sec_pmf = ''0''\<rparr>,
      w_roaming = \<lparr>r_ft = False, r_ft_over_ds = False, r_kv = False, r_ft_with_psk2 = False\<rparr>,
      w_options = \<lparr>opt_hidden = False, opt_isolate = False, opt_max_assoc = 0, opt_allow_uplink = False\<rparr>,
      w_enabled = False\<rparr>)"
  by (rule malformed_disabled_override_publishes) (simp_all add: to_lower_def)

end
