(* ===== verification/ApplyPlan.thy ===== *)
theory ApplyPlan
  imports GoText
begin

text \<open>
  Plans of the apply engine (\<open>internal/applyengine/plan.go\<close> and the pure part of
  \<open>engine.go\<close>): operations, the configs and the management path a plan touches, the rollback
  window, and the ubus invocation each operation is staged as. Durations are nanoseconds, as
  unbounded integers; the source counts them in 64 bits, enough for a timeout of 292 years.
\<close>

section \<open>Operations and plans\<close>

definition OpAdd :: string where [simp]: "OpAdd = ''add''"
definition OpSet :: string where [simp]: "OpSet = ''set''"
definition OpDelete :: string where [simp]: "OpDelete = ''delete''"

definition OwnershipTag :: string where [simp]: "OwnershipTag = ''oonfeewrt''"

record op =
  op_kind :: string
  op_config :: string
  op_section :: string
  op_type :: string
  op_name :: string
  op_values :: "string gomap"
  op_lists :: "string list gomap"
  op_option :: string
  op_patch :: bool

record plan =
  pl_ops :: "op list"
  pl_timeout :: int
  pl_ack :: bool

definition seconds :: "int \<Rightarrow> int" where
  "seconds n = n * 1000000000"

definition DefaultTimeout :: int where "DefaultTimeout = seconds 90"
definition DefaultRevertGrace :: int where "DefaultRevertGrace = seconds 15"

definition min_apply_budget :: int where
  "min_apply_budget = DefaultTimeout + DefaultRevertGrace"

definition plan_timeout :: "plan \<Rightarrow> int" where
  "plan_timeout p = (if pl_timeout p \<le> 0 then DefaultTimeout else pl_timeout p)"

definition plan_configs :: "plan \<Rightarrow> string list" where
  "plan_configs p = nub (map op_config (pl_ops p))"

text \<open>Conversion of a positive duration by \<open>int(d.Seconds())\<close> truncates.\<close>

definition whole_seconds :: "int \<Rightarrow> int" where
  "whole_seconds d = d div seconds 1"

section \<open>The management path\<close>

definition UplinkSectionPrefix :: string where "UplinkSectionPrefix = ''oowrt_up''"

definition is_uplink_section :: "string \<Rightarrow> string \<Rightarrow> bool" where
  "is_uplink_section config section \<longleftrightarrow>
     config = ''wireless'' \<and> has_prefix section UplinkSectionPrefix"

definition touches_management_path :: "plan \<Rightarrow> bool" where
  "touches_management_path p =
     list_ex (\<lambda>op. op_config op = ''network'' \<or> op_config op = ''firewall'' \<or>
       is_uplink_section (op_config op) (op_section op)) (pl_ops p)"

section \<open>Staged invocations\<close>

datatype uci_value = VStr string | VList "string list"

record invocation =
  inv_method :: string
  inv_config :: string
  inv_section :: "string option"
  inv_type :: "string option"
  inv_name :: "string option"
  inv_values :: "uci_value gomap option"
  inv_option :: "string option"

definition with_lists :: "string gomap \<Rightarrow> string list gomap \<Rightarrow> uci_value gomap" where
  "with_lists vals ls =
     fold (\<lambda>(k, v). put k (VList v)) ls (map (\<lambda>(k, v). (k, VStr v)) vals)"

definition with_ownership :: "string gomap \<Rightarrow> string gomap" where
  "with_ownership v = put OwnershipTag ''1'' v"

datatype stage_error =
    PatchCannotAdd
  | PatchNotOptionOnly
  | PatchOnDelete
  | UnknownKind string

definition op_invocation :: "op \<Rightarrow> stage_error + invocation" where
  "op_invocation op =
     (let base = \<lparr>inv_method = op_kind op, inv_config = op_config op, inv_section = None,
                  inv_type = None, inv_name = None, inv_values = None, inv_option = None\<rparr>
      in if op_kind op = OpAdd then
           if op_patch op then Inl PatchCannotAdd
           else Inr (base\<lparr>inv_type := Some (op_type op),
                          inv_name := (if op_name op \<noteq> [] then Some (op_name op) else None),
                          inv_values := Some (with_lists (with_ownership (op_values op)) (op_lists op))\<rparr>)
         else if op_kind op = OpSet then
           if op_patch op \<and> (op_section op = [] \<or> op_type op \<noteq> [] \<or> op_name op \<noteq> [] \<or>
                op_values op = [] \<or> op_lists op \<noteq> [] \<or> has_key (op_values op) OwnershipTag)
           then Inl PatchNotOptionOnly
           else Inr (base\<lparr>inv_section := Some (op_section op),
                          inv_values := Some (with_lists
                            (if op_patch op then op_values op else with_ownership (op_values op)) (op_lists op))\<rparr>)
         else if op_kind op = OpDelete then
           if op_patch op then Inl PatchOnDelete
           else Inr (base\<lparr>inv_section := Some (op_section op),
                          inv_option := (if op_option op \<noteq> [] then Some (op_option op) else None)\<rparr>)
         else Inl (UnknownKind (op_kind op)))"

fun build_invocations :: "op list \<Rightarrow> stage_error + invocation list" where
  "build_invocations [] = Inr []"
| "build_invocations (op # ops) =
     (case op_invocation op of
        Inl e \<Rightarrow> Inl e
      | Inr call \<Rightarrow> (case build_invocations ops of Inl e \<Rightarrow> Inl e | Inr calls \<Rightarrow> Inr (call # calls)))"

section \<open>Options a plan writes\<close>

text \<open>
  The option writes the snapshot and the revert check walk over: config, section, option and value
  of every value of every add or set, in order. Deletes, empty value maps and operations that name
  no section are passed over.
\<close>

definition op_checks :: "op \<Rightarrow> (string \<times> string \<times> string \<times> string) list" where
  "op_checks op =
     (if op_kind op = OpDelete \<or> op_values op = [] then []
      else let section = (if op_section op = [] then op_name op else op_section op)
      in if section = [] then []
         else map (\<lambda>(k, v). (op_config op, section, k, v)) (op_values op))"

definition plan_checks :: "plan \<Rightarrow> (string \<times> string \<times> string \<times> string) list" where
  "plan_checks p = concat (map op_checks (pl_ops p))"

section \<open>Facts\<close>

lemma plan_timeout_pos: "0 < plan_timeout p"
  by (simp add: plan_timeout_def DefaultTimeout_def seconds_def)

lemma plan_configs_set: "set (plan_configs p) = op_config ` set (pl_ops p)"
  by (simp add: plan_configs_def)

lemma plan_configs_distinct: "distinct (plan_configs p)"
  by (simp add: plan_configs_def)

lemma op_invocation_config: "op_invocation op = Inr call \<Longrightarrow> inv_config call = op_config op"
  by (auto simp: op_invocation_def Let_def split: if_splits)

lemma build_invocations_Inr:
  "build_invocations ops = Inr calls \<longleftrightarrow> list_all2 (\<lambda>op call. op_invocation op = Inr call) ops calls"
proof (induction ops arbitrary: calls)
  case (Cons op ops)
  show ?case
  proof (cases "op_invocation op"; cases "build_invocations ops")
    fix call rest
    assume "op_invocation op = Inr call" and rest: "build_invocations ops = Inr rest"
    moreover have "list_all2 (\<lambda>op call. op_invocation op = Inr call) ops cs \<longleftrightarrow> cs = rest" for cs
      using Cons.IH [of cs] rest by auto
    ultimately show ?thesis by (auto simp: list_all2_Cons1)
  qed (use Cons.IH in \<open>auto simp: list_all2_Cons1\<close>)
qed auto

lemma build_invocations_configs:
  "build_invocations ops = Inr calls \<Longrightarrow> map inv_config calls = map op_config ops"
  unfolding build_invocations_Inr
  by (induction rule: list_all2_induct) (auto dest: op_invocation_config)

lemma map_of_with_lists:
  "map_of (with_lists vals ls) k =
     (case map_of (rev ls) k of
        Some v \<Rightarrow> Some (VList v)
      | None \<Rightarrow> map_option VStr (map_of vals k))"
proof -
  have base: "map_of (map (\<lambda>(k, v). (k, VStr v)) vals) k = map_option VStr (map_of vals k)"
    by (induction vals) auto
  have "map_of (fold (\<lambda>(k, v). put k (VList v)) ls m) k =
      (case map_of (rev ls) k of Some v \<Rightarrow> Some (VList v) | None \<Rightarrow> map_of m k)" for ls m
    by (induction ls arbitrary: m)
      (auto simp: map_add_def split: option.splits)
  then show ?thesis by (simp add: with_lists_def base split: option.split)
qed

lemma with_ownership_tag: "map_of (with_ownership v) OwnershipTag = Some ''1''"
  by (simp add: with_ownership_def)

lemma map_of_with_ownership: "k \<noteq> OwnershipTag \<Longrightarrow> map_of (with_ownership v) k = map_of v k"
  by (simp add: with_ownership_def)

section \<open>Properties\<close>

text \<open>
  C11. If a plan stages, then every operation became one invocation on its own config, in order;
  an add or a set that is not a patch carries the ownership tag with value 1, and a patch never
  carries it. Lists may not use the tag as their key, which no rendered section does.
\<close>

theorem staged_ownership:
  assumes "build_invocations ops = Inr calls"
    and "\<forall>op\<in>set ops. OwnershipTag \<notin> fst ` set (op_lists op)"
  shows "list_all2 (\<lambda>op call. inv_config call = op_config op \<and> inv_method call = op_kind op \<and>
      (case inv_values call of
         None \<Rightarrow> op_kind op = OpDelete
       | Some vs \<Rightarrow> map_of vs OwnershipTag = (if op_patch op then None else Some (VStr ''1'')))) ops calls"
proof -
  have notag: "map_of (rev (op_lists op)) OwnershipTag = None" if "op \<in> set ops" for op
    using assms(2) that by (force simp: map_of_eq_None_iff)
  have "list_all2 (\<lambda>op call. op_invocation op = Inr call) ops calls"
    using assms(1) by (simp add: build_invocations_Inr)
  then show ?thesis
  proof (rule list.rel_mono_strong)
    fix op call
    assume "op \<in> set ops" and call: "op_invocation op = Inr call"
    note tag = notag [OF this(1)]
    show "inv_config call = op_config op \<and> inv_method call = op_kind op \<and>
      (case inv_values call of
         None \<Rightarrow> op_kind op = OpDelete
       | Some vs \<Rightarrow> map_of vs OwnershipTag = (if op_patch op then None else Some (VStr ''1'')))"
      using call tag with_ownership_tag
      by (auto simp: op_invocation_def Let_def map_of_with_lists has_key_def split: if_splits)
  qed
qed

theorem staged_ownership_witness:
  "let ops = [\<lparr>op_kind = OpSet, op_config = ''network'', op_section = ''oowrt_iot'', op_type = [], op_name = [],
                op_values = [(''proto'', ''static'')], op_lists = [(''dns'', [''10.0.20.1''])], op_option = [],
                op_patch = False\<rparr>]
   in case build_invocations ops of
        Inl _ \<Rightarrow> False
      | Inr calls \<Rightarrow> map (\<lambda>c. map_option (\<lambda>vs. map_of vs OwnershipTag) (inv_values c)) calls = [Some (Some (VStr ''1''))]"
proof -
  let ?op = "\<lparr>op_kind = OpSet, op_config = ''network'', op_section = ''oowrt_iot'', op_type = [], op_name = [],
      op_values = [(''proto'', ''static'')], op_lists = [(''dns'', [''10.0.20.1''])], op_option = [],
      op_patch = False\<rparr>"
  have tag: "\<forall>op\<in>set [?op]. OwnershipTag \<notin> fst ` set (op_lists op)" by simp
  obtain call where call: "build_invocations [?op] = Inr [call]" and vals: "inv_values call \<noteq> None"
    by (simp add: op_invocation_def Let_def)
  from staged_ownership [OF call tag] call vals show ?thesis
    by (auto split: option.splits)
qed

end
