(* ===== verification/UciDoc.thy ===== *)
theory UciDoc
  imports ApplyPlan
begin

text \<open>
  Rendered documents and device snapshots (the types of \<open>internal/render/render.go\<close>) and the
  operations that turn the difference into a plan (\<open>internal/render/plan.go\<close>). A section of
  the device is the flattened map \<open>reconcile.flatten\<close> makes of it: list options joined with
  spaces, their names under \<open>ListsKey\<close>.
\<close>

section \<open>Documents\<close>

definition ListsKey :: string where "ListsKey = ''.oowrt_lists''"

record uci_section =
  sc_config :: string
  sc_type :: string
  sc_name :: string
  sc_values :: "string gomap"
  sc_lists :: "string list gomap"
  sc_manages :: "string list"

record patch =
  pt_config :: string
  pt_section :: string
  pt_values :: "string gomap"
  pt_deletes :: "string list"

type_synonym sec_ref = "string \<times> string"

record doc =
  d_device :: int
  d_sections :: "uci_section list"
  d_patches :: "patch list"
  d_retain :: "sec_ref list"
  d_blind :: "string list"

definition section_ref :: "uci_section \<Rightarrow> sec_ref" where
  "section_ref s = (sc_config s, sc_name s)"

definition patch_ref :: "patch \<Rightarrow> sec_ref" where
  "patch_ref p = (pt_config p, pt_section p)"

text \<open>\<open>Doc.Validate\<close>: the first section whose reference was seen before.\<close>

fun duplicate_section :: "sec_ref list \<Rightarrow> uci_section list \<Rightarrow> sec_ref option" where
  "duplicate_section seen [] = None"
| "duplicate_section seen (s # ss) =
     (if section_ref s \<in> set seen then Some (section_ref s)
      else duplicate_section (section_ref s # seen) ss)"

definition doc_validate :: "doc \<Rightarrow> sec_ref option" where
  "doc_validate d = duplicate_section [] (d_sections d)"

definition retained :: "doc \<Rightarrow> string \<Rightarrow> string \<Rightarrow> bool" where
  "retained d config name = list_ex (\<lambda>r. fst r = config \<and> snd r = name) (d_retain d)"

definition blind :: "doc \<Rightarrow> string \<Rightarrow> bool" where
  "blind d config = list_ex (\<lambda>c. c = config) (d_blind d)"

definition doc_configs :: "doc \<Rightarrow> string list" where
  "doc_configs d = sort (nub (map sc_config (d_sections d) @ map pt_config (d_patches d)))"

section \<open>Reports\<close>

record omission =
  om_wlan :: string
  om_reason :: string
  om_kind :: string

definition KindUnclassified :: string where "KindUnclassified = []"
definition KindCaution :: string where "KindCaution = ''caution''"
definition KindUndetermined :: string where "KindUndetermined = ''undetermined''"

record conflict =
  cf_config :: string
  cf_section :: string
  cf_reason :: string

record warning =
  wn_wlan :: string
  wn_defect :: string
  wn_summary :: string
  wn_detail :: string
  wn_confidence :: string
  wn_severity :: string
  wn_mitigation :: string
  wn_source :: string

record report =
  rp_omissions :: "omission list"
  rp_conflicts :: "conflict list"
  rp_warnings :: "warning list"

definition has_conflicts :: "report \<Rightarrow> bool" where
  "has_conflicts r \<longleftrightarrow> rp_conflicts r \<noteq> []"

text \<open>One warning per defect and WLAN.\<close>

definition add_warning :: "warning \<Rightarrow> report \<Rightarrow> report" where
  "add_warning w r =
     (if list_ex (\<lambda>e. wn_defect e = wn_defect w \<and> wn_wlan e = wn_wlan w) (rp_warnings r) then r
      else r\<lparr>rp_warnings := rp_warnings r @ [w]\<rparr>)"

section \<open>Device snapshots\<close>

type_synonym device_section = "string gomap"
type_synonym device_config = "device_section gomap"

record existing =
  ex_configs :: "device_config gomap"

definition in_config :: "existing \<Rightarrow> string \<Rightarrow> device_config" where
  "in_config ex config = (case map_of (ex_configs ex) config of Some c \<Rightarrow> c | None \<Rightarrow> [])"

definition wifi_ifaces :: "existing \<Rightarrow> device_config" where
  "wifi_ifaces ex = filter (\<lambda>e. get_str (snd e) ''.type'' = ''wifi-iface'') (in_config ex ''wireless'')"

definition wireless_only :: "device_config \<Rightarrow> existing" where
  "wireless_only ifaces = \<lparr>ex_configs = [(''wireless'', ifaces)]\<rparr>"

text \<open>Indexing a missing section reads an empty map, so a missing section is not owned.\<close>

definition section_values :: "existing \<Rightarrow> string \<Rightarrow> string \<Rightarrow> device_section" where
  "section_values ex config name =
     (case map_of (in_config ex config) name of Some m \<Rightarrow> m | None \<Rightarrow> [])"

definition owned_in :: "existing \<Rightarrow> string \<Rightarrow> string \<Rightarrow> bool" where
  "owned_in ex config name \<longleftrightarrow> get_str (section_values ex config name) OwnershipTag = ''1''"

text \<open>Whether the device holds an option as a list, and whether that is known.\<close>

definition stored_as_list :: "device_section \<Rightarrow> string \<Rightarrow> bool \<times> bool" where
  "stored_as_list current option =
     (case map_of current ListsKey of
        None \<Rightarrow> (False, False)
      | Some raw \<Rightarrow> (option \<in> set (GoText.fields raw), True))"

section \<open>The plan of a document\<close>

definition sorted_keys :: "'v gomap \<Rightarrow> string list" where
  "sorted_keys m = sort (keys m)"

definition sorted_sections :: "uci_section list \<Rightarrow> uci_section list" where
  "sorted_sections ss = sort_key section_ref ss"

definition sorted_patches :: "patch list \<Rightarrow> patch list" where
  "sorted_patches ps = sort_key patch_ref ps"

definition forbidden_patch_option :: "string \<Rightarrow> bool" where
  "forbidden_patch_option option \<longleftrightarrow> option = OwnershipTag \<or> option = ''.type'' \<or> option = ''.name''"

definition managed_but_unwritten :: "uci_section \<Rightarrow> device_section \<Rightarrow> string list" where
  "managed_but_unwritten s current =
     sort (filter (\<lambda>k. \<not> has_key (sc_values s) k \<and> \<not> has_key (sc_lists s) k \<and> has_key current k) (sc_manages s))"

definition wrong_shape :: "device_section \<Rightarrow> string \<Rightarrow> bool" where
  "wrong_shape current k \<longleftrightarrow> (let (is_list, known) = stored_as_list current k in known \<and> \<not> is_list)"

definition matches :: "uci_section \<Rightarrow> device_section \<Rightarrow> bool" where
  "matches s current \<longleftrightarrow>
     list_all (\<lambda>(k, v). get_str current k = v) (sc_values s) \<and>
     managed_but_unwritten s current = [] \<and>
     list_all (\<lambda>(k, v). get_str current k = join '' '' v \<and> \<not> wrong_shape current k) (sc_lists s)"

definition blank_op :: "string \<Rightarrow> string \<Rightarrow> string \<Rightarrow> op" where
  "blank_op kind config section =
     \<lparr>op_kind = kind, op_config = config, op_section = section, op_type = [], op_name = [],
      op_values = [], op_lists = [], op_option = [], op_patch = False\<rparr>"

definition write_op :: "string \<Rightarrow> uci_section \<Rightarrow> op" where
  "write_op kind s = (blank_op kind (sc_config s) (sc_name s))\<lparr>op_type := sc_type s,
     op_name := sc_name s, op_values := sc_values s, op_lists := sc_lists s\<rparr>"

definition delete_option_op :: "string \<Rightarrow> string \<Rightarrow> string \<Rightarrow> op" where
  "delete_option_op config section k = (blank_op OpDelete config section)\<lparr>op_option := k\<rparr>"

definition section_ops :: "existing \<Rightarrow> uci_section \<Rightarrow> op list" where
  "section_ops ex s =
     (case map_of (in_config ex (sc_config s)) (sc_name s) of
        None \<Rightarrow> [write_op OpAdd s]
      | Some current \<Rightarrow>
          if matches s current then []
          else map (delete_option_op (sc_config s) (sc_name s))
                 (filter (\<lambda>k. has_key current k \<and> wrong_shape current k) (sorted_keys (sc_lists s)))
               @ map (delete_option_op (sc_config s) (sc_name s)) (managed_but_unwritten s current)
               @ [write_op OpSet s])"

definition patch_ops :: "existing \<Rightarrow> patch \<Rightarrow> op list" where
  "patch_ops ex p =
     (case map_of (in_config ex (pt_config p)) (pt_section p) of
        None \<Rightarrow> []
      | Some current \<Rightarrow>
          (let changed = filter (\<lambda>(k, v). \<not> (forbidden_patch_option k \<or> get_str current k = v)) (pt_values p)
           in map (delete_option_op (pt_config p) (pt_section p))
                (filter (\<lambda>k. \<not> forbidden_patch_option k \<and> has_key current k) (sort (pt_deletes p)))
              @ (if changed \<noteq> []
                 then [(blank_op OpSet (pt_config p) (pt_section p))\<lparr>op_values := changed, op_patch := True\<rparr>]
                 else [])))"

definition doc_plan :: "doc \<Rightarrow> existing \<Rightarrow> plan" where
  "doc_plan d ex =
     \<lparr>pl_ops = concat (map (section_ops ex) (sorted_sections (d_sections d)))
               @ concat (map (patch_ops ex) (sorted_patches (d_patches d))),
      pl_timeout = 0, pl_ack = False\<rparr>"

section \<open>Pruning\<close>

definition stale_sections :: "doc \<Rightarrow> existing \<Rightarrow> sec_ref list" where
  "stale_sections d ex =
     concat (map (\<lambda>(config, sections).
       if blind d config then []
       else map (Pair config) (filter (\<lambda>name.
              \<not> ((config, name) \<in> set (map section_ref (d_sections d)) \<or> \<not> owned_in ex config name)
              \<and> \<not> retained d config name) (keys sections))) (ex_configs ex))"

definition prune :: "doc \<Rightarrow> existing \<Rightarrow> op list" where
  "prune d ex = map (\<lambda>(config, name). blank_op OpDelete config name) (sort (stale_sections d ex))"

definition preserved :: "doc \<Rightarrow> existing \<Rightarrow> string \<Rightarrow> string \<Rightarrow> bool" where
  "preserved d ex config name \<longleftrightarrow>
     (if list_ex (\<lambda>s. sc_config s = config \<and> sc_name s = name) (d_sections d) then False
      else if \<not> owned_in ex config name then False
      else blind d config \<or> retained d config name)"

section \<open>Fingerprints\<close>

text \<open>The text \<open>Section.Hash\<close> feeds to SHA-256; the digest itself is a parameter.\<close>

definition nul :: string where "nul = [CHR 0x00]"

definition section_text :: "uci_section \<Rightarrow> string" where
  "section_text s =
     sc_config s @ nul @ sc_type s @ nul @ sc_name s @ nul
     @ concat (map (\<lambda>k. k @ nul @ get_str (sc_values s) k @ nul) (sorted_keys (sc_values s)))
     @ concat (map (\<lambda>k. k @ nul @ join [CHR 0x1F] (case map_of (sc_lists s) k of Some v \<Rightarrow> v | None \<Rightarrow> []) @ nul)
                (sorted_keys (sc_lists s)))"

definition section_hash :: "(string \<Rightarrow> string) \<Rightarrow> uci_section \<Rightarrow> string" where
  "section_hash sha256_hex s = sha256_hex (section_text s)"

section \<open>Facts\<close>

lemma duplicate_section_None:
  "duplicate_section seen ss = None \<longleftrightarrow> distinct (map section_ref ss) \<and> set seen \<inter> section_ref ` set ss = {}"
  by (induction seen ss rule: duplicate_section.induct) auto

lemma doc_validate_None: "doc_validate d = None \<longleftrightarrow> distinct (map section_ref (d_sections d))"
  by (simp add: doc_validate_def duplicate_section_None)

lemma stored_as_list_known: "wrong_shape m k \<longleftrightarrow> (\<exists>raw. map_of m ListsKey = Some raw \<and> k \<notin> set (GoText.fields raw))"
  by (auto simp: wrong_shape_def stored_as_list_def split: option.splits)

lemma set_managed: "set (managed_but_unwritten s m) =
    {k \<in> set (sc_manages s). \<not> has_key (sc_values s) k \<and> \<not> has_key (sc_lists s) k \<and> has_key m k}"
  by (auto simp: managed_but_unwritten_def)

lemma managed_Nil: "managed_but_unwritten s m = [] \<longleftrightarrow>
    (\<forall>k\<in>set (sc_manages s). has_key m k \<longrightarrow> has_key (sc_values s) k \<or> has_key (sc_lists s) k)"
  by (auto simp: set_empty [symmetric] set_managed simp del: set_empty)

lemma set_sorted_keys [simp]: "set (sorted_keys m) = set (keys m)"
  by (simp add: sorted_keys_def)

lemmas [uci_simps] = blank_op_def write_op_def delete_option_op_def section_ref_def patch_ref_def

end
