(* ===== verification/ApplyEngine.thy ===== *)
theory ApplyEngine
  imports ApplyPlan
begin

text \<open>
  The apply engine (\<open>internal/applyengine/engine.go\<close>): preflight, stage, verify, apply, health,
  confirm, and the revert check. The device, its clock and the caller's context are code outside
  the repository: they are the fields of a \<open>router\<close> over a world \<open>'w\<close>, and every definition
  threads the world and a trace of the calls it made. The theorems hold for every router.
\<close>

section \<open>The router\<close>

datatype ubus_error = StatusErr int | OtherErr string

definition StatusNotFound :: int where [simp]: "StatusNotFound = 4"
definition StatusNoData :: int where [simp]: "StatusNoData = 5"
definition StatusPermissionDenied :: int where [simp]: "StatusPermissionDenied = 6"

record 'w router =
  rt_now :: "'w \<Rightarrow> int \<times> 'w"
  rt_ctx_ended :: "'w \<Rightarrow> bool \<times> 'w"
  rt_deadline :: "int option"
  rt_list :: "string \<Rightarrow> 'w \<Rightarrow> (ubus_error + (string \<times> int) list) \<times> 'w"
  rt_get :: "bool \<Rightarrow> string \<Rightarrow> string \<Rightarrow> string \<Rightarrow> 'w \<Rightarrow> (ubus_error + string) \<times> 'w"
  rt_batch :: "invocation list \<Rightarrow> 'w \<Rightarrow> (ubus_error + ubus_error option list) \<times> 'w"
  rt_changes :: "'w \<Rightarrow> (ubus_error + nat gomap) \<times> 'w"
  rt_revert :: "string \<Rightarrow> 'w \<Rightarrow> ubus_error option \<times> 'w"
  rt_apply :: "int \<Rightarrow> 'w \<Rightarrow> ubus_error option \<times> 'w"
  rt_confirm :: "'w \<Rightarrow> ubus_error option \<times> 'w"
  rt_fresh :: "'w \<Rightarrow> ubus_error option \<times> 'w"
  rt_wait :: "int \<Rightarrow> 'w \<Rightarrow> bool \<times> 'w"
  rt_window :: "bool \<Rightarrow> 'w \<Rightarrow> 'w"

text \<open>A health check reads the world and says what is wrong, if anything.\<close>

type_synonym 'w health = "'w \<Rightarrow> string option \<times> 'w"

text \<open>
  What the engine did, in order. \<open>EGet\<close> carries whether the session was the fresh one;
  \<open>EStage\<close>, \<open>ERevert\<close>, \<open>EApply\<close>, \<open>EConfirm\<close>, \<open>EHealth\<close> and \<open>EFresh\<close> whether the
  call succeeded; \<open>ENow\<close> the clock reading; \<open>EWait\<close> the duration, and whether the caller's
  context ended before it was over.
\<close>

datatype event =
    ENow int
  | EList
  | EGet bool string string string
  | EStage "invocation list" bool
  | EChanges
  | ERevert string bool
  | EWindow bool
  | EApply int bool
  | EHealth bool
  | EConfirm bool
  | EWait int bool
  | EFresh bool

record 'w st =
  wld :: 'w
  trc :: "event list"

definition emit :: "event \<Rightarrow> 'w \<Rightarrow> 'w st \<Rightarrow> 'w st" where
  "emit e w s = s\<lparr>wld := w, trc := trc s @ [e]\<rparr>"

definition do_now :: "'w router \<Rightarrow> 'w st \<Rightarrow> int \<times> 'w st" where
  "do_now rt s = (let (t, w) = rt_now rt (wld s) in (t, emit (ENow t) w s))"

definition do_list :: "'w router \<Rightarrow> 'w st \<Rightarrow> (ubus_error + (string \<times> int) list) \<times> 'w st" where
  "do_list rt s = (let (r, w) = rt_list rt ''/tmp/.uci'' (wld s) in (r, emit EList w s))"

definition do_get ::
  "'w router \<Rightarrow> bool \<Rightarrow> string \<Rightarrow> string \<Rightarrow> string \<Rightarrow> 'w st \<Rightarrow> (ubus_error + string) \<times> 'w st" where
  "do_get rt fresh c sec k s =
     (let (r, w) = rt_get rt fresh c sec k (wld s) in (r, emit (EGet fresh c sec k) w s))"

definition do_changes :: "'w router \<Rightarrow> 'w st \<Rightarrow> (ubus_error + nat gomap) \<times> 'w st" where
  "do_changes rt s = (let (r, w) = rt_changes rt (wld s) in (r, emit EChanges w s))"

definition do_revert :: "'w router \<Rightarrow> string \<Rightarrow> 'w st \<Rightarrow> ubus_error option \<times> 'w st" where
  "do_revert rt cfg s = (let (r, w) = rt_revert rt cfg (wld s) in (r, emit (ERevert cfg (r = None)) w s))"

definition do_window :: "'w router \<Rightarrow> bool \<Rightarrow> 'w st \<Rightarrow> 'w st" where
  "do_window rt b s = emit (EWindow b) (rt_window rt b (wld s)) s"

definition do_apply :: "'w router \<Rightarrow> int \<Rightarrow> 'w st \<Rightarrow> ubus_error option \<times> 'w st" where
  "do_apply rt secs s = (let (r, w) = rt_apply rt secs (wld s) in (r, emit (EApply secs (r = None)) w s))"

definition do_confirm :: "'w router \<Rightarrow> 'w st \<Rightarrow> ubus_error option \<times> 'w st" where
  "do_confirm rt s = (let (r, w) = rt_confirm rt (wld s) in (r, emit (EConfirm (r = None)) w s))"

definition do_wait :: "'w router \<Rightarrow> int \<Rightarrow> 'w st \<Rightarrow> bool \<times> 'w st" where
  "do_wait rt d s = (let (ended, w) = rt_wait rt d (wld s) in (ended, emit (EWait d ended) w s))"

definition do_fresh :: "'w router \<Rightarrow> 'w st \<Rightarrow> ubus_error option \<times> 'w st" where
  "do_fresh rt s = (let (r, w) = rt_fresh rt (wld s) in (r, emit (EFresh (r = None)) w s))"

definition do_ctx :: "'w router \<Rightarrow> 'w st \<Rightarrow> bool \<times> 'w st" where
  "do_ctx rt s = (let (b, w) = rt_ctx_ended rt (wld s) in (b, s\<lparr>wld := w\<rparr>))"

section \<open>Outcomes and errors\<close>

datatype outcome = Applied | Reverted | Unknown

datatype confirm_error = ConfirmRefused ubus_error | ContextDone | ConfirmCall ubus_error | WindowExpired

datatype cause = HealthFailed string | ConfirmNeverLanded confirm_error

datatype reason =
    NoReason
  | ConfirmLanded
  | WaitCancelled cause
  | NoVerifySession cause ubus_error
  | NothingReadable cause
  | CouldNotVerify cause ubus_error
  | StillPresent cause
  | DeviceReverted cause

record result =
  res_outcome :: "outcome option"
  res_reason :: reason
  res_health :: "string option"
  res_stranded :: bool
  res_started :: int
  res_finished :: int

definition blank_result :: "int \<Rightarrow> result" where
  "blank_result t = \<lparr>res_outcome = None, res_reason = NoReason, res_health = None,
     res_stranded = False, res_started = t, res_finished = 0\<rparr>"

datatype stage_failure = BuildFailed stage_error | BatchFailed ubus_error | OpFailed nat ubus_error

datatype budget_error = ContextEnded | InsufficientBudget int int

datatype apply_error =
    EmptyPlan
  | CannotCheckForeign ubus_error
  | DirtyError "string list"
  | TraversalNotAcknowledged
  | StageFailed stage_failure
  | VerifyStagedCall ubus_error
  | NothingStaged string
  | UnexpectedStaged string
  | BudgetRefused budget_error "(string \<times> ubus_error) list"
  | AlreadyArmed ubus_error
  | ApplyFailed ubus_error

record engine =
  en_confirm_interval :: int
  en_revert_grace :: int

section \<open>Preflight and snapshot\<close>

definition foreign_dirty_configs :: "'w router \<Rightarrow> 'w st \<Rightarrow> (ubus_error + string list) \<times> 'w st" where
  "foreign_dirty_configs rt s =
     (let (r, s1) = do_list rt s
      in case r of
           Inl e \<Rightarrow> if e = StatusErr StatusNotFound then (Inr [], s1) else (Inl e, s1)
         | Inr entries \<Rightarrow> (Inr (map fst (filter (\<lambda>e. snd e > 0) entries)), s1))"

definition preflight :: "'w router \<Rightarrow> plan \<Rightarrow> 'w st \<Rightarrow> apply_error option \<times> 'w st" where
  "preflight rt p s =
     (let (r, s1) = foreign_dirty_configs rt s
      in case r of
           Inl e \<Rightarrow> (Some (CannotCheckForeign e), s1)
         | Inr dirty \<Rightarrow>
             if dirty \<noteq> [] then (Some (DirtyError dirty), s1)
             else if touches_management_path p \<and> \<not> pl_ack p then (Some TraversalNotAcknowledged, s1)
             else (None, s1))"

type_synonym pre_apply = "((string \<times> string \<times> string) \<times> string \<times> bool) list"

fun snapshot_options ::
  "'w router \<Rightarrow> (string \<times> string \<times> string \<times> string) list \<Rightarrow> pre_apply \<Rightarrow> 'w st \<Rightarrow> pre_apply \<times> 'w st" where
  "snapshot_options rt [] out s = (out, s)"
| "snapshot_options rt ((c, sec, k, want) # cs) out s =
     (let (r, s1) = do_get rt False c sec k s
      in case r of
           Inr got \<Rightarrow> snapshot_options rt cs (((c, sec, k), got, True) # out) s1
         | Inl e \<Rightarrow>
             if e = StatusErr StatusNotFound \<or> e = StatusErr StatusNoData
             then snapshot_options rt cs (((c, sec, k), [], False) # out) s1
             else snapshot_options rt cs out s1)"

definition snapshot_planned :: "'w router \<Rightarrow> plan \<Rightarrow> 'w st \<Rightarrow> pre_apply \<times> 'w st" where
  "snapshot_planned rt p s = snapshot_options rt (plan_checks p) [] s"

section \<open>Staging\<close>

fun first_failure :: "nat \<Rightarrow> ubus_error option list \<Rightarrow> (nat \<times> ubus_error) option" where
  "first_failure i [] = None"
| "first_failure i (None # rs) = first_failure (Suc i) rs"
| "first_failure i (Some e # rs) = Some (i, e)"

definition stage :: "'w router \<Rightarrow> plan \<Rightarrow> 'w st \<Rightarrow> stage_failure option \<times> 'w st" where
  "stage rt p s =
     (case build_invocations (pl_ops p) of
        Inl e \<Rightarrow> (Some (BuildFailed e), s)
      | Inr calls \<Rightarrow>
          (let (r, w) = rt_batch rt calls (wld s);
               failure = (case r of
                            Inl e \<Rightarrow> Some (BatchFailed e)
                          | Inr rs \<Rightarrow> map_option (\<lambda>(i, e). OpFailed i e) (first_failure 0 rs))
           in (failure, emit (EStage calls (failure = None)) w s)))"

fun revert_configs ::
  "'w router \<Rightarrow> string list \<Rightarrow> 'w st \<Rightarrow> (string \<times> ubus_error) list \<times> 'w st" where
  "revert_configs rt [] s = ([], s)"
| "revert_configs rt (cfg # cfgs) s =
     (let (r, s1) = do_revert rt cfg s; (errs, s2) = revert_configs rt cfgs s1
      in (case r of None \<Rightarrow> errs | Some e \<Rightarrow> (cfg, e) # errs, s2))"

definition revert_staged :: "'w router \<Rightarrow> plan \<Rightarrow> 'w st \<Rightarrow> (string \<times> ubus_error) list \<times> 'w st" where
  "revert_staged rt p s = revert_configs rt (plan_configs p) s"

text \<open>\<open>discardStaged\<close> makes the same calls and drops their errors.\<close>

definition discard_staged :: "'w router \<Rightarrow> plan \<Rightarrow> 'w st \<Rightarrow> 'w st" where
  "discard_staged rt p s = snd (revert_configs rt (plan_configs p) s)"

definition verify_staged :: "'w router \<Rightarrow> plan \<Rightarrow> 'w st \<Rightarrow> apply_error option \<times> 'w st" where
  "verify_staged rt p s =
     (let (r, s1) = do_changes rt s
      in case r of
           Inl e \<Rightarrow> (Some (VerifyStagedCall e), s1)
         | Inr changes \<Rightarrow>
             (case find (\<lambda>cfg. map_of changes cfg = None \<or> map_of changes cfg = Some 0) (plan_configs p) of
                Some cfg \<Rightarrow> (Some (NothingStaged cfg), s1)
              | None \<Rightarrow>
                  (case find (\<lambda>cfg. cfg \<notin> set (plan_configs p)) (keys changes) of
                     Some cfg \<Rightarrow> (Some (UnexpectedStaged cfg), s1)
                   | None \<Rightarrow> (None, s1))))"

section \<open>The rollback budget\<close>

definition require_rollback_budget ::
  "'w router \<Rightarrow> engine \<Rightarrow> int \<Rightarrow> int \<Rightarrow> 'w st \<Rightarrow> budget_error option \<times> 'w st" where
  "require_rollback_budget rt en armed timeout s =
     (let (ended, s1) = do_ctx rt s
      in if ended then (Some ContextEnded, s1)
         else case rt_deadline rt of
                None \<Rightarrow> (None, s1)
              | Some deadline \<Rightarrow>
                  (let required = timeout + en_revert_grace en; remaining = deadline - armed
                   in if remaining \<ge> required then (None, s1)
                      else (Some (InsufficientBudget (max 0 remaining) required), s1)))"

section \<open>Health, confirm and the revert check\<close>

definition run_health :: "'w health option \<Rightarrow> 'w st \<Rightarrow> string option \<times> 'w st" where
  "run_health health s =
     (case health of
        None \<Rightarrow> (None, s)
      | Some h \<Rightarrow> (let (r, w) = h (wld s) in (r, emit (EHealth (r = None)) w s)))"

text \<open>The retry loop of \<open>confirmPoll\<close>. \<open>None\<close> is a loop that never returns.\<close>

partial_function (option) confirm_poll ::
  "'w router \<Rightarrow> int \<Rightarrow> int \<Rightarrow> confirm_error option \<Rightarrow> 'w st \<Rightarrow> (confirm_error option \<times> 'w st) option" where
  "confirm_poll rt interval deadline lasterr s =
     (case do_now rt s of (t, s1) \<Rightarrow>
        if \<not> t < deadline then Some (Some (case lasterr of None \<Rightarrow> WindowExpired | Some e \<Rightarrow> e), s1)
        else (case do_confirm rt s1 of (r, s2) \<Rightarrow>
          (case r of
             None \<Rightarrow> Some (None, s2)
           | Some e \<Rightarrow>
               if e = StatusErr StatusPermissionDenied then Some (Some (ConfirmRefused e), s2)
               else (case do_wait rt interval s2 of (ended, s3) \<Rightarrow>
                 if ended then Some (Some ContextDone, s3)
                 else confirm_poll rt interval deadline (Some (ConfirmCall e)) s3))))"

declare confirm_poll.simps [code]

text \<open>
  \<open>planStillApplied\<close>: only options known before and then different from the plan may vote. The
  result is whether a planned value is still there, whether anything could be read, and the error
  that stopped the check.
\<close>

fun still_applied ::
  "'w router \<Rightarrow> pre_apply \<Rightarrow> (string \<times> string \<times> string \<times> string) list \<Rightarrow> bool \<Rightarrow> 'w st \<Rightarrow>
     (bool \<times> bool \<times> ubus_error option) \<times> 'w st" where
  "still_applied rt pre [] checked s = ((False, checked, None), s)"
| "still_applied rt pre ((c, sec, k, want) # cs) checked s =
     (case map_of pre (c, sec, k) of
        None \<Rightarrow> still_applied rt pre cs checked s
      | Some (prev, found) \<Rightarrow>
          if found \<and> prev = want then still_applied rt pre cs checked s
          else (let (r, s1) = do_get rt True c sec k s
                in case r of
                     Inl e \<Rightarrow>
                       if e = StatusErr StatusNotFound \<or> e = StatusErr StatusNoData
                       then still_applied rt pre cs True s1
                       else ((False, checked, Some e), s1)
                   | Inr out \<Rightarrow>
                       if out = want then ((True, True, None), s1)
                       else still_applied rt pre cs True s1))"

definition plan_still_applied ::
  "'w router \<Rightarrow> plan \<Rightarrow> pre_apply \<Rightarrow> 'w st \<Rightarrow> (bool \<times> bool \<times> ubus_error option) \<times> 'w st" where
  "plan_still_applied rt p pre s = still_applied rt pre (plan_checks p) False s"

definition await_wait :: "'w router \<Rightarrow> int \<Rightarrow> 'w st \<Rightarrow> bool \<times> 'w st" where
  "await_wait rt resume s =
     (let (t, s1) = do_now rt s; rest = resume - t
      in if rest > 0 then do_wait rt rest s1 else (False, s1))"

definition stranded_result :: "int \<Rightarrow> reason \<Rightarrow> result" where
  "stranded_result started r =
     (blank_result started)\<lparr>res_outcome := Some Unknown, res_stranded := True, res_reason := r\<rparr>"

definition await_revert ::
  "'w router \<Rightarrow> engine \<Rightarrow> plan \<Rightarrow> int \<Rightarrow> int \<Rightarrow> cause \<Rightarrow> pre_apply \<Rightarrow> 'w st \<Rightarrow> result \<times> 'w st" where
  "await_revert rt en p armed timeout why pre s =
     (let (started, s1) = do_now rt s;
          (ended, s2) = await_wait rt (armed + (timeout + en_revert_grace en)) s1
      in if ended then
           (let (t, s3) = do_now rt s2
            in ((stranded_result started (WaitCancelled why))\<lparr>res_finished := t\<rparr>, s3))
         else
           (let (fresh, s3) = do_fresh rt s2
            in case fresh of
                 Some e \<Rightarrow>
                   (let (t, s4) = do_now rt s3
                    in ((stranded_result started (NoVerifySession why e))\<lparr>res_finished := t\<rparr>, s4))
               | None \<Rightarrow>
                   (let ((still, checked, err), s4) = plan_still_applied rt p pre s3;
                        (t, s5) = do_now rt s4;
                        res = (case err of
                                 None \<Rightarrow>
                                   if \<not> checked then stranded_result started (NothingReadable why)
                                   else if still then stranded_result started (StillPresent why)
                                   else (blank_result started)\<lparr>res_outcome := Some Reverted,
                                          res_reason := DeviceReverted why\<rparr>
                               | Some e \<Rightarrow> stranded_result started (CouldNotVerify why e))
                    in (res\<lparr>res_finished := t\<rparr>, s5))))"

section \<open>Apply\<close>

text \<open>
  The first half of \<open>Apply\<close>, up to and with the \<open>uci.apply\<close> call: either the error it
  returns, or the snapshot and the time the rollback timer was armed. Once the confirm window is
  open, the deferred close follows every return.
\<close>

definition arm :: "'w router \<Rightarrow> engine \<Rightarrow> plan \<Rightarrow> 'w st \<Rightarrow> (apply_error + int) \<times> 'w st" where
  "arm rt en p s =
     (let s1 = do_window rt True s;
          timeout = plan_timeout p;
          (armed, s2) = do_now rt s1;
          (budget, s3) = require_rollback_budget rt en armed timeout s2
      in case budget of
           Some e \<Rightarrow>
             (let (errs, s4) = revert_staged rt p (do_window rt False s3)
              in (Inl (BudgetRefused e errs), s4))
         | None \<Rightarrow>
             (let (r, s4) = do_apply rt (whole_seconds timeout) s3
              in case r of
                   Some e \<Rightarrow>
                     (let (_, s5) = revert_staged rt p s4
                      in (Inl (if e = StatusErr StatusPermissionDenied then AlreadyArmed e else ApplyFailed e),
                          do_window rt False s5))
                 | None \<Rightarrow> (Inr armed, s4)))"

definition prepare :: "'w router \<Rightarrow> engine \<Rightarrow> plan \<Rightarrow> 'w st \<Rightarrow> (apply_error + pre_apply \<times> int) \<times> 'w st" where
  "prepare rt en p s =
     (if pl_ops p = [] then (Inl EmptyPlan, s)
      else let (pf, s1) = preflight rt p s
      in case pf of
           Some e \<Rightarrow> (Inl e, s1)
         | None \<Rightarrow>
             (let (pre, s2) = snapshot_planned rt p s1;
                  (st, s3) = stage rt p s2
              in case st of
                   Some f \<Rightarrow> (Inl (StageFailed f), discard_staged rt p s3)
                 | None \<Rightarrow>
                     (let (vs, s4) = verify_staged rt p s3
                      in case vs of
                           Some e \<Rightarrow> (Inl e, snd (revert_staged rt p s4))
                         | None \<Rightarrow>
                             (let (r, s5) = arm rt en p s4
                              in (case r of Inl e \<Rightarrow> Inl e | Inr armed \<Rightarrow> Inr (pre, armed), s5)))))"

text \<open>The second half: health before confirm, and the revert check when either fails.\<close>

definition conclude ::
  "'w router \<Rightarrow> engine \<Rightarrow> plan \<Rightarrow> 'w health option \<Rightarrow> int \<Rightarrow> pre_apply \<Rightarrow> int \<Rightarrow> 'w st \<Rightarrow>
     (result \<times> 'w st) option" where
  "conclude rt en p health started pre armed s =
     (let timeout = plan_timeout p; (hp, s1) = run_health health s
      in case hp of
           Some h \<Rightarrow>
             (let s2 = do_window rt False s1;
                  (out, s3) = await_revert rt en p armed timeout (HealthFailed h) pre s2;
                  s4 = discard_staged rt p s3
              in Some (out\<lparr>res_health := Some h, res_started := started\<rparr>, s4))
         | None \<Rightarrow>
             (case confirm_poll rt (en_confirm_interval en) (armed + timeout) None s1 of
                None \<Rightarrow> None
              | Some (ce, s2) \<Rightarrow>
                  (let s3 = do_window rt False s2
                   in case ce of
                        None \<Rightarrow> Some ((blank_result started)\<lparr>res_outcome := Some Applied,
                                        res_reason := ConfirmLanded\<rparr>, s3)
                      | Some e \<Rightarrow>
                          (let (out, s4) = await_revert rt en p armed timeout (ConfirmNeverLanded e) pre s3;
                               s5 = discard_staged rt p s4
                           in Some (out\<lparr>res_started := started\<rparr>, s5)))))"

definition engine_apply ::
  "'w router \<Rightarrow> engine \<Rightarrow> plan \<Rightarrow> 'w health option \<Rightarrow> 'w st \<Rightarrow>
     ((result \<times> apply_error option) \<times> 'w st) option" where
  "engine_apply rt en p health s =
     (let (started, s1) = do_now rt s; (r, s2) = prepare rt en p s1
      in case r of
           Inl e \<Rightarrow>
             (let (t, s3) = do_now rt s2
              in Some (((blank_result started)\<lparr>res_finished := t\<rparr>, Some e), s3))
         | Inr (pre, armed) \<Rightarrow>
             (case conclude rt en p health started pre armed s2 of
                None \<Rightarrow> None
              | Some (out, s3) \<Rightarrow>
                  (let (t, s4) = do_now rt s3 in Some ((out\<lparr>res_finished := t\<rparr>, None), s4))))"

end
