(* ===== verification/Reconcile.thy ===== *)
theory Reconcile
  imports UciDoc ApplyEngine
begin

text \<open>
  The reader of device state and the drift detector (\<open>internal/reconcile/reconcile.go\<close>,
  \<open>redact.go\<close>): flattening of UCI sections, the snapshot of the managed configs, drift between
  what was applied and what the device holds, redaction of secrets, and the ownership record.
\<close>

section \<open>Flattening\<close>

text \<open>
  Decoded JSON, as \<open>encoding/json\<close> hands it out. Numbers are the whole numbers of
  \<open>float64\<close> that \<open>FormatFloat\<close> and \<open>Sprint\<close> print in plain digits.
\<close>

datatype json = JStr string | JBool bool | JInt int | JNull | JList "json list" | JObj "(string \<times> json) list"

definition format_bool :: "bool \<Rightarrow> string" where
  "format_bool b = (if b then ''true'' else ''false'')"

text \<open>\<open>fmt.Sprint\<close> of a decoded value.\<close>

fun sprint :: "json \<Rightarrow> string" where
  "sprint (JStr s) = s"
| "sprint (JBool b) = format_bool b"
| "sprint (JInt i) = itoa i"
| "sprint JNull = ''<nil>''"
| "sprint (JList xs) = ''['' @ join '' '' (map sprint xs) @ '']''"
| "sprint (JObj kvs) = ''map['' @ join '' '' (map (\<lambda>e. fst e @ '':'' @ snd e)
     (sort_key fst (map (\<lambda>(k, v). (k, sprint v)) kvs))) @ '']''"

definition flat_option :: "json \<Rightarrow> string" where
  "flat_option v =
     (case v of
        JStr s \<Rightarrow> s
      | JBool b \<Rightarrow> format_bool b
      | JInt i \<Rightarrow> itoa i
      | JList xs \<Rightarrow> join '' '' (map sprint xs)
      | JNull \<Rightarrow> []
      | JObj kvs \<Rightarrow> sprint (JObj kvs))"

definition is_list :: "json \<Rightarrow> bool" where
  "is_list v = (case v of JList xs \<Rightarrow> True | _ \<Rightarrow> False)"

definition flatten :: "json gomap \<Rightarrow> device_section" where
  "flatten vals =
     put ListsKey (join '' '' (sort (keys (filter (\<lambda>e. is_list (snd e)) vals))))
       (map (\<lambda>(k, v). (k, flat_option v)) vals)"

section \<open>Reading the device\<close>

definition ManagedConfigs :: "string list" where
  "ManagedConfigs = [''wireless'', ''network'', ''dhcp'', ''firewall'']"

definition is_missing_config :: "ubus_error \<Rightarrow> bool" where
  "is_missing_config e = (case e of StatusErr c \<Rightarrow> c = StatusNotFound | OtherErr m \<Rightarrow> False)"

fun read_configs ::
  "(string \<Rightarrow> 'w \<Rightarrow> (ubus_error + json gomap gomap) \<times> 'w) \<Rightarrow> string list \<Rightarrow> device_config gomap \<Rightarrow> 'w \<Rightarrow>
     (string \<times> ubus_error + existing) \<times> 'w" where
  "read_configs uci_get [] configs w = (Inr \<lparr>ex_configs = configs\<rparr>, w)"
| "read_configs uci_get (config # rest) configs w =
     (let (r, w1) = uci_get config w
      in case r of
           Inl e \<Rightarrow> if is_missing_config e then read_configs uci_get rest configs w1 else (Inl (config, e), w1)
         | Inr values \<Rightarrow>
             read_configs uci_get rest (put config (map (\<lambda>(n, vals). (n, flatten vals)) values) configs) w1)"

definition read_existing ::
  "(string \<Rightarrow> 'w \<Rightarrow> (ubus_error + json gomap gomap) \<times> 'w) \<Rightarrow> 'w \<Rightarrow> (string \<times> ubus_error + existing) \<times> 'w" where
  "read_existing uci_get w = read_configs uci_get ManagedConfigs [] w"

section \<open>Redaction\<close>

definition redacted_value :: string where "redacted_value = ''<redacted>''"

definition is_sensitive_option :: "string \<Rightarrow> bool" where
  "is_sensitive_option option \<longleftrightarrow> to_lower option \<in> set
     [''key'', ''key1'', ''key2'', ''key3'', ''key4'', ''psk'', ''wpa_psk'',
      ''preshared_key'', ''sae_password'', ''r0kh'', ''r1kh'',
      ''password'', ''passphrase'', ''secret'', ''auth_secret'', ''acct_secret'',
      ''dae_secret'', ''radius_secret'', ''encryption_key'', ''private_key'',
      ''private_key_password'', ''private_key_passwd'', ''wps_pin'']"

definition redact_option_value :: "string \<Rightarrow> string \<Rightarrow> string" where
  "redact_option_value option value = (if is_sensitive_option option then redacted_value else value)"

section \<open>Drift\<close>

record drift =
  dr_config :: string
  dr_section :: string
  dr_option :: string
  dr_ours :: string
  dr_theirs :: string

definition new_drift :: "string \<Rightarrow> string \<Rightarrow> string \<Rightarrow> string \<Rightarrow> string \<Rightarrow> drift" where
  "new_drift config section option ours theirs =
     \<lparr>dr_config = config, dr_section = section, dr_option = option,
      dr_ours = redact_option_value option ours, dr_theirs = redact_option_value option theirs\<rparr>"

text \<open>\<open>Drift.String\<close>; the quoting of \<open>%q\<close> is a parameter.\<close>

definition drift_text :: "(string \<Rightarrow> string) \<Rightarrow> drift \<Rightarrow> string" where
  "drift_text quote d =
     dr_config d @ ''.'' @ dr_section d @ ''.'' @ dr_option d @
     (if is_sensitive_option (dr_option d)
      then '': device value differs from what we applied (values redacted)''
      else '': we applied '' @ quote (dr_ours d) @ '', device has '' @ quote (dr_theirs d))"

text \<open>What a section writes, options and joined lists together.\<close>

definition section_writes :: "uci_section \<Rightarrow> string gomap" where
  "section_writes s = fold (\<lambda>(k, v) m. put k (join '' '' v) m) (sc_lists s) (sc_values s)"

definition drift_of_option ::
  "uci_section \<Rightarrow> device_section \<Rightarrow> bool \<Rightarrow> string gomap \<Rightarrow> string \<Rightarrow> drift list" where
  "drift_of_option s current had_hash ours k =
     (case map_of current k of
        Some have \<Rightarrow>
          if have \<noteq> get_str ours k then [new_drift (sc_config s) (sc_name s) k (get_str ours k) have] else []
      | None \<Rightarrow> if had_hash then [new_drift (sc_config s) (sc_name s) k (get_str ours k) []] else [])"

definition drift_of_section ::
  "(string \<Rightarrow> string) \<Rightarrow> existing \<Rightarrow> string gomap \<Rightarrow> uci_section \<Rightarrow> drift list" where
  "drift_of_section sha existing applied_hash s =
     (case map_of (in_config existing (sc_config s)) (sc_name s) of
        None \<Rightarrow> []
      | Some current \<Rightarrow>
          if get_str current OwnershipTag \<noteq> ''1'' then []
          else let h = map_of applied_hash (sc_config s @ ''.'' @ sc_name s)
          in if h \<noteq> None \<and> h \<noteq> Some (section_hash sha s) then []
             else concat (map (drift_of_option s current (h \<noteq> None) (section_writes s))
                    (sorted_keys (section_writes s))))"

definition detect_drift :: "(string \<Rightarrow> string) \<Rightarrow> doc \<Rightarrow> existing \<Rightarrow> string gomap \<Rightarrow> drift list" where
  "detect_drift sha d existing applied_hash =
     concat (map (drift_of_section sha existing applied_hash) (d_sections d))"

section \<open>The ownership record\<close>

record owned_section =
  os_device :: int
  os_config :: string
  os_section :: string
  os_hash :: string
  os_applied_at :: int

definition os_ref :: "owned_section \<Rightarrow> sec_ref" where
  "os_ref o' = (os_config o', os_section o')"

text \<open>The claims \<open>recordOwned\<close> hands to \<open>ReplaceOwned\<close>, given the previous ones.\<close>

definition claims ::
  "(string \<Rightarrow> string) \<Rightarrow> int \<Rightarrow> int \<Rightarrow> doc \<Rightarrow> existing \<Rightarrow> owned_section list \<Rightarrow> owned_section list" where
  "claims sha device now d ex prev =
     concat (map (\<lambda>s.
       if \<not> owned_in ex (sc_config s) (sc_name s) \<and> map_of (in_config ex (sc_config s)) (sc_name s) \<noteq> None then []
       else [\<lparr>os_device = device, os_config = sc_config s, os_section = sc_name s,
              os_hash = section_hash sha s, os_applied_at = now\<rparr>]) (d_sections d))
     @ filter (\<lambda>o'. preserved d ex (os_config o') (os_section o')) prev"

section \<open>Facts\<close>

lemma get_str_section_writes:
  "wf_map (sc_lists s) \<Longrightarrow> get_str (section_writes s) k =
     (case map_of (sc_lists s) k of Some v \<Rightarrow> join '' '' v | None \<Rightarrow> get_str (sc_values s) k)"
proof -
  have "map_of (fold (\<lambda>(k, v) m. put k (join '' '' v) m) ls m) k =
      (case map_of (rev ls) k of Some v \<Rightarrow> Some (join '' '' v) | None \<Rightarrow> map_of m k)" for ls m
    by (induction ls arbitrary: m) (auto simp: map_add_def split: option.splits)
  moreover assume "wf_map (sc_lists s)"
  ultimately show ?thesis
    by (auto simp: section_writes_def get_str_def map_of_rev_wf wf_map_def split: option.splits)
qed

lemma keys_section_writes: "k \<in> set (keys (section_writes s)) \<longleftrightarrow> k \<in> set (keys (sc_values s)) \<or> k \<in> set (keys (sc_lists s))"
proof -
  have "has_key (fold (\<lambda>(k, v) m. put k (join '' '' v) m) ls m) k \<longleftrightarrow> has_key m k \<or> k \<in> set (keys ls)" for ls m
    by (induction ls arbitrary: m) auto
  then show ?thesis by (simp add: section_writes_def has_key_iff [symmetric] del: set_map)
qed

end
