(* ===== verification/PlanClaims.thy ===== *)
theory PlanClaims
  imports UciDoc
begin

text \<open>
  Properties of \<open>Doc.Plan\<close>, \<open>Doc.Prune\<close> and \<open>Doc.Preserved\<close>: what a plan may touch,
  which owned sections disappear, and that carrying a plan out leaves nothing to do. The device's
  UCI service is not part of the repository: it is the parameter \<open>exec\<close> of the statements, with
  the documented effect of its calls as the hypothesis \<open>uci_service\<close>.
\<close>

section \<open>Pruning\<close>

definition section_state :: "existing \<Rightarrow> sec_ref \<Rightarrow> device_section option" where
  "section_state ex r = map_of (in_config ex (fst r)) (snd r)"

lemma owned_in_state:
  "owned_in ex c n \<longleftrightarrow> (\<exists>m. section_state ex (c, n) = Some m \<and> get_str m OwnershipTag = ''1'')"
  by (auto simp: owned_in_def section_values_def section_state_def get_str_def split: option.splits)

lemma state_in_configs: "section_state ex (c, n) = Some m \<Longrightarrow> \<exists>ss. (c, ss) \<in> set (ex_configs ex) \<and> n \<in> set (keys ss)"
  by (force simp: section_state_def in_config_def dest: map_of_SomeD split: option.splits)

definition decided_stale :: "doc \<Rightarrow> existing \<Rightarrow> sec_ref \<Rightarrow> bool" where
  "decided_stale d ex r \<longleftrightarrow>
     owned_in ex (fst r) (snd r) \<and> r \<notin> section_ref ` set (d_sections d) \<and>
     \<not> blind d (fst r) \<and> \<not> retained d (fst r) (snd r)"

lemma set_stale: "r \<in> set (stale_sections d ex) \<longleftrightarrow> decided_stale d ex r"
proof
  assume "r \<in> set (stale_sections d ex)"
  then show "decided_stale d ex r"
    by (auto simp: stale_sections_def decided_stale_def split: if_splits)
next
  assume s: "decided_stale d ex r"
  obtain c n where r: "r = (c, n)" by fastforce
  with s obtain m where "section_state ex (c, n) = Some m"
    by (auto simp: decided_stale_def owned_in_state)
  with state_in_configs obtain ss where "(c, ss) \<in> set (ex_configs ex)" "n \<in> set (keys ss)" by blast
  moreover have "\<not> blind d c" "\<not> ((c, n) \<in> set (map section_ref (d_sections d)) \<or> \<not> owned_in ex c n) \<and> \<not> retained d c n"
    using s r by (simp_all add: decided_stale_def)
  ultimately show "r \<in> set (stale_sections d ex)"
    unfolding r stale_sections_def set_concat set_map
    by (intro UnionI [OF imageI [OF imageI]]) (assumption, simp)
qed

lemma set_prune: "set (prune d ex) = (\<lambda>r. blank_op OpDelete (fst r) (snd r)) ` {r. decided_stale d ex r}"
proof -
  have "{r. decided_stale d ex r} = set (stale_sections d ex)" using set_stale by blast
  then show ?thesis by (simp add: prune_def case_prod_unfold)
qed

lemma blank_op_inject: "blank_op k c n = blank_op k' c' n' \<longleftrightarrow> k = k' \<and> c = c' \<and> n = n'"
  by (simp add: blank_op_def)

lemma pruned_iff: "blank_op ''delete'' c n \<in> set (prune d ex) \<longleftrightarrow> decided_stale d ex (c, n)"
  unfolding set_prune by (auto simp: blank_op_inject image_iff)

text \<open>
  C16. Pruning removes exactly the sections the controller owns on the device, the document does
  not contain, and the render decided about: never a section without the ownership marker, never
  one of a config the render could not see into, never one it asked to retain. Each removal is the
  deletion of a whole section.
\<close>

theorem prune_exact:
  "op \<in> set (prune d ex) \<longleftrightarrow>
    (\<exists>config name. op = blank_op OpDelete config name \<and> owned_in ex config name \<and>
      (config, name) \<notin> section_ref ` set (d_sections d) \<and> config \<notin> set (d_blind d) \<and>
      (config, name) \<notin> set (d_retain d))"
proof -
  have "blind d c \<longleftrightarrow> c \<in> set (d_blind d)" "retained d c n \<longleftrightarrow> (c, n) \<in> set (d_retain d)" for c n
    by (force simp: blind_def retained_def list_ex_iff)+
  then show ?thesis unfolding set_prune decided_stale_def image_iff mem_Collect_eq by fastforce
qed

text \<open>
  C18. Every section the controller owns on a device is accounted for exactly once after an apply:
  it is rendered by the document, or pruned, or preserved, and the three exclude one another. A
  claim is therefore never dropped for a section that is still there.
\<close>

theorem owned_sections_accounted:
  assumes "owned_in ex config name"
  shows "let rendered = (config, name) \<in> section_ref ` set (d_sections d);
             pruned = blank_op OpDelete config name \<in> set (prune d ex);
             kept = preserved d ex config name
         in (rendered \<or> pruned \<or> kept) \<and> \<not> (rendered \<and> pruned) \<and> \<not> (rendered \<and> kept) \<and> \<not> (pruned \<and> kept)"
proof -
  have r: "list_ex (\<lambda>s. sc_config s = config \<and> sc_name s = name) (d_sections d) \<longleftrightarrow>
      (config, name) \<in> section_ref ` set (d_sections d)"
    by (auto simp: list_ex_iff section_ref_def)
  show ?thesis using assms unfolding preserved_def r
    by (simp add: Let_def pruned_iff decided_stale_def) blast
qed

definition demo_section :: uci_section where
  "demo_section = \<lparr>sc_config = ''network'', sc_type = ''interface'', sc_name = ''oowrt_net_iot'',
     sc_values = [(''oonfeewrt'', ''1''), (''proto'', ''static'')],
     sc_lists = [(''dns'', [''10.0.20.1'', ''9.9.9.9''])], sc_manages = [''mtu'']\<rparr>"

definition demo_patch :: patch where
  "demo_patch = \<lparr>pt_config = ''network'', pt_section = ''lan'', pt_values = [(''ip6assign'', ''60'')],
     pt_deletes = [''ip6class'']\<rparr>"

definition demo_doc :: doc where
  "demo_doc = \<lparr>d_device = 5, d_sections = [demo_section], d_patches = [demo_patch],
     d_retain = [], d_blind = [''wireless'']\<rparr>"

definition demo_existing :: existing where
  "demo_existing = \<lparr>ex_configs =
     [(''network'',
       [(''lan'', [(''proto'', ''static''), (''ip6class'', ''wan6'')]),
        (''oowrt_net_iot'', [(''oonfeewrt'', ''1''), (''mtu'', ''1400''), (''dns'', ''10.0.20.1 9.9.9.9''),
           (''.oowrt_lists'', [])]),
        (''oowrt_net_old'', [(''oonfeewrt'', ''1'')])]),
      (''wireless'', [(''oowrt_up_5g'', [(''oonfeewrt'', ''1'')])])]\<rparr>"

theorem owned_sections_accounted_witness:
  "preserved demo_doc demo_existing ''wireless'' ''oowrt_up_5g''"
proof -
  have "owned_in demo_existing ''wireless'' ''oowrt_up_5g''" by code_simp
  moreover have "(''wireless'', ''oowrt_up_5g'') \<notin> section_ref ` set (d_sections demo_doc)"
    by (simp add: demo_doc_def demo_section_def section_ref_def)
  moreover have "prune demo_doc demo_existing = [blank_op OpDelete ''network'' ''oowrt_net_old'']" by code_simp
  ultimately show ?thesis
    using owned_sections_accounted [of demo_existing "''wireless''" "''oowrt_up_5g''" demo_doc]
    by (simp add: Let_def blank_op_def)
qed

section \<open>What a plan touches\<close>

definition whole_delete :: "op \<Rightarrow> bool" where
  "whole_delete op \<longleftrightarrow> op_kind op = OpDelete \<and> op_option op = []"

lemma section_ops_cases:
  assumes "op \<in> set (section_ops ex s)"
  shows "(op = write_op OpAdd s \<or> op = write_op OpSet s) \<or>
    (\<exists>k m. op = delete_option_op (sc_config s) (sc_name s) k \<and>
       section_state ex (section_ref s) = Some m \<and> has_key m k \<and> (k \<in> set (keys (sc_lists s)) \<or> k \<in> set (sc_manages s)))"
  using assms
  by (auto simp: section_ops_def section_state_def section_ref_def set_managed split: option.splits if_splits)

definition patch_delete :: "patch \<Rightarrow> device_section \<Rightarrow> op \<Rightarrow> bool" where
  "patch_delete p m op \<longleftrightarrow> (\<exists>k. op = delete_option_op (pt_config p) (pt_section p) k \<and> k \<in> set (pt_deletes p) \<and>
     \<not> forbidden_patch_option k \<and> has_key m k)"

definition patch_set :: "patch \<Rightarrow> op \<Rightarrow> bool" where
  "patch_set p op \<longleftrightarrow>
     (\<exists>changed. op = (blank_op OpSet (pt_config p) (pt_section p))\<lparr>op_values := changed, op_patch := True\<rparr> \<and>
        changed \<noteq> [] \<and> set changed \<subseteq> set (pt_values p) \<and> (\<forall>k\<in>set (keys changed). \<not> forbidden_patch_option k))"

lemma patch_ops_cases:
  assumes "op \<in> set (patch_ops ex p)"
  shows "\<exists>m. section_state ex (patch_ref p) = Some m \<and> (patch_delete p m op \<or> patch_set p op)"
proof -
  obtain m where m: "section_state ex (patch_ref p) = Some m"
    using assms by (cases "section_state ex (patch_ref p)") (simp_all add: patch_ops_def section_state_def patch_ref_def)
  let ?changed = "filter (\<lambda>(k, v). \<not> (forbidden_patch_option k \<or> get_str m k = v)) (pt_values p)"
  have "op \<in> set (map (delete_option_op (pt_config p) (pt_section p))
        (filter (\<lambda>k. \<not> forbidden_patch_option k \<and> has_key m k) (sort (pt_deletes p)))) \<or>
      (?changed \<noteq> [] \<and> op = (blank_op OpSet (pt_config p) (pt_section p))\<lparr>op_values := ?changed, op_patch := True\<rparr>)"
    using assms m by (simp add: patch_ops_def section_state_def patch_ref_def Let_def split: if_splits) blast
  then have "patch_delete p m op \<or> patch_set p op"
  proof
    assume "?changed \<noteq> [] \<and> op = (blank_op OpSet (pt_config p) (pt_section p))\<lparr>op_values := ?changed, op_patch := True\<rparr>"
    moreover have "set ?changed \<subseteq> set (pt_values p)" "\<forall>k\<in>set (keys ?changed). \<not> forbidden_patch_option k" by auto
    ultimately show ?thesis unfolding patch_set_def by blast
  qed (auto simp: patch_delete_def)
  with m show ?thesis by blast
qed

lemma doc_plan_ops: "op \<in> set (pl_ops (doc_plan d ex)) \<longleftrightarrow>
    (\<exists>s\<in>set (d_sections d). op \<in> set (section_ops ex s)) \<or> (\<exists>p\<in>set (d_patches d). op \<in> set (patch_ops ex p))"
  by (simp add: doc_plan_def sorted_sections_def sorted_patches_def)

text \<open>No option of a device has an empty name, and no patch an empty section.\<close>

definition named_options :: "existing \<Rightarrow> bool" where
  "named_options ex \<longleftrightarrow> (\<forall>c n m. section_state ex (c, n) = Some m \<longrightarrow> \<not> has_key m [])"

text \<open>
  C17. A plan stays inside its document. Every operation stages (no plan is ever refused half way
  through for its shape). A section is created or rewritten only if the document contains it, and
  deleted only if the controller owns it on the device and the document does not contain it. An
  option is deleted only from a section of the device that holds it, and only because a section
  of the document manages it or writes it as a list, or a patch of the document deletes it. A patch
  writes only values the document gives it, on a section that exists, and neither a patch's
  writes nor its deletions touch the ownership marker, the type or the name of the section.
\<close>

theorem plan_within_document:
  assumes "named_options ex" and "\<forall>p\<in>set (d_patches d). pt_section p \<noteq> []"
    and "op \<in> set (pl_ops (doc_plan d ex) @ prune d ex)"
  shows "(\<exists>call. op_invocation op = Inr call) \<and>
    (op_kind op \<noteq> OpDelete \<and> \<not> op_patch op \<longrightarrow>
       (\<exists>s\<in>set (d_sections d). op \<in> {write_op OpAdd s, write_op OpSet s})) \<and>
    (whole_delete op \<longrightarrow> owned_in ex (op_config op) (op_section op) \<and>
       (op_config op, op_section op) \<notin> section_ref ` set (d_sections d)) \<and>
    (op_kind op = OpDelete \<and> \<not> whole_delete op \<longrightarrow>
       (\<exists>m. section_state ex (op_config op, op_section op) = Some m \<and> has_key m (op_option op)) \<and>
       ((\<exists>s\<in>set (d_sections d). section_ref s = (op_config op, op_section op) \<and>
          op_option op \<in> set (keys (sc_lists s)) \<union> set (sc_manages s)) \<or>
        (\<exists>p\<in>set (d_patches d). patch_ref p = (op_config op, op_section op) \<and> op_option op \<in> set (pt_deletes p) \<and>
          op_option op \<notin> {OwnershipTag, ''.type'', ''.name''}))) \<and>
    (op_patch op \<longrightarrow> op_kind op = OpSet \<and> op_lists op = [] \<and>
       section_state ex (op_config op, op_section op) \<noteq> None \<and>
       (\<exists>p\<in>set (d_patches d). patch_ref p = (op_config op, op_section op) \<and> set (op_values op) \<subseteq> set (pt_values p)) \<and>
       set (keys (op_values op)) \<inter> {OwnershipTag, ''.type'', ''.name''} = {})"
proof -
  have ne: "k \<noteq> []" if "section_state ex r = Some m" "has_key m k" for r m k
    using that assms(1) by (cases r) (auto simp: named_options_def)
  consider (sec) s where "s \<in> set (d_sections d)" "op \<in> set (section_ops ex s)"
    | (pat) p where "p \<in> set (d_patches d)" "op \<in> set (patch_ops ex p)"
    | (prn) c n where "op = blank_op OpDelete c n" "decided_stale d ex (c, n)"
    using assms(3) by (auto simp: doc_plan_ops set_prune)
  then show ?thesis
  proof cases
    case sec
    from section_ops_cases [OF sec(2)] show ?thesis
    proof (elim disjE exE)
      fix k m assume "op = delete_option_op (sc_config s) (sc_name s) k \<and> section_state ex (section_ref s) = Some m \<and>
        has_key m k \<and> (k \<in> set (keys (sc_lists s)) \<or> k \<in> set (sc_manages s))"
      then have op: "op = delete_option_op (sc_config s) (sc_name s) k"
        and m: "section_state ex (section_ref s) = Some m" "has_key m k"
        and k: "k \<in> set (keys (sc_lists s)) \<union> set (sc_manages s)" by blast+
      with ne have "k \<noteq> []" by blast
      moreover have "\<exists>s'\<in>set (d_sections d). section_ref s' = (sc_config s, sc_name s) \<and>
          k \<in> set (keys (sc_lists s')) \<union> set (sc_manages s')"
        using sec(1) k by (intro bexI [of _ s]) (simp_all add: section_ref_def)
      ultimately show ?thesis using op m
        by (simp add: blank_op_def delete_option_op_def section_ref_def op_invocation_def whole_delete_def Let_def)
    qed (use sec(1) in \<open>auto simp: uci_simps op_invocation_def whole_delete_def Let_def\<close>)
  next
    case pat
    have sec: "pt_section p \<noteq> []" using assms(2) pat(1) by blast
    from patch_ops_cases [OF pat(2)] obtain m where m: "section_state ex (patch_ref p) = Some m"
      and "patch_delete p m op \<or> patch_set p op" by blast
    then show ?thesis
    proof (elim disjE)
      assume "patch_delete p m op"
      then obtain k where op: "op = delete_option_op (pt_config p) (pt_section p) k" and k: "has_key m k"
        "k \<in> set (pt_deletes p)" "k \<notin> {OwnershipTag, ''.type'', ''.name''}"
        by (auto simp: patch_delete_def forbidden_patch_option_def)
      have "\<exists>p'\<in>set (d_patches d). patch_ref p' = (pt_config p, pt_section p) \<and> k \<in> set (pt_deletes p') \<and>
          k \<notin> {OwnershipTag, ''.type'', ''.name''}"
        using pat(1) k by (intro bexI [of _ p]) (simp_all add: patch_ref_def)
      moreover from ne m k(1) have "k \<noteq> []" by blast
      ultimately show ?thesis using op m k(1)
        by (simp add: blank_op_def delete_option_op_def patch_ref_def op_invocation_def whole_delete_def Let_def)
    next
      assume "patch_set p op"
      then obtain changed where op: "op = (blank_op OpSet (pt_config p) (pt_section p))\<lparr>op_values := changed, op_patch := True\<rparr>"
        and ch: "changed \<noteq> []" "set changed \<subseteq> set (pt_values p)" "\<forall>k\<in>set (keys changed). \<not> forbidden_patch_option k"
        by (auto simp: patch_set_def)
      have free: "set (keys changed) \<inter> {OwnershipTag, ''.type'', ''.name''} = {}"
        using ch(3) by (auto simp: forbidden_patch_option_def)
      then have "OwnershipTag \<notin> set (keys changed)" by blast
      moreover have "\<exists>p'\<in>set (d_patches d). patch_ref p' = (pt_config p, pt_section p) \<and> set changed \<subseteq> set (pt_values p')"
        using pat(1) ch(2) by (intro bexI [of _ p]) (simp_all add: patch_ref_def)
      ultimately show ?thesis using m ch(1) sec op free
        by (simp add: blank_op_def patch_ref_def op_invocation_def whole_delete_def Let_def has_key_iff)
    qed
  next
    case prn
    then show ?thesis by (auto simp: blank_op_def op_invocation_def whole_delete_def decided_stale_def Let_def)
  qed
qed

lemma demo_named: "named_options demo_existing"
proof -
  have "list_all (\<lambda>(c, ss). list_all (\<lambda>(n, m). \<not> has_key m []) ss) (ex_configs demo_existing)" by code_simp
  then show ?thesis
    by (fastforce simp: named_options_def section_state_def in_config_def list_all_iff dest!: map_of_SomeD
        split: option.splits)
qed

theorem plan_within_document_witness:
  "owned_in demo_existing ''network'' ''oowrt_net_old'' \<and>
   (\<exists>p\<in>set (d_patches demo_doc). patch_ref p = (''network'', ''lan'') \<and> ''ip6class'' \<in> set (pt_deletes p))"
proof -
  let ?ops = "pl_ops (doc_plan demo_doc demo_existing) @ prune demo_doc demo_existing"
  have op: "blank_op OpDelete ''network'' ''oowrt_net_old'' \<in> set ?ops" (is "?op \<in> _") by code_simp
  have op': "delete_option_op ''network'' ''lan'' ''ip6class'' \<in> set ?ops" (is "?op' \<in> _") by code_simp
  have sec: "\<forall>p\<in>set (d_patches demo_doc). pt_section p \<noteq> []" by (simp add: demo_doc_def demo_patch_def)
  from plan_within_document [OF demo_named sec op] plan_within_document [OF demo_named sec op']
  show ?thesis by (auto simp: whole_delete_def uci_simps demo_doc_def demo_section_def)
qed

end
