(* ===== verification/PlanConverge.thy ===== *)
theory PlanConverge
  imports PlanClaims
begin

text \<open>
  Convergence: the staged calls of a plan, carried out by a device that keeps the documented UCI
  behaviour, leave a device for which the same document plans nothing and prunes nothing.
\<close>

section \<open>The device's UCI service\<close>

text \<open>Options whose name starts with a dot are metadata the device itself maintains.\<close>

definition plain :: "string \<Rightarrow> bool" where
  "plain k \<longleftrightarrow> \<not> has_prefix k ''.''"

definition reads :: "device_section \<Rightarrow> string \<Rightarrow> uci_value \<Rightarrow> bool" where
  "reads m k v \<longleftrightarrow>
     (case v of
        VStr t \<Rightarrow> get_str m k = t
      | VList ts \<Rightarrow> get_str m k = join '' '' ts \<and> \<not> wrong_shape m k)"

definition call_ref :: "invocation \<Rightarrow> sec_ref" where
  "call_ref call =
     (inv_config call, case inv_section call of Some n \<Rightarrow> n | None \<Rightarrow> (case inv_name call of Some n \<Rightarrow> n | None \<Rightarrow> []))"

definition call_values :: "invocation \<Rightarrow> uci_value gomap" where
  "call_values call = (case inv_values call of Some vs \<Rightarrow> vs | None \<Rightarrow> [])"

definition uci_write :: "uci_value gomap \<Rightarrow> device_section option \<Rightarrow> device_section option \<Rightarrow> bool" where
  "uci_write vs old new \<longleftrightarrow>
     (\<exists>m. new = Some m \<and> (\<forall>k v. plain k \<longrightarrow> map_of vs k = Some v \<longrightarrow> reads m k v) \<and>
       (\<forall>k. plain k \<longrightarrow> map_of vs k = None \<longrightarrow> map_of m k = Option.bind old (\<lambda>m0. map_of m0 k)))"

definition uci_delete_option :: "string \<Rightarrow> device_section \<Rightarrow> device_section option \<Rightarrow> bool" where
  "uci_delete_option k m0 new \<longleftrightarrow>
     (\<exists>m. new = Some m \<and> (\<forall>k'. plain k' \<longrightarrow> map_of m k' = (if k' = k then None else map_of m0 k')))"

text \<open>
  The documented effect of \<open>uci.add\<close> of a new named section, of \<open>uci.set\<close> and of
  \<open>uci.delete\<close>, where the call applies; every other section stays as it is.
\<close>

definition uci_service :: "(invocation \<Rightarrow> existing \<Rightarrow> existing) \<Rightarrow> bool" where
  "uci_service exec \<longleftrightarrow>
     (\<forall>call ex. let old = section_state ex (call_ref call); new = section_state (exec call ex) (call_ref call) in
       (\<forall>r. r \<noteq> call_ref call \<longrightarrow> section_state (exec call ex) r = section_state ex r) \<and>
       (inv_method call = OpAdd \<and> inv_name call \<noteq> None \<and> old = None \<longrightarrow> uci_write (call_values call) old new) \<and>
       (inv_method call = OpSet \<and> old \<noteq> None \<longrightarrow> uci_write (call_values call) old new) \<and>
       (inv_method call = OpDelete \<longrightarrow>
         (case inv_option call of
            None \<Rightarrow> new = None
          | Some k \<Rightarrow> (\<forall>m0. old = Some m0 \<and> has_key m0 k \<longrightarrow> uci_delete_option k m0 new))))"

lemma service_frame: "uci_service exec \<Longrightarrow> r \<noteq> call_ref call \<Longrightarrow> section_state (exec call ex) r = section_state ex r"
  unfolding uci_service_def Let_def by blast

lemma service_write:
  "uci_service exec \<Longrightarrow>
    inv_method call = OpAdd \<and> inv_name call \<noteq> None \<and> section_state ex (call_ref call) = None \<or>
    inv_method call = OpSet \<and> section_state ex (call_ref call) \<noteq> None \<Longrightarrow>
    uci_write (call_values call) (section_state ex (call_ref call)) (section_state (exec call ex) (call_ref call))"
  unfolding uci_service_def Let_def by blast

lemma service_delete:
  "uci_service exec \<Longrightarrow> inv_method call = OpDelete \<Longrightarrow> inv_option call = None \<Longrightarrow>
    section_state (exec call ex) (call_ref call) = None"
  unfolding uci_service_def Let_def by (drule spec [where x = call], drule spec [where x = ex]) simp

lemma service_delete_option:
  "uci_service exec \<Longrightarrow> inv_method call = OpDelete \<Longrightarrow> inv_option call = Some k \<Longrightarrow>
    section_state ex (call_ref call) = Some m0 \<Longrightarrow> has_key m0 k \<Longrightarrow>
    uci_delete_option k m0 (section_state (exec call ex) (call_ref call))"
  unfolding uci_service_def Let_def by (drule spec [where x = call], drule spec [where x = ex]) simp

section \<open>Carrying out operations\<close>

definition call_of :: "op \<Rightarrow> invocation" where
  "call_of op = projr (op_invocation op)"

definition op_ref :: "op \<Rightarrow> sec_ref" where
  "op_ref op = (op_config op, op_section op)"

definition carry :: "(invocation \<Rightarrow> existing \<Rightarrow> existing) \<Rightarrow> op list \<Rightarrow> existing \<Rightarrow> existing" where
  "carry exec ops ex = fold exec (map call_of ops) ex"

definition targeted :: "op \<Rightarrow> bool" where
  "targeted op \<longleftrightarrow> op_invocation op = Inr (call_of op) \<and> call_ref (call_of op) = op_ref op"

lemma carry_Nil [simp]: "carry exec [] ex = ex"
  and carry_Cons [simp]: "carry exec (op # ops) ex = carry exec ops (exec (call_of op) ex)"
  and carry_append [simp]: "carry exec (xs @ ys) ex = carry exec ys (carry exec xs ex)"
  by (simp_all add: carry_def)

lemma carry_other:
  assumes "uci_service exec" and "\<forall>op\<in>set ops. targeted op \<and> op_ref op \<noteq> r"
  shows "section_state (carry exec ops ex) r = section_state ex r"
  using assms(2)
proof (induction ops arbitrary: ex)
  case (Cons op ops)
  have "section_state (exec (call_of op) ex) r = section_state ex r"
    using Cons.prems by (intro service_frame [OF assms(1)]) (auto simp: targeted_def)
  with Cons show ?case by simp
qed simp

lemma write_call:
  "sc_name s \<noteq> [] \<Longrightarrow> kind = OpAdd \<or> kind = OpSet \<Longrightarrow>
    targeted (write_op kind s) \<and> op_ref (write_op kind s) = section_ref s \<and>
    inv_method (call_of (write_op kind s)) = kind \<and> (kind = OpAdd \<longrightarrow> inv_name (call_of (write_op kind s)) \<noteq> None) \<and>
    call_values (call_of (write_op kind s)) = with_lists (with_ownership (sc_values s)) (sc_lists s)"
  by (auto simp: targeted_def call_of_def op_ref_def call_ref_def call_values_def uci_simps op_invocation_def Let_def)

lemma delete_call:
  "k \<noteq> [] \<Longrightarrow> targeted (delete_option_op c n k) \<and> op_ref (delete_option_op c n k) = (c, n) \<and>
    inv_method (call_of (delete_option_op c n k)) = OpDelete \<and> inv_option (call_of (delete_option_op c n k)) = Some k"
  by (simp add: targeted_def call_of_def op_ref_def call_ref_def uci_simps op_invocation_def Let_def)

lemma prune_call:
  "targeted (blank_op OpDelete c n) \<and> op_ref (blank_op OpDelete c n) = (c, n) \<and>
    inv_method (call_of (blank_op OpDelete c n)) = OpDelete \<and> inv_option (call_of (blank_op OpDelete c n)) = None"
  by (simp add: targeted_def call_of_def op_ref_def call_ref_def blank_op_def op_invocation_def Let_def)

definition patch_op :: "string \<Rightarrow> string \<Rightarrow> string gomap \<Rightarrow> op" where
  "patch_op c n vs = (blank_op OpSet c n)\<lparr>op_values := vs, op_patch := True\<rparr>"

lemma patch_call:
  "n \<noteq> [] \<Longrightarrow> vs \<noteq> [] \<Longrightarrow> OwnershipTag \<notin> set (keys vs) \<Longrightarrow>
    targeted (patch_op c n vs) \<and> op_ref (patch_op c n vs) = (c, n) \<and> inv_method (call_of (patch_op c n vs)) = OpSet \<and>
    call_values (call_of (patch_op c n vs)) = map (\<lambda>(k, v). (k, VStr v)) vs"
  by (auto simp: targeted_def call_of_def op_ref_def call_ref_def call_values_def patch_op_def blank_op_def
      op_invocation_def with_lists_def has_key_iff Let_def)

lemma carry_write:
  assumes "uci_service exec" and "sc_name s \<noteq> []"
    and "kind = OpAdd \<and> section_state ex (section_ref s) = None \<or> kind = OpSet \<and> section_state ex (section_ref s) \<noteq> None"
  shows "uci_write (with_lists (with_ownership (sc_values s)) (sc_lists s)) (section_state ex (section_ref s))
    (section_state (exec (call_of (write_op kind s)) ex) (section_ref s))"
proof -
  have "kind = OpAdd \<or> kind = OpSet" using assms(3) by blast
  note c = write_call [OF assms(2) this]
  then have "call_ref (call_of (write_op kind s)) = section_ref s" by (simp add: targeted_def)
  with service_write [OF assms(1), of "call_of (write_op kind s)" ex] show ?thesis using c assms(3) by auto
qed

lemma carry_deletes:
  assumes "uci_service exec" and "distinct ks" and "\<forall>k\<in>set ks. k \<noteq> [] \<and> plain k \<and> has_key m0 k"
    and "section_state ex (c, n) = Some m0"
  shows "\<exists>m. section_state (carry exec (map (delete_option_op c n) ks) ex) (c, n) = Some m \<and>
    (\<forall>k. plain k \<longrightarrow> map_of m k = (if k \<in> set ks then None else map_of m0 k))"
  using assms(2-4)
proof (induction ks arbitrary: ex m0)
  case (Cons k ks)
  let ?call = "call_of (delete_option_op c n k)"
  have k: "k \<noteq> []" "plain k" "has_key m0 k" using Cons.prems by auto
  note d = delete_call [OF k(1), of c n]
  then have "call_ref ?call = (c, n)" by (simp add: targeted_def)
  then have "uci_delete_option k m0 (section_state (exec ?call ex) (c, n))"
    using service_delete_option [OF assms(1), of ?call k ex m0] d Cons.prems(3) k by simp
  then obtain m1 where m1: "section_state (exec ?call ex) (c, n) = Some m1"
    and del: "\<And>k'. plain k' \<Longrightarrow> map_of m1 k' = (if k' = k then None else map_of m0 k')"
    by (auto simp: uci_delete_option_def)
  have "\<forall>k'\<in>set ks. k' \<noteq> [] \<and> plain k' \<and> has_key m1 k'"
    using Cons.prems(1,2) del by (auto simp: has_key_def)
  from Cons.IH [OF _ this m1] Cons.prems(1) obtain m where
    "section_state (carry exec (map (delete_option_op c n) ks) (exec ?call ex)) (c, n) = Some m"
    "\<forall>k. plain k \<longrightarrow> map_of m k = (if k \<in> set ks then None else map_of m1 k)" by auto
  with del show ?case by auto
qed simp

section \<open>Sections\<close>

text \<open>
  What the renderer guarantees of a section: a name, maps in the Go sense with no option both a
  string and a list, the marker with its value or not at all, and managed options and lists that
  are proper option names.
\<close>

definition coherent_section :: "uci_section \<Rightarrow> bool" where
  "coherent_section s \<longleftrightarrow>
     sc_name s \<noteq> [] \<and> wf_map (sc_values s) \<and> wf_map (sc_lists s) \<and>
     set (keys (sc_values s)) \<inter> set (keys (sc_lists s)) = {} \<and>
     (map_of (sc_values s) OwnershipTag = None \<or> map_of (sc_values s) OwnershipTag = Some ''1'') \<and>
     OwnershipTag \<notin> set (keys (sc_lists s)) \<and> OwnershipTag \<notin> set (sc_manages s) \<and> distinct (sc_manages s) \<and>
     (\<forall>k\<in>set (sc_manages s) \<union> set (keys (sc_lists s)) \<union> set (keys (sc_values s)). k \<noteq> [] \<and> plain k)"

lemma sent_values:
  assumes "coherent_section s"
  shows "(k, v) \<in> set (sc_values s) \<Longrightarrow> map_of (with_lists (with_ownership (sc_values s)) (sc_lists s)) k = Some (VStr v)"
    and "(k, vs) \<in> set (sc_lists s) \<Longrightarrow> map_of (with_lists (with_ownership (sc_values s)) (sc_lists s)) k = Some (VList vs)"
    and "\<not> has_key (sc_values s) k \<Longrightarrow> \<not> has_key (sc_lists s) k \<Longrightarrow> k \<noteq> OwnershipTag \<Longrightarrow>
      map_of (with_lists (with_ownership (sc_values s)) (sc_lists s)) k = None"
proof -
  have rev: "map_of (rev (sc_lists s)) = map_of (sc_lists s)"
    using assms by (intro ext) (simp add: coherent_section_def wf_map_def map_of_rev_wf)
  note lk = map_of_with_lists [of "with_ownership (sc_values s)" "sc_lists s" k, unfolded rev]
  show "map_of (with_lists (with_ownership (sc_values s)) (sc_lists s)) k = Some (VStr v)" if "(k, v) \<in> set (sc_values s)"
  proof -
    have "k \<in> set (keys (sc_values s))" using that by force
    then have none: "map_of (sc_lists s) k = None" using assms by (auto simp: coherent_section_def map_of_eq_None_iff)
    have some: "map_of (sc_values s) k = Some v" using assms that by (simp add: coherent_section_def map_of_mem)
    show ?thesis
    proof (cases "k = OwnershipTag")
      case True
      with some assms have "v = ''1''" by (simp add: coherent_section_def)
      with True lk none show ?thesis by (simp add: with_ownership_def)
    qed (simp add: lk none some map_of_with_ownership)
  qed
  show "map_of (with_lists (with_ownership (sc_values s)) (sc_lists s)) k = Some (VList vs)" if "(k, vs) \<in> set (sc_lists s)"
    using assms that lk by (simp add: coherent_section_def map_of_mem)
  show "map_of (with_lists (with_ownership (sc_values s)) (sc_lists s)) k = None"
    if "\<not> has_key (sc_values s) k" "\<not> has_key (sc_lists s) k" "k \<noteq> OwnershipTag"
    using that lk by (simp add: has_key_def map_of_with_ownership)
qed

lemma written_matches:
  assumes s: "coherent_section s"
    and w: "uci_write (with_lists (with_ownership (sc_values s)) (sc_lists s)) old (Some m)"
    and gone: "\<And>k m0. k \<in> set (sc_manages s) \<Longrightarrow> \<not> has_key (sc_values s) k \<Longrightarrow> \<not> has_key (sc_lists s) k \<Longrightarrow>
      old = Some m0 \<Longrightarrow> map_of m0 k = None"
  shows "matches s m"
proof -
  let ?vs = "with_lists (with_ownership (sc_values s)) (sc_lists s)"
  have rd: "plain k \<Longrightarrow> map_of ?vs k = Some v \<Longrightarrow> reads m k v" for k v using w by (auto simp: uci_write_def)
  have pl: "plain k" if "k \<in> set (keys (sc_lists s)) \<or> k \<in> set (keys (sc_values s))" for k
    using s that unfolding coherent_section_def by blast
  have keep: "plain k \<Longrightarrow> map_of ?vs k = None \<Longrightarrow> map_of m k = Option.bind old (\<lambda>m0. map_of m0 k)" for k
    using w by (auto simp: uci_write_def)
  have "get_str m k = v" if "(k, v) \<in> set (sc_values s)" for k v
    using rd [OF pl sent_values(1) [OF s that]] that by (force simp: reads_def)
  moreover have "get_str m k = join '' '' vs \<and> \<not> wrong_shape m k" if "(k, vs) \<in> set (sc_lists s)" for k vs
    using rd [OF pl sent_values(2) [OF s that]] that by (force simp: reads_def)
  moreover have "managed_but_unwritten s m = []"
    unfolding managed_Nil
  proof (intro ballI impI, rule ccontr)
    fix k assume k: "k \<in> set (sc_manages s)" "has_key m k" "\<not> (has_key (sc_values s) k \<or> has_key (sc_lists s) k)"
    then have "plain k" "k \<noteq> OwnershipTag" using s by (auto simp: coherent_section_def)
    then have "map_of m k = Option.bind old (\<lambda>m0. map_of m0 k)" using keep sent_values(3) [OF s] k by blast
    with gone k show False by (cases old) (auto simp: has_key_def)
  qed
  ultimately show ?thesis by (auto simp: matches_def list_all_iff)
qed

lemma sent_tag:
  "coherent_section s \<Longrightarrow> map_of (with_lists (with_ownership (sc_values s)) (sc_lists s)) OwnershipTag = Some (VStr ''1'')"
proof -
  assume "coherent_section s"
  then have "map_of (rev (sc_lists s)) OwnershipTag = None"
    unfolding map_of_eq_None_iff by (simp add: coherent_section_def)
  then show ?thesis by (simp add: map_of_with_lists with_ownership_def)
qed

lemma written_tag:
  "coherent_section s \<Longrightarrow> uci_write (with_lists (with_ownership (sc_values s)) (sc_lists s)) old (Some m) \<Longrightarrow>
    get_str m OwnershipTag = ''1''"
proof -
  assume "coherent_section s" "uci_write (with_lists (with_ownership (sc_values s)) (sc_lists s)) old (Some m)"
  moreover have "plain OwnershipTag" by (simp add: plain_def has_prefix_def)
  ultimately have "reads m OwnershipTag (VStr ''1'')" unfolding uci_write_def using sent_tag by blast
  then show ?thesis by (simp add: reads_def)
qed

text \<open>The section is ours or free: the renderer reports anything else as a conflict.\<close>

definition unclaimed_by_others :: "existing \<Rightarrow> sec_ref \<Rightarrow> bool" where
  "unclaimed_by_others ex r \<longleftrightarrow> section_state ex r = None \<or> owned_in ex (fst r) (snd r)"

lemma section_group:
  assumes svc: "uci_service exec" and s: "coherent_section s"
    and st: "section_state ex1 (section_ref s) = section_state ex (section_ref s)"
  shows "\<exists>m. section_state (carry exec (section_ops ex s) ex1) (section_ref s) = Some m \<and> matches s m \<and>
    (unclaimed_by_others ex (section_ref s) \<longrightarrow> get_str m OwnershipTag = ''1'')"
proof (cases "section_state ex (section_ref s)")
  case None
  then have ops: "section_ops ex s = [write_op OpAdd s]"
    by (simp add: section_ops_def section_state_def section_ref_def)
  have "uci_write (with_lists (with_ownership (sc_values s)) (sc_lists s)) None
      (section_state (exec (call_of (write_op OpAdd s)) ex1) (section_ref s))"
    using carry_write [OF svc, of s OpAdd ex1] s st None by (simp add: coherent_section_def)
  then obtain m where m: "section_state (exec (call_of (write_op OpAdd s)) ex1) (section_ref s) = Some m"
    and w: "uci_write (with_lists (with_ownership (sc_values s)) (sc_lists s)) None (Some m)"
    by (auto simp: uci_write_def)
  from written_matches [OF s w] written_tag [OF s w] m show ?thesis unfolding ops by simp
next
  case (Some cur)
  then have ops: "section_ops ex s = (if matches s cur then [] else
      map (delete_option_op (sc_config s) (sc_name s))
        (filter (\<lambda>k. has_key cur k \<and> wrong_shape cur k) (sorted_keys (sc_lists s)) @ managed_but_unwritten s cur)
      @ [write_op OpSet s])"
    by (simp add: section_ops_def section_state_def section_ref_def)
  show ?thesis
  proof (cases "matches s cur")
    case True
    with ops st Some show ?thesis
      by (cases "section_ref s") (simp add: unclaimed_by_others_def owned_in_state)
  next
    case False
    let ?ks = "filter (\<lambda>k. has_key cur k \<and> wrong_shape cur k) (sorted_keys (sc_lists s)) @ managed_but_unwritten s cur"
    let ?ex2 = "carry exec (map (delete_option_op (sc_config s) (sc_name s)) ?ks) ex1"
    have d1: "distinct ?ks"
      using s by (auto simp: coherent_section_def wf_map_def sorted_keys_def managed_but_unwritten_def has_key_iff)
    have d2: "\<forall>k\<in>set ?ks. k \<noteq> [] \<and> plain k \<and> has_key cur k"
      using s by (auto simp: coherent_section_def set_managed)
    have d3: "section_state ex1 (sc_config s, sc_name s) = Some cur"
      using st Some unfolding section_ref_def by simp
    obtain m1 where m1': "section_state ?ex2 (sc_config s, sc_name s) = Some m1"
      and del: "\<forall>k. plain k \<longrightarrow> map_of m1 k = (if k \<in> set ?ks then None else map_of cur k)"
      using carry_deletes [OF svc d1 d2 d3] by (elim exE conjE) (rule that)
    then have m1: "section_state ?ex2 (section_ref s) = Some m1" by (simp only: section_ref_def)
    have w: "uci_write (with_lists (with_ownership (sc_values s)) (sc_lists s)) (Some m1)
        (section_state (exec (call_of (write_op OpSet s)) ?ex2) (section_ref s))"
      using carry_write [OF svc, of s OpSet ?ex2] s m1 by (simp add: coherent_section_def)
    then obtain m where m: "section_state (exec (call_of (write_op OpSet s)) ?ex2) (section_ref s) = Some m"
      by (auto simp: uci_write_def)
    have "matches s m"
    proof (rule written_matches [OF s w [unfolded m]])
      fix k m0 assume k: "k \<in> set (sc_manages s)" "\<not> has_key (sc_values s) k" "\<not> has_key (sc_lists s) k" "Some m1 = Some m0"
      then have "plain k" using s by (auto simp: coherent_section_def)
      with del have lk: "map_of m1 k = (if k \<in> set ?ks then None else map_of cur k)" by blast
      have "has_key cur k \<Longrightarrow> k \<in> set ?ks" using k by (auto simp: set_managed)
      then have "k \<notin> set ?ks \<Longrightarrow> map_of cur k = None" unfolding has_key_def by blast
      with lk have "map_of m1 k = None" by (cases "k \<in> set ?ks") (simp_all only: if_True if_False not_False_eq_True simp_thms)
      with k(4) show "map_of m0 k = None" by simp
    qed
    with m ops False written_tag [OF s w [unfolded m]] show ?thesis by simp
  qed
qed

section \<open>Patches\<close>

definition coherent_patch :: "patch \<Rightarrow> bool" where
  "coherent_patch p \<longleftrightarrow>
     pt_section p \<noteq> [] \<and> wf_map (pt_values p) \<and> distinct (pt_deletes p) \<and>
     set (pt_deletes p) \<inter> set (keys (pt_values p)) = {} \<and>
     (\<forall>k\<in>set (pt_deletes p) \<union> set (keys (pt_values p)). k \<noteq> [] \<and> (forbidden_patch_option k \<or> plain k))"

text \<open>What a patched section looks like: nothing left to delete or to change.\<close>

definition patch_done :: "patch \<Rightarrow> device_section \<Rightarrow> bool" where
  "patch_done p m \<longleftrightarrow>
     (\<forall>k\<in>set (pt_deletes p). forbidden_patch_option k \<or> \<not> has_key m k) \<and>
     (\<forall>(k, v)\<in>set (pt_values p). forbidden_patch_option k \<or> get_str m k = v)"

lemma patch_done_ops: "section_state ex (patch_ref p) = Some m \<Longrightarrow> patch_done p m \<Longrightarrow> patch_ops ex p = []"
  by (fastforce simp: patch_ops_def section_state_def patch_ref_def patch_done_def filter_empty_conv Let_def)

lemma map_of_VStr: "map_of (map (\<lambda>(k, v). (k, VStr v)) vs) k = map_option VStr (map_of vs k)"
  by (induction vs) auto

lemma patch_group:
  assumes svc: "uci_service exec" and p: "coherent_patch p"
    and st: "section_state ex1 (patch_ref p) = section_state ex (patch_ref p)" "section_state ex (patch_ref p) = Some cur"
  shows "\<exists>m. section_state (carry exec (patch_ops ex p) ex1) (patch_ref p) = Some m \<and> patch_done p m \<and>
    map_of m OwnershipTag = map_of cur OwnershipTag"
proof -
  let ?c = "pt_config p" and ?n = "pt_section p"
  let ?ks = "filter (\<lambda>k. \<not> forbidden_patch_option k \<and> has_key cur k) (sort (pt_deletes p))"
  let ?vs = "filter (\<lambda>(k, v). \<not> (forbidden_patch_option k \<or> get_str cur k = v)) (pt_values p)"
  let ?ex2 = "carry exec (map (delete_option_op ?c ?n) ?ks) ex1"
  have ops: "patch_ops ex p = map (delete_option_op ?c ?n) ?ks @ (if ?vs \<noteq> [] then [patch_op ?c ?n ?vs] else [])"
    using st(2) by (simp add: patch_ops_def section_state_def patch_ref_def patch_op_def Let_def)
  have "distinct ?ks" "\<forall>k\<in>set ?ks. k \<noteq> [] \<and> plain k \<and> has_key cur k" using p by (auto simp: coherent_patch_def)
  from carry_deletes [OF svc this, of ex1 ?c ?n] st
  obtain m1 where m1: "section_state ?ex2 (patch_ref p) = Some m1"
    and del: "\<And>k. plain k \<Longrightarrow> map_of m1 k = (if k \<in> set ?ks then None else map_of cur k)"
    unfolding patch_ref_def by auto
  have tag: "plain OwnershipTag" "forbidden_patch_option OwnershipTag"
    by (simp_all add: plain_def has_prefix_def forbidden_patch_option_def)
  have unchanged: "map_of m1 k = map_of cur k" if "plain k" "k \<notin> set (pt_deletes p) \<or> forbidden_patch_option k" for k
    using del [OF that(1)] that(2) by auto
  have gone: "\<not> has_key m1 k" if "k \<in> set (pt_deletes p)" "\<not> forbidden_patch_option k" for k
    using del [of k] that p by (auto simp: coherent_patch_def has_key_def)
  define m where "m = (if ?vs \<noteq> [] then the (section_state (exec (call_of (patch_op ?c ?n ?vs)) ?ex2) (patch_ref p)) else m1)"
  have m: "section_state (carry exec (patch_ops ex p) ex1) (patch_ref p) = Some m \<and>
    (\<forall>k v. (k, v) \<in> set ?vs \<longrightarrow> get_str m k = v) \<and> (\<forall>k. plain k \<longrightarrow> k \<notin> set (keys ?vs) \<longrightarrow> map_of m k = map_of m1 k)"
  proof (cases "?vs = []")
    case True
    with m1 ops show ?thesis by (simp add: m_def)
  next
    case False
    have "OwnershipTag \<notin> set (keys ?vs)" using tag(2) by auto
    note c = patch_call [OF _ False this, of ?n ?c]
    have ne: "?n \<noteq> []" using p by (simp add: coherent_patch_def)
    have "call_ref (call_of (patch_op ?c ?n ?vs)) = patch_ref p" using c [OF ne] by (simp add: targeted_def patch_ref_def)
    then have "uci_write (map (\<lambda>(k, v). (k, VStr v)) ?vs) (Some m1)
        (section_state (exec (call_of (patch_op ?c ?n ?vs)) ?ex2) (patch_ref p))"
      using service_write [OF svc, of "call_of (patch_op ?c ?n ?vs)" ?ex2] c [OF ne] m1 by simp
    then have w: "section_state (exec (call_of (patch_op ?c ?n ?vs)) ?ex2) (patch_ref p) = Some m"
      "\<And>k v. plain k \<Longrightarrow> map_of ?vs k = Some v \<Longrightarrow> reads m k (VStr v)"
      "\<And>k. plain k \<Longrightarrow> map_of ?vs k = None \<Longrightarrow> map_of m k = map_of m1 k"
      using False unfolding uci_write_def map_of_VStr by (auto simp: m_def)
    have "wf_map ?vs" using p by (simp add: coherent_patch_def wf_map_filter)
    have plain_vs: "plain k" if "(k, v) \<in> set ?vs" for k v
    proof -
      have "k \<in> set (keys (pt_values p))" "\<not> forbidden_patch_option k" using that by force+
      then show ?thesis using p unfolding coherent_patch_def by blast
    qed
    then have "get_str m k = v" if "(k, v) \<in> set ?vs" for k v
    proof -
      have "map_of ?vs k = Some v" using that map_of_mem [OF \<open>wf_map ?vs\<close>] by blast
      from w(2) [OF plain_vs [OF that] this] show ?thesis by (simp add: reads_def)
    qed
    moreover have "map_of m k = map_of m1 k" if "plain k" "k \<notin> set (keys ?vs)" for k
      using w(3) [OF that(1)] that(2) by (simp add: map_of_eq_None_iff)
    ultimately show ?thesis using w(1) ops False by simp
  qed
  have "\<not> has_key m k" if k: "k \<in> set (pt_deletes p)" "\<not> forbidden_patch_option k" for k
  proof -
    have "plain k" "k \<notin> set (keys ?vs)" using p k by (auto simp: coherent_patch_def)
    with m gone [OF k] show ?thesis by (simp add: has_key_def)
  qed
  moreover have "get_str m k = v" if kv: "(k, v) \<in> set (pt_values p)" "\<not> forbidden_patch_option k" for k v
  proof (cases "get_str cur k = v")
    case False
    with kv m show ?thesis by simp
  next
    case True
    have k: "k \<in> set (keys (pt_values p))" using kv(1) by force
    with kv(2) p have "plain k" "k \<notin> set (pt_deletes p)" by (auto simp: coherent_patch_def)
    moreover have "k \<notin> set (keys ?vs)"
    proof
      assume "k \<in> set (keys ?vs)"
      then obtain v' where v': "(k, v') \<in> set (pt_values p)" "get_str cur k \<noteq> v'" by auto
      with kv(1) p have "v' = v" by (simp add: coherent_patch_def map_of_mem)
      with v' True show False by simp
    qed
    ultimately have "map_of m k = map_of cur k" using m unchanged by simp
    with True show ?thesis by (simp add: get_str_def)
  qed
  moreover have "map_of m OwnershipTag = map_of cur OwnershipTag"
  proof -
    have "OwnershipTag \<notin> set (keys ?vs)" using tag(2) by auto
    then have "map_of m OwnershipTag = map_of m1 OwnershipTag" using m tag(1) by blast
    then show ?thesis using unchanged [OF tag(1)] tag(2) by simp
  qed
  ultimately show ?thesis using m by (auto simp: patch_done_def)
qed

section \<open>Convergence\<close>

text \<open>A plan is a sequence of groups of operations, one group per section of the device.\<close>

lemma group_ops_apart:
  assumes tg: "\<forall>(r, g)\<in>set gs. \<forall>op\<in>set g. targeted op \<and> op_ref op = r"
    and sub: "set hs \<subseteq> set gs" and r: "r \<notin> fst ` set hs"
  shows "\<forall>op\<in>set (concat (map snd hs)). targeted op \<and> op_ref op \<noteq> r"
proof
  fix op assume "op \<in> set (concat (map snd hs))"
  then obtain r' g where g: "(r', g) \<in> set hs" "op \<in> set g" by auto
  with tg sub have "targeted op" "op_ref op = r'" by blast+
  moreover have "r' \<noteq> r" using g(1) r by force
  ultimately show "targeted op \<and> op_ref op \<noteq> r" by simp
qed

lemma carry_groups:
  assumes svc: "uci_service exec" and tg: "\<forall>(r, g)\<in>set gs. \<forall>op\<in>set g. targeted op \<and> op_ref op = r"
    and d: "distinct (map fst gs)" and "(r, g) \<in> set gs"
  shows "\<exists>ex1. section_state ex1 r = section_state ex r \<and>
    section_state (carry exec (concat (map snd gs)) ex) r = section_state (carry exec g ex1) r"
proof -
  obtain as bs where gs: "gs = as @ (r, g) # bs" using assms(4) by (meson split_list)
  have other: "\<forall>op\<in>set (concat (map snd hs)). targeted op \<and> op_ref op \<noteq> r"
    if "set hs \<subseteq> set gs" "r \<notin> fst ` set hs" for hs
    by (rule group_ops_apart [OF tg that])
  have "section_state (carry exec (concat (map snd as)) ex) r = section_state ex r"
    by (rule carry_other [OF svc other]) (use d gs in auto)
  moreover have "section_state (carry exec (concat (map snd bs)) ex2) r = section_state ex2 r" for ex2
    by (rule carry_other [OF svc other]) (use d gs in auto)
  ultimately show ?thesis unfolding gs by auto
qed

lemma carry_untouched:
  assumes svc: "uci_service exec" and tg: "\<forall>(r, g)\<in>set gs. \<forall>op\<in>set g. targeted op \<and> op_ref op = r"
    and "r \<notin> fst ` set gs"
  shows "section_state (carry exec (concat (map snd gs)) ex) r = section_state ex r"
  by (rule carry_other [OF svc group_ops_apart [OF tg order_refl assms(3)]])

definition plan_groups :: "doc \<Rightarrow> existing \<Rightarrow> (sec_ref \<times> op list) list" where
  "plan_groups d ex =
     map (\<lambda>s. (section_ref s, section_ops ex s)) (sorted_sections (d_sections d))
     @ map (\<lambda>p. (patch_ref p, patch_ops ex p)) (sorted_patches (d_patches d))
     @ map (\<lambda>r. (r, [blank_op OpDelete (fst r) (snd r)])) (sort (stale_sections d ex))"

lemma plan_groups_ops: "concat (map snd (plan_groups d ex)) = pl_ops (doc_plan d ex) @ prune d ex"
proof -
  have "concat (map snd (map (\<lambda>r. (r, [f r])) xs)) = map f xs" for f :: "sec_ref \<Rightarrow> op" and xs
    by (induction xs) auto
  then show ?thesis
    by (simp add: plan_groups_def doc_plan_def prune_def o_def case_prod_unfold)
qed

definition wf_existing :: "existing \<Rightarrow> bool" where
  "wf_existing ex \<longleftrightarrow> wf_map (ex_configs ex) \<and> list_all (\<lambda>(c, ss). wf_map ss) (ex_configs ex)"

lemma distinct_stale: "wf_existing ex \<Longrightarrow> distinct (stale_sections d ex)"
proof -
  assume wf: "wf_existing ex"
  let ?g = "\<lambda>(config, sections). if blind d config then []
    else map (Pair config) (filter (\<lambda>name. \<not> ((config, name) \<in> set (map section_ref (d_sections d)) \<or>
       \<not> owned_in ex config name) \<and> \<not> retained d config name) (keys sections))"
  have fstg: "fst ` set (?g e) \<subseteq> {fst e}" for e by (cases e) auto
  have "distinct (concat (map ?g cs))" if "distinct (keys cs)" "list_all (\<lambda>(c, ss). wf_map ss) cs" for cs
    using that
  proof (induction cs)
    case (Cons e cs)
    have "distinct (?g e)" using Cons.prems(2) by (cases e) (simp add: distinct_map inj_on_def wf_map_def)
    moreover have "set (?g e) \<inter> set (concat (map ?g cs)) = {}"
    proof (rule ccontr)
      assume "set (?g e) \<inter> set (concat (map ?g cs)) \<noteq> {}"
      then obtain r e' where r: "r \<in> set (?g e)" "e' \<in> set cs" "r \<in> set (?g e')"
        unfolding set_concat set_map by blast
      have "fst r = fst e" "fst r = fst e'" using fstg r(1,3) by blast+
      with Cons.prems(1) r(2) show False by (metis distinct.simps(2) image_eqI list.set_map list.simps(9))
    qed
    ultimately show ?case using Cons unfolding list.map concat.simps distinct_append by simp
  qed simp
  with wf show ?thesis unfolding stale_sections_def wf_existing_def wf_map_def by blast
qed

text \<open>The document's own consistency: one writer per section, patches only on foreign sections.\<close>

definition coherent_doc :: "doc \<Rightarrow> existing \<Rightarrow> bool" where
  "coherent_doc d ex \<longleftrightarrow>
     distinct (map section_ref (d_sections d) @ map patch_ref (d_patches d)) \<and>
     (\<forall>s\<in>set (d_sections d). coherent_section s) \<and>
     (\<forall>p\<in>set (d_patches d). coherent_patch p \<and> \<not> owned_in ex (pt_config p) (pt_section p))"

lemma plan_groups_targeted:
  assumes c: "coherent_doc d ex" and "(r, g) \<in> set (plan_groups d ex)" and "op \<in> set g"
  shows "targeted op \<and> op_ref op = r"
proof -
  consider (sec) s where "s \<in> set (d_sections d)" "r = section_ref s" "op \<in> set (section_ops ex s)"
    | (pat) p where "p \<in> set (d_patches d)" "r = patch_ref p" "op \<in> set (patch_ops ex p)"
    | (prn) "op = blank_op OpDelete (fst r) (snd r)"
    using assms(2,3) by (auto simp: plan_groups_def sorted_sections_def sorted_patches_def)
  then show ?thesis
  proof cases
    case sec
    then have s: "coherent_section s" using c by (simp add: coherent_doc_def)
    then have ne: "sc_name s \<noteq> []" by (simp add: coherent_section_def)
    from section_ops_cases [OF sec(3)] show ?thesis
    proof (elim disjE exE)
      fix k m assume k: "op = delete_option_op (sc_config s) (sc_name s) k \<and> section_state ex (section_ref s) = Some m \<and>
        has_key m k \<and> (k \<in> set (keys (sc_lists s)) \<or> k \<in> set (sc_manages s))"
      then have "k \<noteq> []" using s unfolding coherent_section_def by blast
      with k delete_call sec(2) show ?thesis by (auto simp: section_ref_def)
    qed (use write_call [OF ne] sec(2) in auto)
  next
    case pat
    then have p: "coherent_patch p" using c by (simp add: coherent_doc_def)
    from patch_ops_cases [OF pat(3)] obtain m where "patch_delete p m op \<or> patch_set p op" by blast
    then show ?thesis
    proof
      assume "patch_delete p m op"
      then obtain k where k: "op = delete_option_op (pt_config p) (pt_section p) k" "k \<in> set (pt_deletes p)"
        by (auto simp: patch_delete_def)
      then have "k \<noteq> []" using p unfolding coherent_patch_def by blast
      with k delete_call pat(2) show ?thesis by (simp add: patch_ref_def)
    next
      assume "patch_set p op"
      then obtain vs where op: "op = patch_op (pt_config p) (pt_section p) vs" and vs: "vs \<noteq> []"
        "\<forall>k\<in>set (keys vs). \<not> forbidden_patch_option k"
        by (auto simp: patch_set_def patch_op_def)
      have "OwnershipTag \<notin> set (keys vs)" using vs(2) by (auto simp: forbidden_patch_option_def)
      with patch_call [OF _ vs(1)] p op pat(2) show ?thesis by (simp add: coherent_patch_def patch_ref_def)
    qed
  next
    case prn
    with prune_call [of "fst r" "snd r"] show ?thesis by simp
  qed
qed

lemma plan_groups_distinct:
  assumes "coherent_doc d ex" and "wf_existing ex"
  shows "distinct (map fst (plan_groups d ex))"
proof -
  have "set (stale_sections d ex) \<inter> section_ref ` set (d_sections d) = {}"
    by (auto simp: set_stale decided_stale_def)
  moreover have "set (stale_sections d ex) \<inter> patch_ref ` set (d_patches d) = {}"
    using assms(1) by (auto simp: set_stale decided_stale_def coherent_doc_def patch_ref_def)
  moreover have "map fst (plan_groups d ex) = map section_ref (sorted_sections (d_sections d))
      @ map patch_ref (sorted_patches (d_patches d)) @ sort (stale_sections d ex)"
    by (simp add: plan_groups_def o_def)
  moreover have "distinct (map section_ref (sorted_sections (d_sections d)))"
    "distinct (map patch_ref (sorted_patches (d_patches d)))"
    "section_ref ` set (d_sections d) \<inter> patch_ref ` set (d_patches d) = {}"
    using assms(1) by (simp_all add: coherent_doc_def sorted_sections_def sorted_patches_def distinct_map)
  ultimately show ?thesis using distinct_stale [OF assms(2), of d]
    by (simp add: sorted_sections_def sorted_patches_def Int_Un_distrib Int_commute)
qed

text \<open>The state a carried out plan leaves, section by section.\<close>

definition after_plan :: "(invocation \<Rightarrow> existing \<Rightarrow> existing) \<Rightarrow> doc \<Rightarrow> existing \<Rightarrow> existing" where
  "after_plan exec d ex = carry exec (pl_ops (doc_plan d ex) @ prune d ex) ex"

definition carried :: "(invocation \<Rightarrow> existing \<Rightarrow> existing) \<Rightarrow> doc \<Rightarrow> existing \<Rightarrow> bool" where
  "carried exec d ex \<longleftrightarrow> uci_service exec \<and> wf_existing ex \<and> coherent_doc d ex"

lemma carriedD:
  assumes "carried exec d ex"
  shows "uci_service exec" and "wf_existing ex" and "coherent_doc d ex"
  using assms by (simp_all add: carried_def)

lemma groups_targeted: "coherent_doc d ex \<Longrightarrow> \<forall>(r, g)\<in>set (plan_groups d ex). \<forall>op\<in>set g. targeted op \<and> op_ref op = r"
  using plan_groups_targeted by blast

lemma after_group:
  "carried exec d ex \<Longrightarrow> (r, g) \<in> set (plan_groups d ex) \<Longrightarrow> \<exists>ex1. section_state ex1 r = section_state ex r \<and>
    section_state (after_plan exec d ex) r = section_state (carry exec g ex1) r"
  unfolding after_plan_def plan_groups_ops [symmetric]
  by (rule carry_groups [OF carriedD(1) groups_targeted [OF carriedD(3)] plan_groups_distinct [OF carriedD(3,2)]])

lemma after_section:
  assumes c: "carried exec d ex" and s: "s \<in> set (d_sections d)"
  shows "\<exists>m. section_state (after_plan exec d ex) (section_ref s) = Some m \<and> matches s m \<and>
    (unclaimed_by_others ex (section_ref s) \<longrightarrow> get_str m OwnershipTag = ''1'')"
proof -
  have "(section_ref s, section_ops ex s) \<in> set (plan_groups d ex)"
    using s by (auto simp: plan_groups_def sorted_sections_def)
  from after_group [OF c this] obtain ex1 where "section_state ex1 (section_ref s) = section_state ex (section_ref s)"
    "section_state (after_plan exec d ex) (section_ref s) = section_state (carry exec (section_ops ex s) ex1) (section_ref s)"
    by blast
  moreover have "coherent_section s" using carriedD(3) [OF c] s by (simp add: coherent_doc_def)
  ultimately show ?thesis using section_group [OF carriedD(1) [OF c]] by simp
qed

lemma after_patch:
  assumes c: "carried exec d ex" and p: "p \<in> set (d_patches d)"
  shows "patch_ops (after_plan exec d ex) p = [] \<and> \<not> owned_in (after_plan exec d ex) (pt_config p) (pt_section p)"
proof -
  have "(patch_ref p, patch_ops ex p) \<in> set (plan_groups d ex)" using p by (auto simp: plan_groups_def sorted_patches_def)
  from after_group [OF c this] obtain ex1 where st: "section_state ex1 (patch_ref p) = section_state ex (patch_ref p)"
    and fin: "section_state (after_plan exec d ex) (patch_ref p) = section_state (carry exec (patch_ops ex p) ex1) (patch_ref p)"
    by blast
  have cp: "coherent_patch p" "\<not> owned_in ex (pt_config p) (pt_section p)"
    using carriedD(3) [OF c] p by (simp_all add: coherent_doc_def)
  show ?thesis
  proof (cases "section_state ex (patch_ref p)")
    case None
    then have "patch_ops ex p = []" by (simp add: patch_ops_def section_state_def patch_ref_def)
    with fin st None have "section_state (after_plan exec d ex) (patch_ref p) = None" by simp
    then show ?thesis by (simp add: patch_ops_def section_state_def patch_ref_def owned_in_state)
  next
    case (Some cur)
    with patch_group [OF carriedD(1) [OF c] cp(1) st] fin obtain m where m: "section_state (after_plan exec d ex) (patch_ref p) = Some m"
      "patch_done p m" "map_of m OwnershipTag = map_of cur OwnershipTag" by auto
    with cp(2) Some have "\<not> owned_in (after_plan exec d ex) (pt_config p) (pt_section p)"
      by (simp add: owned_in_state patch_ref_def get_str_def)
    with patch_done_ops [OF m(1,2)] show ?thesis by blast
  qed
qed

lemma after_stale:
  assumes c: "carried exec d ex" and st: "decided_stale d ex r"
  shows "section_state (after_plan exec d ex) r = None"
proof -
  let ?call = "call_of (blank_op OpDelete (fst r) (snd r))"
  have "(r, [blank_op OpDelete (fst r) (snd r)]) \<in> set (plan_groups d ex)"
    using st by (simp add: plan_groups_def set_stale)
  from after_group [OF c this] obtain ex1 where
    "section_state (after_plan exec d ex) r = section_state (exec ?call ex1) r" by auto
  moreover have "section_state (exec ?call ex1) r = None"
    using service_delete [OF carriedD(1) [OF c], of ?call ex1] prune_call [of "fst r" "snd r"] by (simp add: targeted_def)
  ultimately show ?thesis by simp
qed

lemma after_other:
  assumes c: "carried exec d ex" and "r \<notin> section_ref ` set (d_sections d)" and "r \<notin> patch_ref ` set (d_patches d)" and "\<not> decided_stale d ex r"
  shows "section_state (after_plan exec d ex) r = section_state ex r"
  unfolding after_plan_def plan_groups_ops [symmetric]
proof (rule carry_untouched [OF carriedD(1) [OF c] groups_targeted [OF carriedD(3) [OF c]]])
  show "r \<notin> fst ` set (plan_groups d ex)"
    using assms(2-4) by (auto simp: plan_groups_def sorted_sections_def sorted_patches_def set_stale)
qed

lemma after_owned:
  assumes c: "carried exec d ex" and own: "owned_in (after_plan exec d ex) c' n"
    and nr: "(c', n) \<notin> section_ref ` set (d_sections d)"
  shows "preserved d ex c' n"
proof -
  have "\<not> decided_stale d ex (c', n)" using own after_stale [OF c] by (auto simp: owned_in_state)
  moreover have "(c', n) \<notin> patch_ref ` set (d_patches d)" using own after_patch [OF c] by (auto simp: patch_ref_def)
  ultimately have "owned_in ex c' n" "\<not> decided_stale d ex (c', n)"
    using own nr after_other [OF c] by (simp_all add: owned_in_state)
  with nr show ?thesis
    by (auto simp: decided_stale_def preserved_def list_ex_iff section_ref_def)
qed

lemma after_preserved:
  assumes c: "carried exec d ex" and p: "preserved d ex c' n"
  shows "owned_in (after_plan exec d ex) c' n"
proof -
  have "(c', n) \<notin> section_ref ` set (d_sections d)" "owned_in ex c' n" "\<not> decided_stale d ex (c', n)"
    using p by (auto simp: preserved_def decided_stale_def section_ref_def list_ex_iff split: if_splits)
  moreover from this carriedD(3) [OF c] have "(c', n) \<notin> patch_ref ` set (d_patches d)"
    by (auto simp: coherent_doc_def patch_ref_def)
  ultimately show ?thesis using after_other [OF c] by (simp add: owned_in_state)
qed

lemma after_plans_nothing:
  assumes c: "carried exec d ex"
  shows "pl_ops (doc_plan d (after_plan exec d ex)) = []"
proof -
  have "section_ops (after_plan exec d ex) s = []" if "s \<in> set (d_sections d)" for s
    using after_section [OF c that] by (auto simp: section_ops_def section_state_def section_ref_def)
  then show ?thesis using after_patch [OF c] by (simp add: doc_plan_def sorted_sections_def sorted_patches_def)
qed

lemma after_prunes_nothing:
  assumes c: "carried exec d ex"
  shows "prune d (after_plan exec d ex) = []"
proof -
  have "decided_stale d (after_plan exec d ex) r \<Longrightarrow> False" for r
    using after_owned [OF c, of "fst r" "snd r"] by (auto simp: decided_stale_def preserved_def split: if_splits)
  then have "{r. decided_stale d (after_plan exec d ex) r} = {}" by blast
  then have "set (prune d (after_plan exec d ex)) = {}" unfolding set_prune by blast
  then show ?thesis by simp
qed

lemma plan_builds:
  assumes "coherent_doc d ex"
  shows "build_invocations (pl_ops (doc_plan d ex) @ prune d ex) =
    Inr (map call_of (pl_ops (doc_plan d ex) @ prune d ex))"
proof -
  have "\<forall>op\<in>set (concat (map snd (plan_groups d ex))). targeted op" using groups_targeted [OF assms] by fastforce
  then show ?thesis unfolding plan_groups_ops build_invocations_Inr list_all2_map2 list_all2_same
    by (auto simp: targeted_def)
qed

text \<open>
  C14. Applying converges. On a device that keeps the documented UCI behaviour, every plan of a
  coherent document stages, and once its calls have been carried out the same document plans no
  operation and prunes no section: a second preview of an applied document is empty.
\<close>

theorem plan_converges:
  assumes "uci_service exec" and "wf_existing ex" and "coherent_doc d ex"
  shows "\<exists>calls. build_invocations (pl_ops (doc_plan d ex) @ prune d ex) = Inr calls \<and>
    (let ex' = fold exec calls ex in pl_ops (doc_plan d ex') = [] \<and> prune d ex' = [])"
proof -
  have c: "carried exec d ex" using assms by (simp add: carried_def)
  show ?thesis using plan_builds [OF assms(3)] after_plans_nothing [OF c] after_prunes_nothing [OF c]
    unfolding after_plan_def carry_def by (simp add: Let_def)
qed

text \<open>A device that keeps the behaviour: it merges the sent options and records no list names.\<close>

definition flat_value :: "uci_value \<Rightarrow> string" where
  "flat_value v = (case v of VStr t \<Rightarrow> t | VList ts \<Rightarrow> join '' '' ts)"

definition demo_merge :: "uci_value gomap \<Rightarrow> device_section \<Rightarrow> device_section" where
  "demo_merge vs m = del ListsKey (map (\<lambda>(k, v). (k, flat_value v)) vs @ m)"

definition demo_uci :: "invocation \<Rightarrow> existing \<Rightarrow> existing" where
  "demo_uci call ex =
     (let (c, n) = call_ref call; secs = in_config ex c;
          old = (case map_of secs n of Some m \<Rightarrow> m | None \<Rightarrow> []);
          secs' = (if inv_method call = OpDelete
                   then (case inv_option call of None \<Rightarrow> del n secs | Some k \<Rightarrow> put n (del k old) secs)
                   else put n (demo_merge (call_values call) old) secs)
      in \<lparr>ex_configs = put c secs' (ex_configs ex)\<rparr>)"

lemma demo_uci_state:
  "section_state (demo_uci call ex) r =
     (if r \<noteq> call_ref call then section_state ex r
      else let old = (case section_state ex r of Some m \<Rightarrow> m | None \<Rightarrow> [])
      in if inv_method call = OpDelete
         then (case inv_option call of None \<Rightarrow> None | Some k \<Rightarrow> Some (del k old))
         else Some (demo_merge (call_values call) old))"
  by (cases r) (auto simp: demo_uci_def section_state_def in_config_def Let_def split: prod.splits option.splits)

lemma map_of_demo_merge:
  "plain k \<Longrightarrow> map_of (demo_merge vs m) k = (case map_of vs k of Some v \<Rightarrow> Some (flat_value v) | None \<Rightarrow> map_of m k)"
proof -
  have flat: "map_of (map (\<lambda>(k, v). (k, flat_value v)) vs) k = map_option flat_value (map_of vs k)"
    by (induction vs) auto
  assume "plain k"
  then have "k \<noteq> ListsKey" by (auto simp: plain_def has_prefix_def ListsKey_def)
  then show ?thesis by (simp add: demo_merge_def map_add_def flat split: option.split)
qed

lemma demo_uci_service: "uci_service demo_uci"
proof -
  have "\<not> wrong_shape (demo_merge vs m) k" for vs m k
    by (simp add: stored_as_list_known demo_merge_def)
  then have "uci_write vs None (Some (demo_merge vs []))" "uci_write vs (Some m) (Some (demo_merge vs m))" for vs m
    by (auto simp: uci_write_def reads_def map_of_demo_merge get_str_def flat_value_def split: option.splits uci_value.splits)
  then show ?thesis
    by (auto simp: uci_service_def demo_uci_state uci_delete_option_def Let_def split: option.splits)
qed

lemma demo_coherent: "coherent_doc demo_doc demo_existing" and demo_wf: "wf_existing demo_existing"
proof -
  have "plain ''proto''" "plain ''dns''" "plain ''mtu''" "plain ''oonfeewrt''" "plain ''ip6assign''" "plain ''ip6class''"
    "\<not> owned_in demo_existing ''network'' ''lan''"
    by code_simp+
  then show "coherent_doc demo_doc demo_existing"
    by (auto simp: coherent_doc_def coherent_section_def coherent_patch_def demo_doc_def demo_section_def demo_patch_def
        section_ref_def patch_ref_def wf_map_def)
  show "wf_existing demo_existing" by (simp add: wf_existing_def wf_map_def demo_existing_def)
qed

theorem plan_converges_witness:
  "length (pl_ops (doc_plan demo_doc demo_existing) @ prune demo_doc demo_existing) = 6 \<and>
   (\<exists>ex'. pl_ops (doc_plan demo_doc ex') = [] \<and> prune demo_doc ex' = [])"
proof
  show "length (pl_ops (doc_plan demo_doc demo_existing) @ prune demo_doc demo_existing) = 6" by code_simp
  from plan_converges [OF demo_uci_service demo_wf demo_coherent]
  show "\<exists>ex'. pl_ops (doc_plan demo_doc ex') = [] \<and> prune demo_doc ex' = []" by (auto simp: Let_def)
qed

end
