(* ===== verification/ReconcileClaims.thy ===== *)
theory ReconcileClaims
  imports Reconcile PlanConverge
begin

text \<open>
  Properties of the reconciler's reading side: flattening keeps the shape of options, drift is
  reported exactly, secrets never leave the drift report, and the ownership record is the set of
  sections the controller owns on the device after an apply.
\<close>

section \<open>Flattening\<close>

lemma map_of_flat: "map_of (map (\<lambda>(k, v). (k, flat_option v)) vals) k = map_option flat_option (map_of vals k)"
  by (induction vals) auto

text \<open>
  C21. Flattening loses no shape: of every option of a section the snapshot still tells the joined
  value, and \<open>StoredAsList\<close> tells whether the device held it as a list, always as known. List
  options need names without white space, which UCI requires of every name.
\<close>

theorem flatten_keeps_shape:
  assumes "wf_map vals" and "map_of vals k = Some v" and "k \<noteq> ListsKey"
    and "\<forall>(n, w)\<in>set vals. is_list w \<longrightarrow> n \<noteq> [] \<and> (\<forall>x\<in>set n. \<not> is_space x)"
  shows "get_str (flatten vals) k = flat_option v \<and> stored_as_list (flatten vals) k = (is_list v, True)"
proof
  show "get_str (flatten vals) k = flat_option v"
    using assms(2,3) by (simp add: flatten_def get_str_def map_of_flat)
  let ?names = "sort (keys (filter (\<lambda>e. is_list (snd e)) vals))"
  have "\<forall>p\<in>set ?names. p \<noteq> [] \<and> (\<forall>x\<in>set p. \<not> is_space x)" using assms(4) by auto
  then have "GoText.fields (join '' '' ?names) = ?names" by (rule fields_join)
  moreover have "k \<in> set ?names \<longleftrightarrow> (\<exists>w. (k, w) \<in> set vals \<and> is_list w)" by force
  then have "k \<in> set ?names \<longleftrightarrow> is_list v" using assms(2) unfolding map_of_mem [OF assms(1)] by simp
  ultimately show "stored_as_list (flatten vals) k = (is_list v, True)"
    by (simp add: stored_as_list_def flatten_def)
qed

definition demo_section_json :: "json gomap" where
  "demo_section_json = [(''.anonymous'', JBool False), (''.index'', JInt 3), (''ports'', JList [JStr ''lan1:t'', JStr ''lan2:t''])]"

theorem flatten_keeps_shape_witness:
  "get_str (flatten demo_section_json) ''ports'' = ''lan1:t lan2:t'' \<and>
   stored_as_list (flatten demo_section_json) ''ports'' = (True, True)"
proof -
  have "wf_map demo_section_json"
    "map_of demo_section_json ''ports'' = Some (JList [JStr ''lan1:t'', JStr ''lan2:t''])"
    "''ports'' \<noteq> ListsKey" "flat_option (JList [JStr ''lan1:t'', JStr ''lan2:t'']) = ''lan1:t lan2:t''"
    "is_list (JList [JStr ''lan1:t'', JStr ''lan2:t''])"
    by (simp_all add: demo_section_json_def wf_map_def ListsKey_def flat_option_def is_list_def)
  moreover have "\<forall>(n, w)\<in>set demo_section_json. is_list w \<longrightarrow> n \<noteq> [] \<and> (\<forall>x\<in>set n. \<not> is_space x)"
    by (simp add: demo_section_json_def is_list_def is_space_def)
  ultimately show ?thesis using flatten_keeps_shape [of demo_section_json "''ports''"] by simp
qed

section \<open>Drift\<close>

definition expected_value :: "uci_section \<Rightarrow> string \<Rightarrow> string" where
  "expected_value s k = (case map_of (sc_lists s) k of Some v \<Rightarrow> join '' '' v | None \<Rightarrow> get_str (sc_values s) k)"

lemma drift_of_option_in:
  "dr \<in> set (drift_of_option s cur had ours k) \<longleftrightarrow>
    dr = new_drift (sc_config s) (sc_name s) k (get_str ours k) (get_str cur k) \<and>
    (if has_key cur k then get_str cur k \<noteq> get_str ours k else had)"
  by (auto simp: drift_of_option_def has_key_def get_str_def split: option.splits)

lemma in_concat_map: "x \<in> set (concat (map f ks)) \<longleftrightarrow> (\<exists>k. k \<in> set ks \<and> x \<in> set (f k))"
  by auto

lemma drift_of_section_in:
  "dr \<in> set (drift_of_section sha ex applied s) \<longleftrightarrow>
    (\<exists>cur k. section_state ex (section_ref s) = Some cur \<and> get_str cur OwnershipTag = ''1'' \<and>
       (let h = map_of applied (sc_config s @ ''.'' @ sc_name s); ours = section_writes s in
         (h = None \<or> h = Some (section_hash sha s)) \<and> k \<in> set (keys ours) \<and>
         (if has_key cur k then get_str cur k \<noteq> get_str ours k else h \<noteq> None) \<and>
         dr = new_drift (sc_config s) (sc_name s) k (get_str ours k) (get_str cur k)))"
proof (cases "section_state ex (section_ref s)")
  case None
  then show ?thesis by (simp add: drift_of_section_def section_state_def section_ref_def)
next
  case (Some cur)
  let ?h = "map_of applied (sc_config s @ ''.'' @ sc_name s)"
  have "drift_of_section sha ex applied s =
      (if get_str cur OwnershipTag \<noteq> ''1'' \<or> ?h \<noteq> None \<and> ?h \<noteq> Some (section_hash sha s) then []
       else concat (map (drift_of_option s cur (?h \<noteq> None) (section_writes s)) (sorted_keys (section_writes s))))"
    using Some by (simp add: drift_of_section_def section_state_def section_ref_def Let_def) auto
  then have "dr \<in> set (drift_of_section sha ex applied s) \<longleftrightarrow>
      get_str cur OwnershipTag = ''1'' \<and> (?h = None \<or> ?h = Some (section_hash sha s)) \<and>
      (\<exists>k. k \<in> set (keys (section_writes s)) \<and> dr \<in> set (drift_of_option s cur (?h \<noteq> None) (section_writes s) k))"
    using in_concat_map [of dr "drift_of_option s cur (?h \<noteq> None) (section_writes s)" "sorted_keys (section_writes s)"]
    by (simp del: set_concat set_map)
  then show ?thesis unfolding drift_of_option_in Let_def using Some by auto
qed

text \<open>
  C19. Drift is reported exactly. For a document whose sections have proper list maps, an entry is
  reported exactly when a rendered section is on the device and carries our marker, its recorded
  fingerprint is unknown or equal to that of the rendered section (so the difference is not a
  pending edit of our own), and one of the options it writes either has another value on the
  device, or is gone although the fingerprint was recorded. Options the section does not write are
  never reported.
\<close>

theorem drift_exact:
  assumes "\<forall>s\<in>set (d_sections d). wf_map (sc_lists s)"
  shows "dr \<in> set (detect_drift sha d ex applied) \<longleftrightarrow>
    (\<exists>s\<in>set (d_sections d). \<exists>cur k. section_state ex (section_ref s) = Some cur \<and> get_str cur OwnershipTag = ''1'' \<and>
       (let h = map_of applied (sc_config s @ ''.'' @ sc_name s) in
         (h = None \<or> h = Some (section_hash sha s)) \<and>
         (k \<in> set (keys (sc_values s)) \<or> k \<in> set (keys (sc_lists s))) \<and>
         (if has_key cur k then get_str cur k \<noteq> expected_value s k else h \<noteq> None) \<and>
         dr = new_drift (sc_config s) (sc_name s) k (expected_value s k) (get_str cur k)))"
proof -
  have ours: "get_str (section_writes s) k = expected_value s k" if "s \<in> set (d_sections d)" for s k
    using assms that by (simp add: get_str_section_writes expected_value_def)
  show ?thesis unfolding detect_drift_def in_concat_map drift_of_section_in Bex_def
    by (rule ex_cong1) (use ours in \<open>auto simp: Let_def keys_section_writes simp del: set_map\<close>)
qed

text \<open>
  C20. Secrets never leave the drift report. An entry for an option whose name, in any letter case,
  is on the list of credentials carries the redaction marker on both sides, and its text does not
  depend on the values at all.
\<close>

theorem drift_secrets_redacted:
  assumes "dr \<in> set (detect_drift sha d ex applied)" and "is_sensitive_option (dr_option dr)"
  shows "dr_ours dr = redacted_value \<and> dr_theirs dr = redacted_value \<and>
    (\<forall>ours theirs. drift_text quote (new_drift (dr_config dr) (dr_section dr) (dr_option dr) ours theirs) = drift_text quote dr)"
proof -
  have "\<exists>c n k x y. dr = new_drift c n k x y"
    using assms(1) unfolding detect_drift_def in_concat_map drift_of_section_in Let_def by blast
  then obtain c n k x y where dr: "dr = new_drift c n k x y" by blast
  with assms(2) have "is_sensitive_option k" by (simp add: new_drift_def)
  with dr show ?thesis by (simp add: new_drift_def redact_option_value_def drift_text_def)
qed

definition drifted_section :: uci_section where
  "drifted_section = \<lparr>sc_config = ''wireless'', sc_type = ''wifi-iface'', sc_name = ''oowrt_w1'',
     sc_values = [(''oonfeewrt'', ''1''), (''ssid'', ''iot''), (''Key'', ''correct horse'')], sc_lists = [], sc_manages = []\<rparr>"

definition drifted_doc :: doc where
  "drifted_doc = \<lparr>d_device = 5, d_sections = [drifted_section], d_patches = [], d_retain = [], d_blind = []\<rparr>"

definition drifted_existing :: existing where
  "drifted_existing = \<lparr>ex_configs =
     [(''wireless'', [(''oowrt_w1'', [(''oonfeewrt'', ''1''), (''ssid'', ''iot''), (''Key'', ''battery staple''), (''mode'', ''ap'')])])]\<rparr>"

theorem drift_exact_witness:
  "new_drift ''wireless'' ''oowrt_w1'' ''Key'' [] [] \<in> set (detect_drift (\<lambda>t. t) drifted_doc drifted_existing [])"
proof -
  have "\<forall>s\<in>set (d_sections drifted_doc). wf_map (sc_lists s)"
    by (simp add: drifted_doc_def drifted_section_def wf_map_def)
  note exact = drift_exact [OF this]
  have "is_sensitive_option ''Key''" by code_simp
  then show ?thesis unfolding exact
    by (auto simp: drifted_doc_def drifted_section_def section_ref_def section_state_def in_config_def
        drifted_existing_def get_str_def has_key_def expected_value_def new_drift_def redact_option_value_def
        Let_def)
qed

theorem drift_secrets_redacted_witness:
  "case detect_drift (\<lambda>t. t) drifted_doc drifted_existing [] of
     [dr] \<Rightarrow> dr_ours dr = ''<redacted>'' \<and> dr_theirs dr = ''<redacted>''
   | _ \<Rightarrow> False"
proof -
  have "map dr_option (detect_drift (\<lambda>t. t) drifted_doc drifted_existing []) = [''Key'']" by code_simp
  then obtain dr where dr: "detect_drift (\<lambda>t. t) drifted_doc drifted_existing [] = [dr]" "dr_option dr = ''Key''" by auto
  have "is_sensitive_option ''Key''" by code_simp
  with drift_secrets_redacted [of dr "\<lambda>t. t" drifted_doc drifted_existing "[]"] dr show ?thesis
    by (simp add: redacted_value_def)
qed

section \<open>The ownership record\<close>

lemma claims_refs:
  "r \<in> os_ref ` set (claims sha device now d ex prev) \<longleftrightarrow>
    (r \<in> section_ref ` set (d_sections d) \<and> unclaimed_by_others ex r) \<or>
    (r \<in> os_ref ` set prev \<and> preserved d ex (fst r) (snd r))"
proof -
  let ?f = "\<lambda>s. if \<not> owned_in ex (sc_config s) (sc_name s) \<and> map_of (in_config ex (sc_config s)) (sc_name s) \<noteq> None then []
       else [\<lparr>os_device = device, os_config = sc_config s, os_section = sc_name s,
              os_hash = section_hash sha s, os_applied_at = now\<rparr>]"
  have one: "os_ref ` set (?f s) = (if unclaimed_by_others ex (section_ref s) then {section_ref s} else {})" for s
    by (auto simp: os_ref_def section_ref_def unclaimed_by_others_def section_state_def)
  have "os_ref ` set (concat (map ?f ss)) = {section_ref s | s. s \<in> set ss \<and> unclaimed_by_others ex (section_ref s)}" for ss
    by (induction ss) (simp_all only: list.map concat.simps set_append image_Un one, auto)
  then have "r \<in> os_ref ` set (concat (map ?f (d_sections d))) \<longleftrightarrow>
      r \<in> section_ref ` set (d_sections d) \<and> unclaimed_by_others ex r" by auto
  then show ?thesis unfolding claims_def set_append image_Un Un_iff by (auto simp: os_ref_def)
qed

text \<open>
  C15. The ownership record is the device's. Suppose the record listed every section the controller
  owns on a device, and nothing the document contains belongs to somebody else. Then, once the
  staged calls of the plan have been carried out, the claims written to the store name exactly the
  sections the controller owns on the device: un-adopting removes all of them and nothing else.
\<close>

theorem record_matches_device:
  assumes "uci_service exec" and "wf_existing ex" and "coherent_doc d ex"
    and "build_invocations (pl_ops (doc_plan d ex) @ prune d ex) = Inr calls"
    and mine: "\<forall>s\<in>set (d_sections d). unclaimed_by_others ex (section_ref s)"
    and prev: "\<forall>c n. owned_in ex c n \<longrightarrow> (c, n) \<in> os_ref ` set prev"
  shows "owned_in (fold exec calls ex) config name \<longleftrightarrow>
    (config, name) \<in> os_ref ` set (claims sha device now d ex prev)"
proof -
  have c: "carried exec d ex" using assms(1-3) by (simp add: carried_def)
  have "calls = map call_of (pl_ops (doc_plan d ex) @ prune d ex)"
    using assms(4) plan_builds [OF assms(3)] by simp
  then have fin: "fold exec calls ex = after_plan exec d ex" by (simp add: after_plan_def carry_def)
  show ?thesis
  proof (cases "(config, name) \<in> section_ref ` set (d_sections d)")
    case True
    then obtain s where s: "s \<in> set (d_sections d)" "section_ref s = (config, name)" by auto
    from after_section [OF c s(1)] mine s have "owned_in (after_plan exec d ex) config name"
      by (auto simp: owned_in_state)
    with True mine show ?thesis unfolding claims_refs fin by auto
  next
    case False
    then have "owned_in (after_plan exec d ex) config name \<longleftrightarrow> preserved d ex config name"
      using after_owned [OF c] after_preserved [OF c] by blast
    moreover have "preserved d ex config name \<Longrightarrow> (config, name) \<in> os_ref ` set prev"
      using prev by (auto simp: preserved_def split: if_splits)
    ultimately show ?thesis using False unfolding claims_refs fin by auto
  qed
qed

definition demo_prev :: "owned_section list" where
  "demo_prev = map (\<lambda>(c, n). \<lparr>os_device = 5, os_config = c, os_section = n, os_hash = [], os_applied_at = 0\<rparr>)
     [(''network'', ''oowrt_net_iot''), (''network'', ''oowrt_net_old''), (''wireless'', ''oowrt_up_5g'')]"

lemma demo_owned: "owned_in demo_existing c n \<Longrightarrow> (c, n) \<in> os_ref ` set demo_prev"
  by (auto simp: owned_in_def section_values_def in_config_def demo_existing_def demo_prev_def os_ref_def get_str_def
      split: if_splits)

theorem record_matches_device_witness:
  "\<exists>calls. \<not> owned_in (fold demo_uci calls demo_existing) ''network'' ''oowrt_net_old'' \<and>
     owned_in (fold demo_uci calls demo_existing) ''wireless'' ''oowrt_up_5g''"
proof -
  let ?claims = "claims (\<lambda>t. t) 5 0 demo_doc demo_existing demo_prev"
  have mine: "\<forall>s\<in>set (d_sections demo_doc). unclaimed_by_others demo_existing (section_ref s)"
    by (simp add: demo_doc_def demo_section_def unclaimed_by_others_def section_ref_def owned_in_def section_values_def
        in_config_def demo_existing_def get_str_def)
  have prev: "\<forall>c n. owned_in demo_existing c n \<longrightarrow> (c, n) \<in> os_ref ` set demo_prev" using demo_owned by blast
  have refs: "map os_ref ?claims = [(''network'', ''oowrt_net_iot''), (''wireless'', ''oowrt_up_5g'')]" by code_simp
  obtain calls where calls: "build_invocations (pl_ops (doc_plan demo_doc demo_existing) @ prune demo_doc demo_existing) = Inr calls"
    using plan_builds [OF demo_coherent] by blast
  have "os_ref ` set ?claims = {(''network'', ''oowrt_net_iot''), (''wireless'', ''oowrt_up_5g'')}"
    unfolding set_map [symmetric] refs by simp
  with record_matches_device [OF demo_uci_service demo_wf demo_coherent calls mine prev, of _ _ "\<lambda>t. t" 5 0]
  show ?thesis by (intro exI [of _ calls]) simp
qed

end
