(* ===== verification/EngineProtocol.thy ===== *)
theory EngineProtocol
  imports ApplyEngine
begin

text \<open>
  What the apply engine promises about the order of its calls, as an abstract protocol: a monitor
  that reads the trace event by event and rejects any call made out of order, too late, or without
  the rollback budget. The lemmas follow the stages of \<open>engine_apply\<close>; the properties say that
  every run is accepted, that the outcome is determined by the monitor's final phase, and that a
  run leaves a staged change behind only where the device refused to discard it.
\<close>

section \<open>The monitor\<close>

text \<open>
  The phase follows the plan through the device: staged, refused by \<open>uci.apply\<close>, armed (the
  rollback timer runs), found healthy or unhealthy, confirmed. \<open>clk\<close> is the time the engine has
  established, by reading the clock or by waiting. Staging needs a clean start, \<open>uci.apply\<close> the
  rollback budget, \<open>uci.confirm\<close> a passed health check and an open window, and the session that
  reads the configuration back is opened only after the window and the grace have passed. From the moment
  \<open>uci.apply\<close> succeeds nothing is reverted until the fate of the change is \<open>settled\<close> for the
  engine: window and grace have passed and the verifying session was asked for, or the caller's
  context ended a wait.
\<close>

datatype phase = Idle | Staged | Refused | Armed | Healthy | Rejected | Confirmed

record mspec =
  needs_health :: bool
  window :: int
  grace :: int
  budget_end :: "int option"

record mon =
  ph :: phase
  clk :: int
  armed_at :: int
  fresh_open :: bool
  fresh_read :: bool
  settled :: bool

definition mon_init :: mon where
  "mon_init = \<lparr>ph = Idle, clk = 0, armed_at = 0, fresh_open = False, fresh_read = False,
     settled = False\<rparr>"

definition within_budget :: "mspec \<Rightarrow> int \<Rightarrow> bool" where
  "within_budget sp t \<longleftrightarrow>
     (case budget_end sp of None \<Rightarrow> True | Some d \<Rightarrow> t + window sp + grace sp \<le> d)"

fun mstep :: "mspec \<Rightarrow> event \<Rightarrow> mon \<Rightarrow> mon option" where
  "mstep sp (ENow t) m = Some (m\<lparr>clk := t\<rparr>)"
| "mstep sp EList m = (if ph m = Idle then Some m else None)"
| "mstep sp (EGet fresh c sec k) m =
     (if fresh then
        (if fresh_open m \<and> ph m \<in> {Healthy, Rejected} then Some (m\<lparr>fresh_read := True\<rparr>) else None)
      else if ph m = Idle then Some m else None)"
| "mstep sp (EStage calls b) m = (if ph m = Idle then Some (m\<lparr>ph := Staged\<rparr>) else None)"
| "mstep sp EChanges m = (if ph m = Staged then Some m else None)"
| "mstep sp (ERevert cfg b) m =
     (if ph m \<in> {Idle, Staged, Refused} \<or> ph m \<in> {Healthy, Rejected} \<and> settled m then Some m else None)"
| "mstep sp (EWindow b) m = Some m"
| "mstep sp (EApply secs b) m =
     (if ph m = Staged \<and> secs = whole_seconds (window sp) \<and> within_budget sp (clk m) then
        Some (m\<lparr>ph := (if \<not> b then Refused else if needs_health sp then Armed else Healthy),
               armed_at := clk m\<rparr>)
      else None)"
| "mstep sp (EHealth b) m =
     (if ph m = Armed then Some (m\<lparr>ph := (if b then Healthy else Rejected)\<rparr>) else None)"
| "mstep sp (EConfirm b) m =
     (if ph m = Healthy \<and> clk m < armed_at m + window sp \<and> \<not> fresh_open m then
        Some (if b then m\<lparr>ph := Confirmed\<rparr> else m)
      else None)"
| "mstep sp (EWait d ended) m =
     (if ph m \<in> {Healthy, Rejected} then
        Some (if ended then m\<lparr>settled := True\<rparr> else m\<lparr>clk := clk m + d\<rparr>)
      else None)"
| "mstep sp (EFresh b) m =
     (if ph m \<in> {Healthy, Rejected} \<and> armed_at m + window sp + grace sp \<le> clk m
      then Some (m\<lparr>fresh_open := b, settled := True\<rparr>) else None)"

fun mrun :: "mspec \<Rightarrow> mon option \<Rightarrow> event list \<Rightarrow> mon option" where
  "mrun sp mo [] = mo"
| "mrun sp mo (e # es) = mrun sp (case mo of None \<Rightarrow> None | Some m \<Rightarrow> mstep sp e m) es"

definition ms :: "mspec \<Rightarrow> 'w st \<Rightarrow> mon option" where
  "ms sp s = mrun sp (Some mon_init) (trc s)"

lemma mrun_append: "mrun sp mo (xs @ ys) = mrun sp (mrun sp mo xs) ys"
  by (induction xs arbitrary: mo) auto

lemma ms_emit: "ms sp (emit e w s) = (case ms sp s of None \<Rightarrow> None | Some m \<Rightarrow> mstep sp e m)"
  by (simp add: ms_def emit_def mrun_append)

lemma ms_wld [simp]: "ms sp (s\<lparr>wld := w\<rparr>) = ms sp s"
  by (simp add: ms_def)

section \<open>What stays staged\<close>

text \<open>
  \<open>unasked\<close>: the configs staged on the applying session for which, since, neither \<open>uci.revert\<close>
  was called nor a confirm landed. \<open>residue\<close>: those that may still be staged on the device,
  because a \<open>uci.revert\<close> counts only when the device answered it with success.
\<close>

fun unasked_step :: "event \<Rightarrow> string set \<Rightarrow> string set" where
  "unasked_step (EStage calls b) R = R \<union> inv_config ` set calls"
| "unasked_step (ERevert cfg b) R = R - {cfg}"
| "unasked_step (EConfirm b) R = (if b then {} else R)"
| "unasked_step _ R = R"

definition unasked :: "'w st \<Rightarrow> string set" where
  "unasked s = fold unasked_step (trc s) {}"

fun residue_step :: "event \<Rightarrow> string set \<Rightarrow> string set" where
  "residue_step (EStage calls b) R = R \<union> inv_config ` set calls"
| "residue_step (ERevert cfg b) R = (if b then R - {cfg} else R)"
| "residue_step (EConfirm b) R = (if b then {} else R)"
| "residue_step _ R = R"

definition residue :: "'w st \<Rightarrow> string set" where
  "residue s = fold residue_step (trc s) {}"

text \<open>What stays staged although it was to be reverted is what the device refused to revert.\<close>

definition refused_reverts :: "'w st \<Rightarrow> string set" where
  "refused_reverts s = {cfg. ERevert cfg False \<in> set (trc s)}"

lemma residue_refused: "residue s \<subseteq> unasked s \<union> refused_reverts s"
proof -
  have "fold residue_step es {} \<subseteq> fold unasked_step es {} \<union> {cfg. ERevert cfg False \<in> set es}" for es
  proof (induction es rule: rev_induct)
    case (snoc e es)
    then show ?case by (cases e) auto
  qed simp
  then show ?thesis by (simp add: residue_def unasked_def refused_reverts_def)
qed

lemma refused_emit: "refused_reverts (emit e w s) =
    (case e of ERevert cfg b \<Rightarrow> if b then refused_reverts s else insert cfg (refused_reverts s) | _ \<Rightarrow> refused_reverts s)"
  by (auto simp: refused_reverts_def emit_def split: event.splits)

lemma refused_wld [simp]: "refused_reverts (s\<lparr>wld := w\<rparr>) = refused_reverts s"
  by (simp add: refused_reverts_def)

lemma unasked_emit: "unasked (emit e w s) = unasked_step e (unasked s)"
  by (simp add: unasked_def emit_def)

lemma unasked_wld [simp]: "unasked (s\<lparr>wld := w\<rparr>) = unasked s"
  by (simp add: unasked_def)

section \<open>Calls that only observe\<close>

text \<open>
  An observer leaves the monitor where it is (up to the clock reading) and \<open>unasked\<close> unchanged,
  in the phases where it may run.
\<close>

locale observer =
  fixes run :: "'w st \<Rightarrow> 'r \<times> 'w st"
    and may :: "phase \<Rightarrow> bool"
  assumes unasked_run: "unasked (snd (run s)) = unasked s"
    and refused_run: "refused_reverts (snd (run s)) = refused_reverts s"
    and ms_run: "ms sp s = Some m \<Longrightarrow> may (ph m) \<Longrightarrow>
      \<exists>t. ms sp (snd (run s)) = Some (m\<lparr>clk := t\<rparr>)"
begin

lemma ms_phase: "ms sp s = Some m \<Longrightarrow> may (ph m) \<Longrightarrow>
    \<exists>m'. ms sp (snd (run s)) = Some m' \<and> ph m' = ph m \<and> armed_at m' = armed_at m \<and>
      fresh_open m' = fresh_open m \<and> fresh_read m' = fresh_read m"
  using ms_run by force

end

lemma mon_clk_same [simp]: "\<exists>t. m = m\<lparr>clk := t\<rparr>"
  by (rule exI [of _ "clk m"]) simp

lemma do_now_ms: "ms sp s = Some m \<Longrightarrow> ms sp (snd (do_now rt s)) = Some (m\<lparr>clk := fst (do_now rt s)\<rparr>)"
  by (simp add: do_now_def ms_emit split: prod.splits)

interpretation now: observer "do_now rt" "\<lambda>_. True" for rt
  by unfold_locales (auto simp: do_now_def ms_emit unasked_emit refused_emit split: prod.splits)

interpretation changes: observer "do_changes rt" "\<lambda>p. p = Staged" for rt
  by unfold_locales (auto simp: do_changes_def ms_emit unasked_emit refused_emit split: prod.splits)

interpretation ctx: observer "do_ctx rt" "\<lambda>_. True" for rt
  by unfold_locales (auto simp: do_ctx_def split: prod.splits)

lemma foreign_dirty_state: "snd (foreign_dirty_configs rt s) = snd (do_list rt s)"
  by (simp add: foreign_dirty_configs_def split: prod.splits sum.splits)

lemma preflight_state: "snd (preflight rt p s) = snd (do_list rt s)"
  using foreign_dirty_state [of rt s]
  by (auto simp: preflight_def split: prod.splits sum.splits)

interpretation preflight: observer "preflight rt p" "\<lambda>p. p = Idle" for rt p
  by unfold_locales (auto simp: preflight_state do_list_def ms_emit unasked_emit refused_emit split: prod.splits)

lemma verify_state: "snd (verify_staged rt p s) = snd (do_changes rt s)"
  by (simp add: verify_staged_def split: prod.splits sum.splits option.splits)

interpretation verify: observer "verify_staged rt p" "\<lambda>p. p = Staged" for rt p
  by unfold_locales (auto simp: verify_state changes.unasked_run changes.refused_run dest: changes.ms_run)

lemma budget_state: "snd (require_rollback_budget rt en armed timeout s) = snd (do_ctx rt s)"
  by (auto simp: require_rollback_budget_def Let_def split: prod.splits option.splits)

interpretation budget: observer "require_rollback_budget rt en armed timeout" "\<lambda>_. True"
  for rt en armed timeout
  by unfold_locales (auto simp: budget_state ctx.unasked_run ctx.refused_run dest: ctx.ms_run)

lemma ctx_trc: "trc (snd (do_ctx rt s)) = trc s"
  by (simp add: do_ctx_def split: prod.splits)

lemma ctx_ms: "ms sp (snd (do_ctx rt s)) = ms sp s"
  by (simp add: ms_def ctx_trc)

lemma snapshot_ms:
  "ms sp s = Some m \<Longrightarrow> ph m = Idle \<Longrightarrow>
     ms sp (snd (snapshot_options rt cs out s)) = Some m \<and> unasked (snd (snapshot_options rt cs out s)) = unasked s"
proof (induction rt cs out s rule: snapshot_options.induct)
  case (2 rt c sec k want cs out s)
  obtain r s1 where get: "do_get rt False c sec k s = (r, s1)" by (meson surj_pair)
  then have "ms sp s1 = Some m" and "unasked s1 = unasked s"
    using 2 by (auto simp: do_get_def ms_emit unasked_emit split: prod.splits)
  then show ?case
    using 2 get by (auto split: sum.splits)
qed simp

lemma snapshot_refused: "refused_reverts (snd (snapshot_options rt cs out s)) = refused_reverts s"
proof (induction rt cs out s rule: snapshot_options.induct)
  case (2 rt c sec k want cs out s)
  obtain r s1 where get: "do_get rt False c sec k s = (r, s1)" by (meson surj_pair)
  then have "refused_reverts s1 = refused_reverts s"
    by (auto simp: do_get_def refused_emit split: prod.splits)
  then show ?case
    using 2 get by (auto split: sum.splits)
qed simp

lemma window_refused [simp]: "refused_reverts (do_window rt b s) = refused_reverts s"
  by (simp add: do_window_def refused_emit)

lemma window_ms: "ms sp (do_window rt b s) = ms sp s"
  by (simp add: do_window_def ms_emit split: option.splits)

lemma window_unasked: "unasked (do_window rt b s) = unasked s"
  by (simp add: do_window_def unasked_emit)

section \<open>Staging and reverting\<close>

lemma stage_unasked: "unasked (snd (stage rt p s)) \<subseteq> unasked s \<union> set (plan_configs p)"
proof (cases "build_invocations (pl_ops p)")
  case (Inr calls)
  then have "inv_config ` set calls = set (plan_configs p)"
    by (metis build_invocations_configs list.set_map plan_configs_set)
  with Inr show ?thesis
    by (auto simp: stage_def unasked_emit Let_def split: prod.splits)
qed (simp add: stage_def)

lemma stage_refused: "refused_reverts (snd (stage rt p s)) = refused_reverts s"
  by (auto simp: stage_def refused_emit Let_def split: sum.splits prod.splits)

lemma stage_ms:
  assumes "ms sp s = Some m" and "ph m = Idle"
  shows "\<exists>m'. ms sp (snd (stage rt p s)) = Some m' \<and> ph m' \<in> {Idle, Staged} \<and>
    (fst (stage rt p s) = None \<longrightarrow> ph m' = Staged) \<and> fresh_open m' = fresh_open m"
  using assms by (auto simp: stage_def ms_emit Let_def split: sum.splits prod.splits)

lemma do_revert_unasked: "unasked (snd (do_revert rt cfg s)) = unasked s - {cfg}"
  by (simp add: do_revert_def unasked_emit split: prod.splits)

lemma revert_state_Cons:
  "snd (revert_configs rt (cfg # cfgs) s) = snd (revert_configs rt cfgs (snd (do_revert rt cfg s)))"
  by (simp split: prod.splits)

lemma revert_unasked: "unasked (snd (revert_configs rt cfgs s)) = unasked s - set cfgs"
proof (induction cfgs arbitrary: s)
  case (Cons cfg cfgs)
  then show ?case
    by (simp only: revert_state_Cons do_revert_unasked) auto
qed simp

definition may_revert :: "mon \<Rightarrow> bool" where
  "may_revert m \<longleftrightarrow> ph m \<in> {Idle, Staged, Refused} \<or> ph m \<in> {Healthy, Rejected} \<and> settled m"

declare may_revert_def [simp]

lemma revert_ms:
  "ms sp s = Some m \<Longrightarrow> may_revert m \<Longrightarrow>
     ms sp (snd (revert_configs rt cfgs s)) = Some m"
proof (induction cfgs arbitrary: s)
  case (Cons cfg cfgs)
  have "ms sp (snd (do_revert rt cfg s)) = Some m"
    using Cons.prems by (auto simp: do_revert_def ms_emit split: prod.splits)
  with Cons.IH [of "snd (do_revert rt cfg s)"] Cons.prems(2) show ?case
    by (auto split: prod.splits)
qed simp

lemma revert_refused:
  "refused_reverts (snd (revert_configs rt cfgs s)) = refused_reverts s \<union> fst ` set (fst (revert_configs rt cfgs s))"
proof (induction cfgs arbitrary: s)
  case (Cons cfg cfgs)
  obtain r s1 where rv: "do_revert rt cfg s = (r, s1)" by (meson surj_pair)
  then have "refused_reverts s1 = refused_reverts s \<union> (if r = None then {} else {cfg})"
    by (auto simp: do_revert_def refused_emit split: prod.splits)
  moreover obtain errs s2 where "revert_configs rt cfgs s1 = (errs, s2)" by (meson surj_pair)
  ultimately show ?case
    using Cons [of s1] rv by (cases r) auto
qed simp

lemma revert_staged_unasked: "unasked s \<subseteq> set (plan_configs p) \<Longrightarrow> unasked (snd (revert_staged rt p s)) = {}"
  by (simp add: revert_staged_def revert_unasked)

lemma discard_unasked: "unasked s \<subseteq> set (plan_configs p) \<Longrightarrow> unasked (discard_staged rt p s) = {}"
  by (simp add: discard_staged_def revert_unasked)

lemma discard_ms:
  "ms sp s = Some m \<Longrightarrow> may_revert m \<Longrightarrow> ms sp (discard_staged rt p s) = Some m"
  by (simp add: discard_staged_def revert_ms)

lemma revert_staged_ms:
  "ms sp s = Some m \<Longrightarrow> may_revert m \<Longrightarrow> ms sp (snd (revert_staged rt p s)) = Some m"
  by (simp add: revert_staged_def revert_ms)

end
