(* ===== verification/EngineRuns.thy ===== *)
theory EngineRuns
  imports EngineProtocol
begin

text \<open>
  Whole runs of the apply engine against the protocol of \<open>EngineProtocol\<close>: the outcome reported
  is the outcome the trace shows, an error is returned only where \<open>uci.apply\<close> was not called or did
  not report success, every staged configuration is discarded or named as refused, the verdict \<open>Reverted\<close> is read off the device, and a run ends when the clock advances.
\<close>

definition run_spec :: "'w router \<Rightarrow> engine \<Rightarrow> plan \<Rightarrow> 'w health option \<Rightarrow> mspec" where
  "run_spec rt en p health =
     \<lparr>needs_health = (health \<noteq> None), window = plan_timeout p, grace = en_revert_grace en,
      budget_end = rt_deadline rt\<rparr>"

section \<open>Arming\<close>

text \<open>The errors of \<open>Apply\<close> that stand for the error reply of \<open>uci.apply\<close> itself.\<close>

fun apply_refused :: "apply_error \<Rightarrow> bool" where
  "apply_refused (AlreadyArmed e) = True"
| "apply_refused (ApplyFailed e) = True"
| "apply_refused _ = False"

lemma preflight_not_refused: "preflight rt p s = (Some e, s') \<Longrightarrow> \<not> apply_refused e"
  by (auto simp: preflight_def split: prod.splits sum.splits if_splits)

lemma verify_not_refused: "verify_staged rt p s = (Some e, s') \<Longrightarrow> \<not> apply_refused e"
  by (auto simp: verify_staged_def split: prod.splits sum.splits option.splits)

lemma budget_None:
  assumes "fst (require_rollback_budget rt en armed (plan_timeout p) s) = None"
  shows "within_budget (run_spec rt en p health) armed"
  using assms
  by (auto simp: require_rollback_budget_def within_budget_def run_spec_def Let_def
      split: prod.splits option.splits if_splits)

lemma arm_cases:
  fixes s :: "'w st"
  assumes m: "ms (run_spec rt en p health) s = Some m" and st: "ph m = Staged"
    and R: "unasked s \<subseteq> set (plan_configs p)"
  obtains (refused) e s' m' where "arm rt en p s = (Inl e, s')"
      "ms (run_spec rt en p health) s' = Some m'" "ph m' = (if apply_refused e then Refused else Staged)" "unasked s' = {}"
    | (armed) t s' m' where "arm rt en p s = (Inr t, s')"
      "ms (run_spec rt en p health) s' = Some m'"
      "ph m' = (if health = None then Healthy else Armed)" "armed_at m' = t"
      "fresh_open m' = fresh_open m" "unasked s' = unasked s"
proof -
  let ?sp = "run_spec rt en p health"
  obtain t s2 where now: "do_now rt (do_window rt True s) = (t, s2)" by (meson surj_pair)
  obtain b s3 where bud: "require_rollback_budget rt en t (plan_timeout p) s2 = (b, s3)"
    by (meson surj_pair)
  have s3: "ms ?sp s3 = Some (m\<lparr>clk := t\<rparr>)" "unasked s3 = unasked s"
  proof -
    have "ms ?sp s2 = Some (m\<lparr>clk := t\<rparr>)"
      using do_now_ms [of ?sp "do_window rt True s" m rt] m now by (simp add: window_ms)
    moreover have "s3 = snd (do_ctx rt s2)"
      using budget_state [of rt en t "plan_timeout p" s2] bud by simp
    ultimately show "ms ?sp s3 = Some (m\<lparr>clk := t\<rparr>)" by (simp add: ctx_ms)
    show "unasked s3 = unasked s"
      using budget.unasked_run [of rt en t "plan_timeout p" s2] bud
        now.unasked_run [of rt "do_window rt True s"] now by (simp add: window_unasked)
  qed
  show thesis
  proof (cases b)
    case (Some e)
    obtain errs s4 where rv: "revert_staged rt p (do_window rt False s3) = (errs, s4)"
      by (meson surj_pair)
    have "ms ?sp s4 = Some (m\<lparr>clk := t\<rparr>)" "unasked s4 = {}"
      using revert_staged_ms [of ?sp "do_window rt False s3" "m\<lparr>clk := t\<rparr>" rt p]
        revert_staged_unasked [of "do_window rt False s3" p rt] s3 rv st R
      by (simp_all add: window_ms window_unasked)
    moreover have "arm rt en p s = (Inl (BudgetRefused e errs), s4)"
      using now bud rv Some by (simp add: arm_def)
    ultimately show thesis using st by (intro refused) auto
  next
    case None
    have inb: "within_budget ?sp t"
      using budget_None [of rt en t p s2 health] bud None by simp
    obtain r s4 where ap: "do_apply rt (whole_seconds (plan_timeout p)) s3 = (r, s4)"
      by (meson surj_pair)
    obtain w4 where s4eq: "s4 = emit (EApply (whole_seconds (plan_timeout p)) (r = None)) w4 s3"
      using ap by (auto simp: do_apply_def split: prod.splits)
    have win: "window ?sp = plan_timeout p" and nh: "needs_health ?sp = (health \<noteq> None)"
      by (simp_all add: run_spec_def)
    have s4: "ms ?sp s4 = Some (m\<lparr>clk := t, ph := (if r \<noteq> None then Refused else
        if health = None then Healthy else Armed), armed_at := t\<rparr>)" "unasked s4 = unasked s"
      using s3 st inb by (simp_all add: s4eq ms_emit unasked_emit win nh)
    show thesis
    proof (cases r)
      case None
      then have "arm rt en p s = (Inr t, s4)"
        using now bud ap \<open>b = None\<close> by (simp add: arm_def)
      with s4 None show thesis
        by (intro armed [of t s4 "m\<lparr>clk := t, ph := (if health = None then Healthy else Armed),
              armed_at := t\<rparr>"]) auto
    next
      case (Some e)
      obtain errs s5 where rv: "revert_staged rt p s4 = (errs, s5)" by (meson surj_pair)
      have "ms ?sp s5 = Some (m\<lparr>clk := t, ph := Refused, armed_at := t\<rparr>)" "unasked s5 = {}"
        using revert_staged_ms [of ?sp s4 "m\<lparr>clk := t, ph := Refused, armed_at := t\<rparr>" rt p]
          revert_staged_unasked [of s4 p rt] s4 rv Some R by simp_all
      moreover have "arm rt en p s = (Inl (if e = StatusErr StatusPermissionDenied then AlreadyArmed e
          else ApplyFailed e), do_window rt False s5)"
        using now bud ap rv Some \<open>b = None\<close> by (simp add: arm_def)
      moreover have "apply_refused (if e = StatusErr StatusPermissionDenied then AlreadyArmed e else ApplyFailed e)"
        by (simp del: StatusPermissionDenied_def)
      ultimately show thesis
        by (intro refused [of _ "do_window rt False s5" "m\<lparr>clk := t, ph := Refused, armed_at := t\<rparr>"])
          (simp_all add: window_ms window_unasked del: StatusPermissionDenied_def)
    qed
  qed
qed

section \<open>Preparing\<close>

lemma prepare_cases:
  fixes s :: "'w st"
  assumes m: "ms (run_spec rt en p health) s = Some m" and idle: "ph m = Idle"
    and R: "unasked s = {}"
  obtains (refused) e s' m' where "prepare rt en p s = (Inl e, s')"
      "ms (run_spec rt en p health) s' = Some m'" "ph m' \<in> (if apply_refused e then {Refused} else {Idle, Staged})" "unasked s' = {}"
    | (armed) pre t s' m' where "prepare rt en p s = (Inr (pre, t), s')"
      "ms (run_spec rt en p health) s' = Some m'"
      "ph m' = (if health = None then Healthy else Armed)" "armed_at m' = t"
      "fresh_open m' = fresh_open m" "unasked s' \<subseteq> set (plan_configs p)"
proof (cases "pl_ops p = []")
  case True
  with m idle R show thesis by (intro refused) (auto simp: prepare_def)
next
  case False
  let ?sp = "run_spec rt en p health"
  obtain pf s1 where pf: "preflight rt p s = (pf, s1)" by (meson surj_pair)
  then obtain t1 where s1: "ms ?sp s1 = Some (m\<lparr>clk := t1\<rparr>)" "unasked s1 = {}"
    using preflight.ms_run [OF m idle, of rt p] preflight.unasked_run [of rt p s] R by auto
  show thesis
  proof (cases pf)
    case (Some e)
    with False pf s1 idle preflight_not_refused [of rt p s e s1] show thesis
      by (intro refused) (auto simp: prepare_def)
  next
    case None
    obtain pre s2 where sn: "snapshot_planned rt p s1 = (pre, s2)" by (meson surj_pair)
    have s2: "ms ?sp s2 = Some (m\<lparr>clk := t1\<rparr>)" "unasked s2 = {}"
      using snapshot_ms [OF s1(1), of rt "plan_checks p" "[]"] s1(2) sn idle
      by (simp_all add: snapshot_planned_def)
    obtain sf s3 where sg: "stage rt p s2 = (sf, s3)" by (meson surj_pair)
    obtain m3 where m3: "ms ?sp s3 = Some m3" "ph m3 \<in> {Idle, Staged}"
      "sf = None \<longrightarrow> ph m3 = Staged" "fresh_open m3 = fresh_open m"
      using stage_ms [OF s2(1), of rt p] idle sg by auto
    have R3: "unasked s3 \<subseteq> set (plan_configs p)"
      using stage_unasked [of rt p s2] s2(2) sg by simp
    show thesis
    proof (cases sf)
      case (Some f)
      have "ms ?sp (discard_staged rt p s3) = Some m3"
        by (rule discard_ms [OF m3(1)]) (use m3(2) in auto)
      moreover have "prepare rt en p s = (Inl (StageFailed f), discard_staged rt p s3)"
        using False None Some pf sn sg by (simp add: prepare_def)
      ultimately show thesis
        using m3(2) discard_unasked [OF R3, of rt] by (intro refused) auto
    next
      case None
      then have staged: "ph m3 = Staged" using m3 by simp
      obtain vs s4 where vf: "verify_staged rt p s3 = (vs, s4)" by (meson surj_pair)
      obtain t4 where s4: "ms ?sp s4 = Some (m3\<lparr>clk := t4\<rparr>)" "unasked s4 \<subseteq> set (plan_configs p)"
        using verify.ms_run [OF m3(1) staged, of rt p] verify.unasked_run [of rt p s3] R3 vf by auto
      show thesis
      proof (cases vs)
        case (Some e)
        have "ms ?sp (snd (revert_staged rt p s4)) = Some (m3\<lparr>clk := t4\<rparr>)"
          by (rule revert_staged_ms [OF s4(1)]) (use staged in auto)
        moreover have "prepare rt en p s = (Inl e, snd (revert_staged rt p s4))"
          using False \<open>pf = None\<close> None Some pf sn sg vf by (simp add: prepare_def)
        ultimately show thesis
          using staged revert_staged_unasked [OF s4(2), of rt] verify_not_refused [of rt p s3 e s4] vf Some
          by (intro refused) auto
      next
        case None
        have unf: "prepare rt en p s =
            (let (r, s5) = arm rt en p s4 in (case r of Inl e \<Rightarrow> Inl e | Inr t \<Rightarrow> Inr (pre, t), s5))"
          using False \<open>pf = None\<close> \<open>sf = None\<close> None pf sn sg vf by (simp add: prepare_def)
        have "ph (m3\<lparr>clk := t4\<rparr>) = Staged" using staged by simp
        from arm_cases [OF s4(1) this s4(2)] show thesis
        proof cases
          case (1 e s' m')
          with unf show thesis by (intro refused [of e s' m']) auto
        next
          case (2 t s' m')
          with unf s4(2) m3(4) show thesis by (intro armed [of pre t s' m']) auto
        qed
      qed
    qed
  qed
qed

text \<open>The error of a missing rollback budget lists the reverts of the run that failed.\<close>

lemma arm_budget_errors:
  assumes "arm rt en p s = (Inl (BudgetRefused b errs), s')"
  shows "refused_reverts s' = refused_reverts s \<union> fst ` set errs"
proof -
  obtain t s2 where now: "do_now rt (do_window rt True s) = (t, s2)" by (meson surj_pair)
  obtain c s3 where bud: "require_rollback_budget rt en t (plan_timeout p) s2 = (c, s3)"
    by (meson surj_pair)
  have "refused_reverts s3 = refused_reverts s"
    using budget.refused_run [of rt en t "plan_timeout p" s2] bud
      now.refused_run [of rt "do_window rt True s"] now by simp
  moreover have "revert_staged rt p (do_window rt False s3) = (errs, s')"
    using assms now bud by (auto simp: arm_def split: option.splits prod.splits if_splits)
  ultimately show ?thesis
    using revert_refused [of rt "plan_configs p" "do_window rt False s3"] by (simp add: revert_staged_def)
qed

lemma prepare_budget_errors:
  assumes "prepare rt en p s = (Inl (BudgetRefused b errs), s')"
  shows "refused_reverts s' = refused_reverts s \<union> fst ` set errs"
proof -
  obtain pf s1 where pf: "preflight rt p s = (pf, s1)" by (meson surj_pair)
  obtain pre s2 where sn: "snapshot_planned rt p s1 = (pre, s2)" by (meson surj_pair)
  obtain sf s3 where sg: "stage rt p s2 = (sf, s3)" by (meson surj_pair)
  obtain vs s4 where vf: "verify_staged rt p s3 = (vs, s4)" by (meson surj_pair)
  have "pf \<noteq> Some (BudgetRefused b errs)" "vs \<noteq> Some (BudgetRefused b errs)"
    using pf vf by (auto simp: preflight_def verify_staged_def split: prod.splits sum.splits option.splits if_splits)
  then have "arm rt en p s4 = (Inl (BudgetRefused b errs), s')"
    using assms pf sn sg vf
    by (auto simp: prepare_def split: if_splits option.splits sum.splits prod.splits)
  from arm_budget_errors [OF this] show ?thesis
    using preflight.refused_run [of rt p s] pf snapshot_refused [of rt "plan_checks p" "[]" s1] sn
      stage_refused [of rt p s2] sg verify.refused_run [of rt p s3] vf
    by (simp add: snapshot_planned_def)
qed

section \<open>Health and confirm\<close>

definition polled :: "mspec \<Rightarrow> mon \<Rightarrow> 'w st \<Rightarrow> confirm_error option \<times> 'w st \<Rightarrow> bool" where
  "polled sp m s out \<longleftrightarrow>
     (\<exists>t g. ms sp (snd out) =
        Some (m\<lparr>clk := t, ph := (if fst out = None then Confirmed else Healthy), settled := g\<rparr>)) \<and>
     unasked (snd out) = (if fst out = None then {} else unasked s)"

lemma polled_yes:
  assumes "ms sp s' = Some (m\<lparr>clk := t, ph := Confirmed\<rparr>)" and "unasked s' = {}"
  shows "polled sp m s (None, s')"
proof -
  have "m\<lparr>clk := t, ph := Confirmed\<rparr> = m\<lparr>clk := t, ph := Confirmed, settled := settled m\<rparr>"
    by (cases m) simp
  with assms show ?thesis unfolding polled_def by (intro conjI exI [of _ t] exI [of _ "settled m"]) simp_all
qed

lemma do_confirm_state:
  assumes "ms sp s = Some m" and "ph m = Healthy" and "clk m < armed_at m + window sp"
    and "\<not> fresh_open m" and "do_confirm rt s = (r, s')"
  shows "ms sp s' = Some (if r = None then m\<lparr>ph := Confirmed\<rparr> else m)"
    and "unasked s' = (if r = None then {} else unasked s)"
  using assms by (auto simp: do_confirm_def ms_emit unasked_emit split: prod.splits)

lemma do_wait_state:
  assumes "ms sp s = Some m" and "ph m \<in> {Healthy, Rejected}" and "do_wait rt d s = (b, s')"
  shows "ms sp s' = Some (if b then m\<lparr>settled := True\<rparr> else m\<lparr>clk := clk m + d\<rparr>)"
    and "unasked s' = unasked s"
  using assms by (auto simp: do_wait_def ms_emit unasked_emit split: prod.splits)

lemma polled_no:
  assumes "ms sp s' = Some m' \<and> m' \<in> {m\<lparr>clk := t\<rparr>, m\<lparr>clk := t, settled := True\<rparr>}"
    and "unasked s' = unasked s" and "ph m = Healthy"
  shows "polled sp m s (Some e, s')"
proof -
  have "m' = m\<lparr>clk := t, ph := Healthy, settled := settled m'\<rparr>"
    using assms(1,3) by (cases m) auto
  with assms show ?thesis unfolding polled_def by auto
qed

lemma confirm_poll_polled:
  "confirm_poll rt interval deadline lasterr s = Some out \<Longrightarrow>
     \<forall>m. ms sp s = Some m \<longrightarrow> ph m = Healthy \<longrightarrow> \<not> fresh_open m \<longrightarrow>
       deadline = armed_at m + window sp \<longrightarrow> polled sp m s out"
proof (induction rule: confirm_poll.raw_induct [rotated, consumes 1, case_names step])
  case (step poll rt interval deadline lasterr s out)
  show ?case
  proof (intro allI impI)
    fix m assume m: "ms sp s = Some m" "ph m = Healthy" "\<not> fresh_open m"
      "deadline = armed_at m + window sp"
    obtain t s1 where now: "do_now rt s = (t, s1)" by (meson surj_pair)
    have s1: "ms sp s1 = Some (m\<lparr>clk := t\<rparr>)" "unasked s1 = unasked s"
      using do_now_ms [OF m(1), of rt] now.unasked_run [of rt s] now by simp_all
    obtain r s2 where cf: "do_confirm rt s1 = (r, s2)" by (meson surj_pair)
    obtain b s3 where wt: "do_wait rt interval s2 = (b, s3)" by (meson surj_pair)
    show "polled sp m s out"
    proof (cases "t < deadline")
      case False
      with step(2) now obtain e where "out = (Some e, s1)" by auto
      with polled_no [OF _ s1(2) m(2), of sp _ t] s1(1) show ?thesis by simp
    next
      case early: True
      have s2: "ms sp s2 = Some (if r = None then m\<lparr>clk := t, ph := Confirmed\<rparr> else m\<lparr>clk := t\<rparr>)"
        "unasked s2 = (if r = None then {} else unasked s)"
        using do_confirm_state [OF s1(1) _ _ _ cf] early m s1(2) by simp_all
      show ?thesis
      proof (cases r)
        case None
        with step(2) now cf s2 early show ?thesis by (auto intro: polled_yes)
      next
        case (Some e)
        have s3: "ms sp s3 = Some (if b then m\<lparr>clk := t, settled := True\<rparr> else m\<lparr>clk := t + interval\<rparr>)"
          "unasked s3 = unasked s"
          using do_wait_state [OF _ _ wt, of sp "m\<lparr>clk := t\<rparr>"] s2 Some m(2) by auto
        show ?thesis
        proof (cases "e = StatusErr StatusPermissionDenied \<or> b")
          case True
          with step(2) now cf wt early Some obtain e' where "out = (Some e', s2) \<or> b \<and> out = (Some e', s3)"
            by (auto split: if_splits)
          with polled_no [OF _ _ m(2), of sp s2 _ t s] polled_no [OF _ _ m(2), of sp s3 _ t s]
            s2 s3 Some show ?thesis by auto
        next
          case False
          then have "poll rt interval deadline (Some (ConfirmCall e)) s3 = Some out"
            using step(2) now cf wt early Some by auto
          then have "polled sp (m\<lparr>clk := t + interval\<rparr>) s3 out"
            by (rule step(1) [rule_format]) (use s3 m False in simp_all)
          with s3 False show ?thesis by (auto simp: polled_def)
        qed
      qed
    qed
  qed
qed

section \<open>The revert check\<close>

definition may_read :: "mon \<Rightarrow> bool" where
  "may_read m \<longleftrightarrow> fresh_open m \<and> ph m \<in> {Healthy, Rejected}"

lemma fresh_get_state:
  assumes "ms sp s = Some m" and "may_read m" and "do_get rt True c sec k s = (r, s')"
  shows "ms sp s' = Some (m\<lparr>fresh_read := True\<rparr>)" and "unasked s' = unasked s"
  using assms by (auto simp: may_read_def do_get_def ms_emit unasked_emit split: prod.splits)

text \<open>One option of the check: it is skipped, or it is read and then settles the check or not.\<close>

lemma still_applied_Cons:
  obtains (skipped) "still_applied rt pre ((c, sec, k, want) # cs) checked s = still_applied rt pre cs checked s"
    | (settled) s1 r still ck err where "do_get rt True c sec k s = (r, s1)"
      "still_applied rt pre ((c, sec, k, want) # cs) checked s = ((still, ck, err), s1)"
      "still \<or> err \<noteq> None"
    | (differs) s1 r where "do_get rt True c sec k s = (r, s1)"
      "still_applied rt pre ((c, sec, k, want) # cs) checked s = still_applied rt pre cs True s1"
proof (cases "\<exists>prev found. map_of pre (c, sec, k) = Some (prev, found) \<and> \<not> (found \<and> prev = want)")
  case False
  then show thesis by (intro skipped) (auto split: option.splits)
next
  case True
  then obtain prev found where "map_of pre (c, sec, k) = Some (prev, found)" "\<not> (found \<and> prev = want)"
    by blast
  note known = this
  obtain r s1 where get: "do_get rt True c sec k s = (r, s1)" by (meson surj_pair)
  consider (here) "r = Inr want" | (other) out where "r = Inr out" "out \<noteq> want"
    | (gone) e where "r = Inl e" "e = StatusErr StatusNotFound \<or> e = StatusErr StatusNoData"
    | (failed) e where "r = Inl e" "\<not> (e = StatusErr StatusNotFound \<or> e = StatusErr StatusNoData)"
    by (cases r) auto
  then show thesis
  proof cases
    case here
    with get known show thesis by (intro settled [of r s1 True True None]) auto
  next
    case other
    with get known show thesis by (intro differs [of r s1]) auto
  next
    case gone
    with get known show thesis by (intro differs [of r s1]) auto
  next
    case failed
    with get known show thesis by (intro settled [of r s1 False checked "Some e"]) auto
  qed
qed

lemma still_applied_state:
  "ms sp s = Some m \<Longrightarrow> may_read m \<Longrightarrow> still_applied rt pre cs checked s = ((still, ck, err), s') \<Longrightarrow>
     unasked s' = unasked s \<and>
     (ms sp s' = Some m \<and> (ck \<longrightarrow> checked) \<or> ms sp s' = Some (m\<lparr>fresh_read := True\<rparr>))"
proof (induction cs arbitrary: checked s m)
  case (Cons check cs)
  obtain c sec k want where [simp]: "check = (c, sec, k, want)" by (cases check)
  show ?case
  proof (rule still_applied_Cons [of rt pre c sec k want cs checked s])
    assume "still_applied rt pre ((c, sec, k, want) # cs) checked s = still_applied rt pre cs checked s"
    with Cons show ?thesis by simp
  next
    fix s1 r still' ck' err'
    assume "do_get rt True c sec k s = (r, s1)"
      "still_applied rt pre ((c, sec, k, want) # cs) checked s = ((still', ck', err'), s1)"
    with fresh_get_state [OF Cons.prems(1,2)] Cons.prems(3) show ?thesis by simp
  next
    fix s1 r
    assume get: "do_get rt True c sec k s = (r, s1)"
      and "still_applied rt pre ((c, sec, k, want) # cs) checked s = still_applied rt pre cs True s1"
    then have run: "still_applied rt pre cs True s1 = ((still, ck, err), s')"
      using Cons.prems(3) by simp
    have "may_read (m\<lparr>fresh_read := True\<rparr>)" using Cons.prems(2) by (simp add: may_read_def)
    from Cons.IH [OF fresh_get_state(1) [OF Cons.prems(1,2) get] this run]
    show ?thesis using fresh_get_state(2) [OF Cons.prems(1,2) get] by auto
  qed
qed simp

text \<open>
  The verdict of the revert check: always \<open>Reverted\<close> or \<open>Unknown\<close>, stranded exactly when
  unknown, and reverted only after something was read back over the fresh session.
\<close>

definition verdict :: "result \<Rightarrow> mon \<Rightarrow> bool" where
  "verdict out m \<longleftrightarrow>
     (res_outcome out = Some Unknown \<and> res_stranded out \<or>
      res_outcome out = Some Reverted \<and> \<not> res_stranded out \<and> fresh_open m \<and> fresh_read m)"

lemma await_wait_state:
  assumes "ms sp s = Some m" and "ph m \<in> {Healthy, Rejected}" and "await_wait rt resume s = (b, s')"
  shows "\<exists>t. (b \<or> resume \<le> t) \<and> ms sp s' = Some (m\<lparr>clk := t, settled := (b \<or> settled m)\<rparr>)"
    and "unasked s' = unasked s"
proof -
  obtain t s1 where now: "do_now rt s = (t, s1)" by (meson surj_pair)
  have s1: "ms sp s1 = Some (m\<lparr>clk := t\<rparr>)" "unasked s1 = unasked s"
    using do_now_ms [OF assms(1), of rt] now.unasked_run [of rt s] now by simp_all
  have "(\<exists>t. (b \<or> resume \<le> t) \<and> ms sp s' = Some (m\<lparr>clk := t, settled := (b \<or> settled m)\<rparr>)) \<and>
      unasked s' = unasked s"
  proof (cases "resume - t > 0")
    case True
    then have wt: "do_wait rt (resume - t) s1 = (b, s')"
      using assms(3) now by (simp add: await_wait_def)
    show ?thesis
      using do_wait_state [OF s1(1) _ wt] assms(2) s1(2)
      by (cases b) (auto intro: exI [of _ t] exI [of _ resume])
  next
    case False
    then show ?thesis using assms(3) now s1 by (auto simp: await_wait_def intro: exI [of _ t])
  qed
  then show "\<exists>t. (b \<or> resume \<le> t) \<and> ms sp s' = Some (m\<lparr>clk := t, settled := (b \<or> settled m)\<rparr>)"
    and "unasked s' = unasked s" by auto
qed

lemma finish_state:
  assumes "ms sp s = Some m" and "do_now rt s = (t, s')"
  shows "ms sp s' = Some (m\<lparr>clk := t\<rparr>)" and "unasked s' = unasked s"
  using do_now_ms [OF assms(1), of rt] now.unasked_run [of rt s] assms(2) by simp_all

lemma do_fresh_state:
  assumes "ms sp s = Some m" and "ph m \<in> {Healthy, Rejected}"
    and "armed_at m + window sp + grace sp \<le> clk m" and "do_fresh rt s = (r, s')"
  shows "ms sp s' = Some (m\<lparr>fresh_open := (r = None), settled := True\<rparr>)" and "unasked s' = unasked s"
  using assms by (auto simp: do_fresh_def ms_emit unasked_emit split: prod.splits)

lemma await_revert_verdict:
  assumes m: "ms sp s = Some m" "ph m \<in> {Healthy, Rejected}" "armed_at m = armed"
    and sp: "window sp = timeout" "grace sp = en_revert_grace en"
    and run: "await_revert rt en p armed timeout why pre s = (out, s')"
  shows "\<exists>m'. ms sp s' = Some m' \<and> ph m' = ph m \<and> settled m' \<and> verdict out m' \<and> unasked s' = unasked s"
proof -
  obtain started s1 where now: "do_now rt s = (started, s1)" by (meson surj_pair)
  note s1 = finish_state [OF m(1) now]
  obtain ended s2 where wt: "await_wait rt (armed + (timeout + en_revert_grace en)) s1 = (ended, s2)"
    by (meson surj_pair)
  have "ph (m\<lparr>clk := started\<rparr>) \<in> {Healthy, Rejected}" using m(2) by simp
  from await_wait_state [OF s1(1) this wt] s1(2)
  obtain t2 where t2: "ended \<or> armed + (timeout + en_revert_grace en) \<le> t2"
    and s2: "ms sp s2 = Some (m\<lparr>clk := t2, settled := (ended \<or> settled m)\<rparr>)" "unasked s2 = unasked s" by auto
  obtain r s3 where fr: "do_fresh rt s2 = (r, s3)" by (meson surj_pair)
  let ?m3 = "m\<lparr>clk := t2, fresh_open := (r = None), settled := True\<rparr>"
  have s3: "ms sp s3 = Some ?m3" "unasked s3 = unasked s" if "\<not> ended"
    using do_fresh_state [OF s2(1) _ _ fr] s2(2) m t2 sp that by simp_all
  show ?thesis
  proof (cases "ended \<or> r \<noteq> None")
    case True
    obtain sx mx t where "do_now rt sx = (t, s')" "ms sp sx = Some mx" "ph mx = ph m" "settled mx"
      "unasked sx = unasked s" "res_outcome out = Some Unknown" "res_stranded out"
    proof (cases ended)
      case True
      obtain t sy where nw: "do_now rt s2 = (t, sy)" by (meson surj_pair)
      show thesis
        by (rule that [of s2 t "m\<lparr>clk := t2, settled := True\<rparr>"])
          (use run now wt nw True s2 in \<open>auto simp: await_revert_def stranded_result_def\<close>)
    next
      case False
      obtain t sy where nw: "do_now rt s3 = (t, sy)" by (meson surj_pair)
      from False \<open>ended \<or> r \<noteq> None\<close> obtain e where "r = Some e" by auto
      show thesis
        by (rule that [of s3 t ?m3])
          (use run now wt fr nw False \<open>r = Some e\<close> s3 in \<open>auto simp: await_revert_def stranded_result_def\<close>)
    qed
    with finish_state [of sp sx mx rt t s'] show ?thesis by (auto simp: verdict_def)
  next
    case False
    then have [simp]: "r = None" "\<not> ended" by auto
    obtain still ck err s4 where chk: "plan_still_applied rt p pre s3 = ((still, ck, err), s4)"
      by (metis surj_pair)
    have "may_read ?m3" using m(2) by (simp add: may_read_def)
    from still_applied_state [OF s3(1) [OF \<open>\<not> ended\<close>] this chk [unfolded plan_still_applied_def]]
    obtain m4 where m4: "ms sp s4 = Some m4" "ph m4 = ph m" "settled m4" "fresh_open m4" "ck \<longrightarrow> fresh_read m4"
      "unasked s4 = unasked s" using s3(2) by auto
    obtain t s5 where nw: "do_now rt s4 = (t, s5)" by (meson surj_pair)
    from run now wt fr chk nw have "s' = s5"
      and "verdict out (m4\<lparr>clk := t\<rparr>)"
      using m4 by (auto simp: await_revert_def stranded_result_def blank_result_def verdict_def
          split: option.splits if_splits)
    with finish_state [OF m4(1) nw] m4 show ?thesis by auto
  qed
qed

section \<open>Whole runs\<close>

text \<open>
  What a returned result and error say about the final state of the monitor: an error means that
  \<open>uci.apply\<close> was not called or, when it is the error of that call, did not reply with success, \<open>Applied\<close> that \<open>uci.confirm\<close> did, and anything else is the
  verdict of the revert check.
\<close>

definition agrees :: "result \<Rightarrow> apply_error option \<Rightarrow> mon \<Rightarrow> bool" where
  "agrees out err m \<longleftrightarrow>
     (case err of
        Some e \<Rightarrow> ph m \<in> (if apply_refused e then {Refused} else {Idle, Staged}) \<and> res_outcome out = None \<and> \<not> res_stranded out
      | None \<Rightarrow>
          if ph m = Confirmed then res_outcome out = Some Applied \<and> \<not> res_stranded out
          else ph m \<in> {Healthy, Rejected} \<and> verdict out m)"

lemma agrees_finished [simp]: "agrees (out\<lparr>res_finished := t\<rparr>) err m = agrees out err m"
  by (cases err; simp add: agrees_def verdict_def)

lemma agrees_started [simp]: "agrees (out\<lparr>res_started := t\<rparr>) err m = agrees out err m"
  by (cases err; simp add: agrees_def verdict_def)

lemma agrees_health [simp]: "agrees (out\<lparr>res_health := h\<rparr>) err m = agrees out err m"
  by (cases err; simp add: agrees_def verdict_def)

lemma agrees_clk [simp]: "agrees out err (m\<lparr>clk := t\<rparr>) = agrees out err m"
  by (cases err; simp add: agrees_def verdict_def)

lemma run_spec_sel [simp]:
  "window (run_spec rt en p health) = plan_timeout p"
  "grace (run_spec rt en p health) = en_revert_grace en"
  "needs_health (run_spec rt en p health) = (health \<noteq> None)"
  "budget_end (run_spec rt en p health) = rt_deadline rt"
  by (simp_all add: run_spec_def)

text \<open>The tail shared by the two failures: close the window, check for the revert, clear the session.\<close>

lemma check_and_discard:
  assumes m: "ms (run_spec rt en p health) s = Some m" "ph m \<in> {Healthy, Rejected}" "armed_at m = armed"
    and R: "unasked s \<subseteq> set (plan_configs p)"
    and run: "await_revert rt en p armed (plan_timeout p) why pre (do_window rt False s) = (out, s')"
  shows "\<exists>m'. ms (run_spec rt en p health) (discard_staged rt p s') = Some m' \<and> agrees out None m' \<and>
    unasked (discard_staged rt p s') = {}"
proof -
  have "ms (run_spec rt en p health) (do_window rt False s) = Some m" using m(1) by (simp add: window_ms)
  from await_revert_verdict [OF this m(2,3) _ _ run]
  obtain m' where m': "ms (run_spec rt en p health) s' = Some m'" "ph m' = ph m" "settled m'" "verdict out m'"
    "unasked s' = unasked s" by (auto simp: window_unasked)
  have "ms (run_spec rt en p health) (discard_staged rt p s') = Some m'"
    by (rule discard_ms [OF m'(1)]) (use m' m(2) in auto)
  moreover have "unasked (discard_staged rt p s') = {}" using discard_unasked [of s' p rt] m'(5) R by simp
  moreover have "agrees out None m'" using m' m(2) by (auto simp: agrees_def)
  ultimately show ?thesis by blast
qed

lemma run_health_state:
  assumes "ms (run_spec rt en p health) s = Some m" and "ph m = (if health = None then Healthy else Armed)"
    and "run_health health s = (r, s')"
  shows "ms (run_spec rt en p health) s' = Some (m\<lparr>ph := (if r = None then Healthy else Rejected)\<rparr>)"
    and "unasked s' = unasked s"
  using assms by (cases m; auto simp: run_health_def ms_emit unasked_emit split: prod.splits option.splits)+

lemma conclude_agrees:
  assumes m: "ms (run_spec rt en p health) s = Some m" "ph m = (if health = None then Healthy else Armed)"
      "\<not> fresh_open m" "armed_at m = armed"
    and R: "unasked s \<subseteq> set (plan_configs p)"
    and run: "conclude rt en p health started pre armed s = Some (out, s')"
  shows "\<exists>m'. ms (run_spec rt en p health) s' = Some m' \<and> agrees out None m' \<and> unasked s' = {}"
proof -
  let ?sp = "run_spec rt en p health"
  obtain hp s1 where hl: "run_health health s = (hp, s1)" by (meson surj_pair)
  note s1 = run_health_state [OF m(1,2) hl]
  show ?thesis
  proof (cases hp)
    case (Some h)
    obtain out' s3 where aw:
      "await_revert rt en p armed (plan_timeout p) (HealthFailed h) pre (do_window rt False s1) = (out', s3)"
      by (meson surj_pair)
    have "s' = discard_staged rt p s3" "out = out'\<lparr>res_health := Some h, res_started := started\<rparr>"
      using run hl Some aw by (auto simp: conclude_def Let_def)
    with check_and_discard [OF s1(1) _ _ _ aw] Some m R s1(2) show ?thesis by simp
  next
    case None
    obtain ce s2 where cp: "confirm_poll rt (en_confirm_interval en) (armed + plan_timeout p) None s1 = Some (ce, s2)"
      using run hl None by (auto simp: conclude_def Let_def split: option.splits)
    let ?m1 = "m\<lparr>ph := Healthy\<rparr>"
    have "polled ?sp ?m1 s1 (ce, s2)"
      using confirm_poll_polled [OF cp, of ?sp] s1(1) None m by simp
    then obtain t g where s2:
      "ms ?sp s2 = Some (?m1\<lparr>clk := t, ph := (if ce = None then Confirmed else Healthy), settled := g\<rparr>)"
      "unasked s2 = (if ce = None then {} else unasked s)"
      using s1(2) by (auto simp: polled_def)
    show ?thesis
    proof (cases ce)
      case None
      then have "s' = do_window rt False s2" and "res_outcome out = Some Applied" "\<not> res_stranded out"
        using run hl \<open>hp = None\<close> cp by (auto simp: conclude_def Let_def blank_result_def)
      with s2 None show ?thesis by (simp add: window_ms window_unasked agrees_def)
    next
      case (Some e)
      obtain out' s4 where aw: "await_revert rt en p armed (plan_timeout p) (ConfirmNeverLanded e) pre
          (do_window rt False s2) = (out', s4)" by (meson surj_pair)
      have "s' = discard_staged rt p s4" "out = out'\<lparr>res_started := started\<rparr>"
        using run hl \<open>hp = None\<close> cp Some aw by (auto simp: conclude_def Let_def)
      with check_and_discard [OF s2(1) _ _ _ aw] Some m R s2(2) show ?thesis by simp
    qed
  qed
qed

lemma engine_apply_budget_errors:
  assumes "trc s = []" and run: "engine_apply rt en p health s = Some ((out, Some (BudgetRefused b errs)), s')"
  shows "refused_reverts s' = fst ` set errs"
proof -
  obtain started s1 where now: "do_now rt s = (started, s1)" by (meson surj_pair)
  obtain r s2 where pr: "prepare rt en p s1 = (r, s2)" by (meson surj_pair)
  have "r = Inl (BudgetRefused b errs) \<and> s' = snd (do_now rt s2)"
    using run now pr by (auto simp: engine_apply_def split: sum.splits option.splits prod.splits)
  with prepare_budget_errors [of rt en p s1 b errs s2] pr now.refused_run [of rt s2]
    now.refused_run [of rt s] now assms(1) show ?thesis
    by (simp add: refused_reverts_def)
qed

lemma engine_apply_agrees:
  assumes start: "trc s = []" and run: "engine_apply rt en p health s = Some ((out, err), s')"
  shows "\<exists>m. ms (run_spec rt en p health) s' = Some m \<and> agrees out err m \<and> unasked s' = {}"
proof -
  let ?sp = "run_spec rt en p health"
  obtain started s1 where now: "do_now rt s = (started, s1)" by (meson surj_pair)
  have "ms ?sp s = Some mon_init" and R0: "unasked s = {}"
    using start by (simp_all add: ms_def unasked_def)
  note s1 = finish_state [OF this(1) now]
  have idle: "ph (mon_init\<lparr>clk := started\<rparr>) = Idle" by (simp add: mon_init_def)
  have R1: "unasked s1 = {}" using s1(2) R0 by simp
  from prepare_cases [OF s1(1) idle R1] show ?thesis
  proof cases
    case (1 e s2 m2)
    obtain t s3 where nw: "do_now rt s2 = (t, s3)" by (meson surj_pair)
    have "s' = s3" "err = Some e" "out = (blank_result started)\<lparr>res_finished := t\<rparr>"
      using run now 1(1) nw by (auto simp: engine_apply_def)
    with finish_state [OF 1(2) nw] 1(3,4) show ?thesis by (auto simp: agrees_def blank_result_def)
  next
    case (2 pre t s2 m2)
    obtain out' s3 where cn: "conclude rt en p health started pre t s2 = Some (out', s3)"
      using run now 2(1) by (auto simp: engine_apply_def split: option.splits)
    have "\<not> fresh_open m2" using 2(5) by (simp add: mon_init_def)
    from conclude_agrees [OF 2(2,3) this 2(4,6) cn]
    obtain m3 where m3: "ms ?sp s3 = Some m3" "agrees out' None m3" "unasked s3 = {}" by blast
    obtain t' s4 where nw: "do_now rt s3 = (t', s4)" by (meson surj_pair)
    have "s' = s4" "err = None" "out = out'\<lparr>res_finished := t'\<rparr>"
      using run now 2(1) cn nw by (auto simp: engine_apply_def)
    with finish_state [OF m3(1) nw] m3 show ?thesis by auto
  qed
qed

end
