(* ===== verification/EngineClaims.thy ===== *)
theory EngineClaims
  imports EngineRuns
begin

text \<open>
  The guarantees of \<open>Engine.Apply\<close> for every router, clock, context and health check, with a
  small concrete router on which each is exercised.
\<close>

section \<open>Reading the trace off the monitor\<close>

lemma mrun_None: "mrun sp None es = None"
  by (induction es) auto

lemma mrun_snoc: "mrun sp mo (es @ [e]) = (case mrun sp mo es of None \<Rightarrow> None | Some m \<Rightarrow> mstep sp e m)"
  by (simp add: mrun_append)

text \<open>A phase that is entered by one kind of event and never left tells that the event happened.\<close>

lemma mrun_seen:
  assumes "\<And>e m m'. mstep sp e m = Some m' \<Longrightarrow> P m' \<longleftrightarrow> P m \<or> Q e" and "\<not> P mon_init"
  shows "mrun sp (Some mon_init) es = Some m \<Longrightarrow> P m \<longleftrightarrow> (\<exists>e\<in>set es. Q e)"
proof (induction es arbitrary: m rule: rev_induct)
  case Nil
  then show ?case using assms(2) by auto
next
  case (snoc e es)
  then obtain m0 where "mrun sp (Some mon_init) es = Some m0" "mstep sp e m0 = Some m"
    by (auto simp: mrun_snoc split: option.splits)
  with snoc.IH assms(1) show ?case by auto
qed

lemma seen_stage:
  assumes "ms sp s = Some m" shows "ph m \<noteq> Idle \<longleftrightarrow> (\<exists>calls b. EStage calls b \<in> set (trc s))"
proof -
  have "ph m' \<noteq> Idle \<longleftrightarrow> ph m \<noteq> Idle \<or> (\<exists>calls b. e = EStage calls b)"
    if "mstep sp e m = Some m'" for e m m'
    using that by (cases e) (auto split: if_splits)
  from mrun_seen [of sp "\<lambda>m. ph m \<noteq> Idle", OF this] assms show ?thesis
    by (auto simp: ms_def mon_init_def)
qed

abbreviation live :: "phase \<Rightarrow> bool" where
  "live p \<equiv> p \<in> {Armed, Healthy, Rejected, Confirmed}"

lemma seen_apply:
  assumes "ms sp s = Some m" shows "live (ph m) \<longleftrightarrow> (\<exists>n. EApply n True \<in> set (trc s))"
proof -
  have "live (ph m') \<longleftrightarrow> live (ph m) \<or> (\<exists>n. e = EApply n True)" if "mstep sp e m = Some m'" for e m m'
    using that by (cases e; cases "ph m"; simp split: if_splits; fastforce)
  from mrun_seen [of sp "\<lambda>m. live (ph m)", OF this] assms show ?thesis
    by (auto simp: ms_def mon_init_def)
qed

lemma seen_called:
  assumes "ms sp s = Some m" shows "ph m \<notin> {Idle, Staged} \<longleftrightarrow> (\<exists>n b. EApply n b \<in> set (trc s))"
proof -
  have "ph m' \<notin> {Idle, Staged} \<longleftrightarrow> ph m \<notin> {Idle, Staged} \<or> (\<exists>n b. e = EApply n b)" if "mstep sp e m = Some m'" for e m m'
    using that by (cases e; cases "ph m"; simp split: if_splits; fastforce)
  from mrun_seen [of sp "\<lambda>m. ph m \<notin> {Idle, Staged}", OF this] assms show ?thesis
    by (auto simp: ms_def mon_init_def)
qed

lemma seen_confirm:
  assumes "ms sp s = Some m" shows "ph m = Confirmed \<longleftrightarrow> EConfirm True \<in> set (trc s)"
proof -
  have "ph m' = Confirmed \<longleftrightarrow> ph m = Confirmed \<or> e = EConfirm True" if "mstep sp e m = Some m'" for e m m'
    using that by (cases e) (auto split: if_splits)
  from mrun_seen [of sp "\<lambda>m. ph m = Confirmed", OF this] assms show ?thesis
    by (auto simp: ms_def mon_init_def)
qed

lemma seen_rejected:
  assumes "ms sp s = Some m" shows "ph m = Rejected \<longleftrightarrow> EHealth False \<in> set (trc s)"
proof -
  have "ph m' = Rejected \<longleftrightarrow> ph m = Rejected \<or> e = EHealth False" if "mstep sp e m = Some m'" for e m m'
    using that by (cases e) (auto split: if_splits)
  from mrun_seen [of sp "\<lambda>m. ph m = Rejected", OF this] assms show ?thesis
    by (auto simp: ms_def mon_init_def)
qed

lemma mrun_prefix: "mrun sp mo (xs @ ys) = Some m \<Longrightarrow> \<exists>m0. mrun sp mo xs = Some m0"
  by (cases "mrun sp mo xs") (auto simp: mrun_append mrun_None)

lemma takeWhile_until: "x \<in> set xs \<Longrightarrow> \<exists>ys. xs = takeWhile (\<lambda>e. e \<noteq> x) xs @ x # ys"
  by (induction xs) auto

lemma seen_healthy:
  assumes "ms sp s = Some m" and "needs_health sp"
  shows "ph m \<in> {Healthy, Confirmed} \<longleftrightarrow> EHealth True \<in> set (trc s)"
proof -
  have "ph m' \<in> {Healthy, Confirmed} \<longleftrightarrow> ph m \<in> {Healthy, Confirmed} \<or> e = EHealth True"
    if "mstep sp e m = Some m'" for e m m'
    using that assms(2) by (cases e) (auto split: if_splits)
  from mrun_seen [of sp "\<lambda>m. ph m \<in> {Healthy, Confirmed}", OF this] assms(1) show ?thesis
    by (auto simp: ms_def mon_init_def)
qed

section \<open>A concrete router\<close>

text \<open>
  A router whose world is its clock in nanoseconds: waiting advances it, confirm is answered from a
  given time on, a fresh session reads what \<open>after\<close> says, and the applying session reads the
  old value. The caller's deadline is far away.
\<close>

definition clock_router :: "int \<Rightarrow> (string \<times> int) list \<Rightarrow> string \<Rightarrow> int router" where
  "clock_router confirm_from dirty after =
     \<lparr>rt_now = (\<lambda>t. (t, t)),
      rt_ctx_ended = (\<lambda>t. (False, t)),
      rt_deadline = Some (seconds 1000),
      rt_list = (\<lambda>path t. (Inr dirty, t)),
      rt_get = (\<lambda>fresh c sec k t. (Inr (if fresh then after else ''1500''), t)),
      rt_batch = (\<lambda>calls t. (Inr (map (\<lambda>_. None) calls), t)),
      rt_changes = (\<lambda>t. (Inr [(''network'', 1)], t)),
      rt_revert = (\<lambda>cfg t. (None, t)),
      rt_apply = (\<lambda>secs t. (None, t)),
      rt_confirm = (\<lambda>t. (if seconds confirm_from \<le> t then None else Some (OtherErr ''timeout''), t)),
      rt_fresh = (\<lambda>t. (None, t)),
      rt_wait = (\<lambda>d t. (False, t + d)),
      rt_window = (\<lambda>b t. t)\<rparr>"

definition mtu_plan :: "bool \<Rightarrow> plan" where
  "mtu_plan ack =
     \<lparr>pl_ops = [\<lparr>op_kind = OpSet, op_config = ''network'', op_section = ''lan'', op_type = [],
        op_name = [], op_values = [(''mtu'', ''1400'')], op_lists = [], op_option = [], op_patch = True\<rparr>],
      pl_timeout = seconds 30, pl_ack = ack\<rparr>"

definition demo_engine :: engine where
  "demo_engine = \<lparr>en_confirm_interval = seconds 10, en_revert_grace = seconds 15\<rparr>"

definition demo_start :: "int st" where
  "demo_start = \<lparr>wld = 0, trc = []\<rparr>"

definition link_up :: "bool \<Rightarrow> int health" where
  "link_up ok = (\<lambda>t. (if ok then None else Some ''link down'', t + seconds 2))"

definition demo_run :: "int \<Rightarrow> (string \<times> int) list \<Rightarrow> string \<Rightarrow> bool \<Rightarrow> bool \<Rightarrow>
    ((result \<times> apply_error option) \<times> int st) option" where
  "demo_run confirm_from dirty after ack ok =
     engine_apply (clock_router confirm_from dirty after) demo_engine (mtu_plan ack) (Some (link_up ok)) demo_start"

lemma demo_outcomes:
  "map_option (\<lambda>((out, err), s). (res_outcome out, err, wld s)) (demo_run 10 [] ''1500'' True True) =
     Some (Some Applied, None, 12000000000)"
  "map_option (\<lambda>((out, err), s). (res_outcome out, err, wld s)) (demo_run 90 [] ''1500'' True True) =
     Some (Some Reverted, None, 45000000000)"
  "map_option (\<lambda>((out, err), s). (res_outcome out, err, wld s)) (demo_run 10 [] ''1500'' True False) =
     Some (Some Reverted, None, 45000000000)"
  "map_option (\<lambda>((out, err), s). (res_outcome out, err, wld s)) (demo_run 90 [] ''1400'' True True) =
     Some (Some Unknown, None, 45000000000)"
  by code_simp+

lemma demo_returns:
  obtains out err s' where "demo_run 90 [] ''1500'' True True = Some ((out, err), s')"
    "res_outcome out = Some Reverted" "err = None"
proof -
  from demo_outcomes(2) obtain r where "demo_run 90 [] ''1500'' True True = Some r"
    "(\<lambda>((out, err), s). (res_outcome out, err, wld s)) r = (Some Reverted, None, 45000000000)"
    unfolding map_option_eq_Some by blast
  with that show thesis by (cases r) auto
qed

lemma demo_confirms:
  obtains out err s' where "demo_run 10 [] ''1500'' True True = Some ((out, err), s')"
    "res_outcome out = Some Applied" "err = None"
proof -
  from demo_outcomes(1) obtain r where "demo_run 10 [] ''1500'' True True = Some r"
    "(\<lambda>((out, err), s). (res_outcome out, err, wld s)) r = (Some Applied, None, 12000000000)"
    unfolding map_option_eq_Some by blast
  with that show thesis by (cases r) auto
qed

lemma demo_start_trc: "trc demo_start = []"
  by (simp add: demo_start_def)

section \<open>Order of calls and outcomes\<close>



lemma reports_calls:
  assumes "trc s = []" and "engine_apply rt en p health s = Some ((out, err), s')"
  shows "(res_outcome out = Some Applied \<longleftrightarrow> EConfirm True \<in> set (trc s')) \<and>
    (err \<noteq> None \<longleftrightarrow> (\<forall>n. EApply n True \<notin> set (trc s'))) \<and>
    (res_outcome out = None \<longleftrightarrow> err \<noteq> None) \<and>
    (res_stranded out \<longleftrightarrow> res_outcome out = Some Unknown)"
proof -
  obtain m where m: "ms (run_spec rt en p health) s' = Some m" "agrees out err m"
    using engine_apply_agrees [OF assms] by blast
  have "(err \<noteq> None \<longleftrightarrow> \<not> live (ph m)) \<and> (res_outcome out = Some Applied \<longleftrightarrow> ph m = Confirmed) \<and>
    (res_outcome out = None \<longleftrightarrow> err \<noteq> None) \<and> (res_stranded out \<longleftrightarrow> res_outcome out = Some Unknown)"
    using m(2) by (cases err) (auto simp: agrees_def verdict_def split: if_splits)
  then show ?thesis using seen_apply [OF m(1)] seen_confirm [OF m(1)] by blast
qed

lemma reports_apply:
  assumes "trc s = []" and "engine_apply rt en p health s = Some ((out, err), s')"
  shows "(\<exists>n b. EApply n b \<in> set (trc s')) \<longleftrightarrow> (\<forall>e. err = Some e \<longrightarrow> apply_refused e)"
proof -
  obtain m where m: "ms (run_spec rt en p health) s' = Some m" "agrees out err m"
    using engine_apply_agrees [OF assms] by blast
  have "(\<forall>e. err = Some e \<longrightarrow> apply_refused e) \<longleftrightarrow> ph m \<notin> {Idle, Staged}"
    using m(2) by (cases err) (auto simp: agrees_def split: if_splits)
  with seen_called [OF m(1)] show ?thesis by blast
qed

text \<open>
  C2. What \<open>Engine.Apply\<close> reports is what it did: \<open>Applied\<close> exactly when a \<open>uci.confirm\<close>
  replied with success, an error exactly when no \<open>uci.apply\<close> did. The error also tells whether
  \<open>uci.apply\<close> was called at all: it was, unless there is an error other than the two that wrap
  the reply of that call; so any other error means that the device was never asked to write its
  live configuration. Without an error there is an outcome, and the device is called stranded
  exactly when that outcome is \<open>Unknown\<close>.
\<close>

theorem outcome_reports_calls:
  assumes "trc s = []" and "engine_apply rt en p health s = Some ((out, err), s')"
  shows "(res_outcome out = Some Applied \<longleftrightarrow> EConfirm True \<in> set (trc s')) \<and>
    (err \<noteq> None \<longleftrightarrow> (\<forall>n. EApply n True \<notin> set (trc s'))) \<and>
    ((\<exists>n b. EApply n b \<in> set (trc s')) \<longleftrightarrow> (\<forall>e. err = Some e \<longrightarrow> apply_refused e)) \<and>
    (res_outcome out = None \<longleftrightarrow> err \<noteq> None) \<and>
    (res_stranded out \<longleftrightarrow> res_outcome out = Some Unknown)"
  using reports_calls [OF assms] reports_apply [OF assms] by blast

theorem outcome_reports_calls_witness:
  "case demo_run 10 [] ''1500'' True True of
     None \<Rightarrow> False
   | Some ((out, err), s') \<Rightarrow> EConfirm True \<in> set (trc s') \<and> (\<exists>n. EApply n True \<in> set (trc s'))"
proof -
  obtain out err s' where run: "demo_run 10 [] ''1500'' True True = Some ((out, err), s')"
    "res_outcome out = Some Applied" "err = None"
    by (rule demo_confirms)
  show ?thesis
    using outcome_reports_calls [OF demo_start_trc run(1) [unfolded demo_run_def]] run by simp
qed

text \<open>
  C3. When a health check is given, \<open>uci.confirm\<close> is never called before it passed, nor after it
  failed, nor before \<open>uci.apply\<close> succeeded: at every confirm in the trace the calls before it
  contain the successful apply and the successful health check and no failed one.
\<close>

theorem confirm_after_health:
  assumes "trc s = []" and "engine_apply rt en p (Some h) s = Some ((out, err), s')"
    and "trc s' = xs @ EConfirm b # ys"
  shows "EHealth True \<in> set xs \<and> EHealth False \<notin> set xs \<and> (\<exists>n. EApply n True \<in> set xs)"
proof -
  let ?sp = "run_spec rt en p (Some h)" and ?x = "s'\<lparr>trc := xs\<rparr>"
  obtain m where "mrun ?sp (Some mon_init) (xs @ EConfirm b # ys) = Some m"
    using engine_apply_agrees [OF assms(1,2)] assms(3) by (auto simp: ms_def)
  then obtain m0 where m0: "ms ?sp ?x = Some m0" and "ph m0 = Healthy"
    by (auto simp: ms_def mrun_append mrun_None split: option.splits if_splits)
  then show ?thesis
    using seen_healthy [OF m0] seen_rejected [OF m0] seen_apply [OF m0] by simp
qed

theorem confirm_after_health_witness:
  "case demo_run 10 [] ''1500'' True True of
     None \<Rightarrow> False
   | Some ((out, err), s') \<Rightarrow> EHealth True \<in> set (takeWhile (\<lambda>e. e \<noteq> EConfirm True) (trc s'))"
proof -
  obtain out err s' where run: "demo_run 10 [] ''1500'' True True = Some ((out, err), s')"
    "res_outcome out = Some Applied" "err = None"
    by (rule demo_confirms)
  have "map_option (\<lambda>(_, s). EConfirm True \<in> set (trc s)) (demo_run 10 [] ''1500'' True True) = Some True"
    by code_simp
  then have "EConfirm True \<in> set (trc s')" using run(1) by simp
  from takeWhile_until [OF this]
  obtain ys where "trc s' = takeWhile (\<lambda>e. e \<noteq> EConfirm True) (trc s') @ EConfirm True # ys" ..
  from confirm_after_health [OF demo_start_trc run(1) [unfolded demo_run_def] this] run show ?thesis by simp
qed

text \<open>
  C4. \<open>Engine.Apply\<close> never forgets a staged change: on every return, success, failure and error
  alike, \<open>uci.revert\<close> has been called for each config that was staged on the applying session
  since it was staged, unless the confirm landed. What may still be staged then is only what the
  device failed to revert, and when the rollback budget is missing the error names exactly those
  configs.
\<close>

theorem nothing_left_staged:
  assumes "trc s = []" and "engine_apply rt en p health s = Some ((out, err), s')"
  shows "unasked s' = {} \<and> residue s' \<subseteq> refused_reverts s' \<and>
    (\<forall>b errs. err = Some (BudgetRefused b errs) \<longrightarrow> refused_reverts s' = fst ` set errs)"
proof -
  have "unasked s' = {}" using engine_apply_agrees [OF assms] by blast
  moreover from this have "residue s' \<subseteq> refused_reverts s'" using residue_refused [of s'] by simp
  ultimately show ?thesis using engine_apply_budget_errors [OF assms(1)] assms(2) by blast
qed

theorem nothing_left_staged_witness:
  "case demo_run 90 [] ''1500'' True True of None \<Rightarrow> False | Some (_, s') \<Rightarrow> unasked s' = {} \<and> residue s' = {}"
proof -
  obtain out err s' where run: "demo_run 90 [] ''1500'' True True = Some ((out, err), s')"
    by (rule demo_returns)
  have "map_option (\<lambda>(_, s). list_all (\<lambda>e. case e of ERevert c b \<Rightarrow> b | _ \<Rightarrow> True) (trc s))
      (demo_run 90 [] ''1500'' True True) = Some True"
    by code_simp
  then have "refused_reverts s' = {}"
    using run by (force simp: refused_reverts_def list_all_iff)
  then show ?thesis
    using nothing_left_staged [OF demo_start_trc run [unfolded demo_run_def]] run by simp
qed

section \<open>The preflight gate\<close>

lemma preflight_refusal:
  assumes "pl_ops p \<noteq> []" and "rt_list rt ''/tmp/.uci'' (snd (rt_now rt (wld s))) = (Inr entries, w)"
    and "dirty = map fst (filter (\<lambda>e. snd e > 0) entries)"
    and "dirty \<noteq> [] \<or> touches_management_path p \<and> \<not> pl_ack p"
  shows "\<exists>out s' t1 t2. engine_apply rt en p health s =
      Some ((out, Some (if dirty \<noteq> [] then DirtyError dirty else TraversalNotAcknowledged)), s') \<and>
    trc s' = trc s @ [ENow t1, EList, ENow t2]"
  using assms
  by (auto simp: engine_apply_def prepare_def preflight_def foreign_dirty_configs_def do_now_def
      do_list_def emit_def split: prod.splits)

text \<open>
  C5. A device somebody else is editing, or a plan that touches the management path without the
  acknowledgement, is refused before anything is written: the only calls of the run are two clock
  readings and the listing of the savedir, and the error names the files with foreign changes.
\<close>

theorem preflight_gate:
  assumes "pl_ops p \<noteq> []" and "trc s = []"
    and "rt_list rt ''/tmp/.uci'' (snd (rt_now rt (wld s))) = (Inr entries, w)"
    and "(\<exists>(name, size)\<in>set entries. size > 0) \<or> touches_management_path p \<and> \<not> pl_ack p"
  shows "\<exists>out err s'. engine_apply rt en p health s = Some ((out, Some err), s') \<and>
    set (trc s') \<subseteq> insert EList (range ENow) \<and>
    err = (if \<exists>(name, size)\<in>set entries. size > 0
           then DirtyError (map fst (filter (\<lambda>e. snd e > 0) entries)) else TraversalNotAcknowledged)"
proof -
  let ?dirty = "map fst (filter (\<lambda>e. snd e > 0) entries)"
  have d: "?dirty \<noteq> [] \<longleftrightarrow> (\<exists>(name, size)\<in>set entries. size > 0)"
    by (force simp: filter_empty_conv)
  with assms(4) have "?dirty \<noteq> [] \<or> touches_management_path p \<and> \<not> pl_ack p" by blast
  from preflight_refusal [OF assms(1,3) refl this, of en health]
  obtain out s' t1 t2 where run: "engine_apply rt en p health s =
      Some ((out, Some (if ?dirty \<noteq> [] then DirtyError ?dirty else TraversalNotAcknowledged)), s')"
    and "trc s' = trc s @ [ENow t1, EList, ENow t2]" by blast
  then have "set (trc s') \<subseteq> insert EList (range ENow)" using assms(2) by auto
  with run show ?thesis unfolding d by blast
qed

theorem preflight_gate_witness:
  "\<exists>out s'. demo_run 10 [(''dhcp'', 0)] ''1500'' False True = Some ((out, Some TraversalNotAcknowledged), s') \<and>
    set (trc s') \<subseteq> insert EList (range ENow)"
proof -
  have "touches_management_path (mtu_plan False) \<and> \<not> pl_ack (mtu_plan False)"
    "pl_ops (mtu_plan False) \<noteq> []" by code_simp+
  moreover have "rt_list (clock_router 10 [(''dhcp'', 0)] ''1500'') ''/tmp/.uci''
      (snd (rt_now (clock_router 10 [(''dhcp'', 0)] ''1500'') (wld demo_start))) = (Inr [(''dhcp'', 0)], 0)"
    by code_simp
  ultimately show ?thesis
    using preflight_gate [of "mtu_plan False" demo_start "clock_router 10 [(''dhcp'', 0)] ''1500''"
        "[(''dhcp'', 0)]" 0 demo_engine "Some (link_up True)"]
    by (auto simp: demo_run_def demo_start_def)
qed

section \<open>The revert check\<close>

text \<open>
  Reads of a device whose configuration does not change while it is read: \<open>f\<close> says what each
  option holds, \<open>None\<close> that it is not there.
\<close>

definition reads :: "'w router \<Rightarrow> bool \<Rightarrow> (string \<Rightarrow> string \<Rightarrow> string \<Rightarrow> string option) \<Rightarrow> bool" where
  "reads rt fresh f \<longleftrightarrow>
     (\<forall>c sec k w. case fst (rt_get rt fresh c sec k w) of
        Inr v \<Rightarrow> f c sec k = Some v
      | Inl e \<Rightarrow> f c sec k = None \<and> e \<in> {StatusErr StatusNotFound, StatusErr StatusNoData})"

definition written :: "(string \<Rightarrow> string \<Rightarrow> string \<Rightarrow> string option) \<Rightarrow> plan \<Rightarrow>
    (string \<times> string \<times> string \<times> string) list" where
  "written g p = filter (\<lambda>(c, sec, k, want). g c sec k \<noteq> Some want) (plan_checks p)"

lemma do_get_reads:
  assumes "reads rt fresh f" and "do_get rt fresh c sec k s = (r, s')"
  shows "(case r of Inr v \<Rightarrow> f c sec k = Some v
    | Inl e \<Rightarrow> f c sec k = None \<and> (e = StatusErr StatusNotFound \<or> e = StatusErr StatusNoData))"
proof -
  have "r = fst (rt_get rt fresh c sec k (wld s))"
    using assms(2) by (auto simp: do_get_def split: prod.splits)
  with assms(1) show ?thesis unfolding reads_def by (auto split: sum.splits)
qed

lemma snapshot_reads:
  assumes "reads rt False g"
  shows "map_of (fst (snapshot_options rt cs out s)) (c, sec, k) =
    (if \<exists>want. (c, sec, k, want) \<in> set cs
     then Some (case g c sec k of Some v \<Rightarrow> (v, True) | None \<Rightarrow> ([], False))
     else map_of out (c, sec, k))"
proof (induction cs arbitrary: out s)
  case (Cons check cs)
  obtain c' sec' k' want' where [simp]: "check = (c', sec', k', want')" by (cases check)
  obtain r s1 where get: "do_get rt False c' sec' k' s = (r, s1)" by (meson surj_pair)
  from do_get_reads [OF assms get] show ?case
    using get Cons.IH by (cases r) auto
qed simp

definition votes :: "pre_apply \<Rightarrow> string \<times> string \<times> string \<times> string \<Rightarrow> bool" where
  "votes pre = (\<lambda>(c, sec, k, want).
     (case map_of pre (c, sec, k) of None \<Rightarrow> False | Some (prev, found) \<Rightarrow> \<not> (found \<and> prev = want)))"

definition planned_value :: "(string \<Rightarrow> string \<Rightarrow> string \<Rightarrow> string option) \<Rightarrow>
    (string \<times> string \<times> string \<times> string) list \<Rightarrow> bool" where
  "planned_value f cs \<longleftrightarrow> (\<exists>(c, sec, k, want)\<in>set cs. f c sec k = Some want)"

lemma planned_value_simps [simp]:
  "\<not> planned_value f []"
  "planned_value f ((c, sec, k, want) # cs) \<longleftrightarrow> f c sec k = Some want \<or> planned_value f cs"
  by (auto simp: planned_value_def)

lemma still_applied_reads:
  assumes "reads rt True f"
  shows "fst (still_applied rt pre cs checked s) =
    (planned_value f (filter (votes pre) cs), checked \<or> filter (votes pre) cs \<noteq> [], None)"
proof (induction cs arbitrary: checked s)
  case (Cons check cs)
  obtain c sec k want where [simp]: "check = (c, sec, k, want)" by (cases check)
  obtain r s1 where get: "do_get rt True c sec k s = (r, s1)" by (meson surj_pair)
  show ?case
  proof (cases "votes pre check")
    case False
    then show ?thesis using Cons.IH by (auto simp: votes_def split: option.splits)
  next
    case True
    then obtain prev found where "map_of pre (c, sec, k) = Some (prev, found)" "\<not> (found \<and> prev = want)"
      by (auto simp: votes_def split: option.splits)
    with do_get_reads [OF assms get] True show ?thesis
      using get Cons.IH by (cases r) auto
  qed
qed simp

lemma snapshot_votes:
  assumes "reads rt False g"
  shows "filter (votes (fst (snapshot_planned rt p s))) (plan_checks p) = written g p"
  unfolding written_def
proof (rule filter_cong [OF refl])
  fix check
  assume "check \<in> set (plan_checks p)"
  moreover obtain c sec k want where [simp]: "check = (c, sec, k, want)" by (cases check)
  ultimately have "map_of (fst (snapshot_planned rt p s)) (c, sec, k) =
      Some (case g c sec k of Some v \<Rightarrow> (v, True) | None \<Rightarrow> ([], False))"
    using snapshot_reads [OF assms, of "plan_checks p" "[]" s c sec k]
    by (auto simp: snapshot_planned_def)
  then show "votes (fst (snapshot_planned rt p s)) check = (case check of (c, sec, k, want) \<Rightarrow> g c sec k \<noteq> Some want)"
    by (cases "g c sec k") (auto simp: votes_def)
qed

definition calm :: "'w router \<Rightarrow> bool" where
  "calm rt \<longleftrightarrow> (\<forall>d w. \<not> fst (rt_wait rt d w)) \<and> (\<forall>w. fst (rt_fresh rt w) = None)"

lemma await_revert_outcome:
  assumes "calm rt" and "reads rt True f" and "pre = fst (snapshot_planned rt0 p s0)" and "reads rt0 False g"
  shows "res_outcome (fst (await_revert rt en p armed timeout why pre s)) =
    Some (if written g p \<noteq> [] \<and> \<not> planned_value f (written g p) then Reverted else Unknown)"
proof -
  obtain started s1 where now: "do_now rt s = (started, s1)" by (meson surj_pair)
  obtain ended s2 where wt: "await_wait rt (armed + (timeout + en_revert_grace en)) s1 = (ended, s2)"
    by (meson surj_pair)
  have "\<not> ended"
    using wt assms(1) by (auto simp: calm_def await_wait_def do_wait_def Let_def split: prod.splits if_splits)
      (metis fst_conv)
  moreover obtain r s3 where fr: "do_fresh rt s2 = (r, s3)" by (meson surj_pair)
  moreover have "r = None"
    using fr assms(1) by (auto simp: calm_def do_fresh_def split: prod.splits) (metis fst_conv)
  moreover obtain still ck err s4 where chk: "plan_still_applied rt p pre s3 = ((still, ck, err), s4)"
    by (metis surj_pair)
  moreover obtain t s5 where nw: "do_now rt s4 = (t, s5)" by (meson surj_pair)
  moreover have "(still, ck, err) = (planned_value f (written g p), written g p \<noteq> [], None)"
    using still_applied_reads [OF assms(2), of pre "plan_checks p" False s3] chk
      snapshot_votes [OF assms(4), of p s0] assms(3) by (simp add: plan_still_applied_def)
  ultimately show ?thesis
    using now wt by (auto simp: await_revert_def stranded_result_def blank_result_def)
qed

text \<open>
  C6. The verdict of the revert check is the right one. Suppose the options held \<open>g\<close> when the
  snapshot was taken and hold \<open>f\<close> when the fresh session reads them, that the plan changes at
  least one option it writes, and that the wait is not cancelled and the session opens. Then the
  device is reported \<open>Unknown\<close> if an option that held something else before still holds the
  planned value, and \<open>Reverted\<close> otherwise: options the plan leaves as they were have no vote.
\<close>

theorem revert_verdict_exact:
  assumes "reads rt False g" and "reads rt' True f" and "calm rt'"
    and "pre = fst (snapshot_planned rt p s0)"
    and "\<exists>(c, sec, k, want)\<in>set (plan_checks p). g c sec k \<noteq> Some want"
  shows "res_outcome (fst (await_revert rt' en p armed timeout why pre s)) =
    Some (if \<exists>(c, sec, k, want)\<in>set (plan_checks p). g c sec k \<noteq> Some want \<and> f c sec k = Some want
          then Unknown else Reverted)"
proof -
  have "written g p \<noteq> []" using assms(5) by (auto simp: written_def filter_empty_conv)
  moreover have "planned_value f (written g p) \<longleftrightarrow>
      (\<exists>(c, sec, k, want)\<in>set (plan_checks p). g c sec k \<noteq> Some want \<and> f c sec k = Some want)"
    by (fastforce simp: planned_value_def written_def)
  ultimately show ?thesis by (simp add: await_revert_outcome [OF assms(3,2,4,1)])
qed

lemma clock_router_reads: "reads (clock_router n dirty after) fresh (\<lambda>_ _ _. Some (if fresh then after else ''1500''))"
  by (simp add: reads_def clock_router_def)

lemma clock_router_calm: "calm (clock_router n dirty after)"
  by (simp add: calm_def clock_router_def)

theorem revert_verdict_exact_witness:
  "res_outcome (fst (await_revert (clock_router 90 [] ''1500'') demo_engine (mtu_plan True) 0 (seconds 30)
      (HealthFailed ''link down'') (fst (snapshot_planned (clock_router 90 [] ''1500'') (mtu_plan True) demo_start))
      demo_start)) = Some Reverted"
proof -
  let ?rt = "clock_router 90 [] ''1500''" and ?f = "\<lambda>_ _ _. Some ''1500''"
  have checks: "plan_checks (mtu_plan True) = [(''network'', ''lan'', ''mtu'', ''1400'')]" by code_simp
  have "reads ?rt b ?f" for b
    using clock_router_reads [of 90 "[]" "''1500''" b] by (cases b) simp_all
  from revert_verdict_exact [OF this this clock_router_calm refl] show ?thesis
    by (simp add: checks)
qed

section \<open>Termination\<close>

text \<open>
  A clock that the calls do not turn back and that a completed wait moves on by at least the
  duration waited.
\<close>

definition clock_advances :: "'w router \<Rightarrow> ('w \<Rightarrow> int) \<Rightarrow> bool" where
  "clock_advances rt time \<longleftrightarrow>
     (\<forall>w. fst (rt_now rt w) = time w \<and> time w \<le> time (snd (rt_now rt w))) \<and>
     (\<forall>w. time w \<le> time (snd (rt_confirm rt w))) \<and>
     (\<forall>d w. fst (rt_wait rt d w) \<or> time w + d \<le> time (snd (rt_wait rt d w)))"

lemma confirm_poll_returns:
  assumes "clock_advances rt time" and "0 < interval"
  shows "\<exists>out. confirm_poll rt interval deadline lasterr s = Some out"
proof (induction "nat (deadline - time (wld s))" arbitrary: lasterr s rule: less_induct)
  case less
  obtain t s1 where now: "do_now rt s = (t, s1)" by (meson surj_pair)
  obtain r s2 where cf: "do_confirm rt s1 = (r, s2)" by (meson surj_pair)
  obtain ended s3 where wt: "do_wait rt interval s2 = (ended, s3)" by (meson surj_pair)
  have now': "t = time (wld s)" "time (wld s) \<le> time (wld s1)"
    using assms(1) now by (auto simp: clock_advances_def do_now_def emit_def split: prod.splits)
      (metis fst_conv, metis snd_conv)
  have cf': "time (wld s1) \<le> time (wld s2)"
    using assms(1) cf by (auto simp: clock_advances_def do_confirm_def emit_def split: prod.splits)
      (metis snd_conv)
  have wt': "ended \<or> time (wld s2) + interval \<le> time (wld s3)"
    using assms(1) wt by (auto simp: clock_advances_def do_wait_def emit_def split: prod.splits)
      (metis fst_conv snd_conv)
  show ?case
  proof (cases "t < deadline \<and> \<not> ended")
    case True
    then have "nat (deadline - time (wld s3)) < nat (deadline - time (wld s))"
      using now' cf' wt' assms(2) by linarith
    from less [OF this] show ?thesis
      by (subst confirm_poll.simps) (auto simp: now cf wt split: option.splits)
  next
    case False
    then show ?thesis
      by (subst confirm_poll.simps) (auto simp: now cf wt split: option.splits)
  qed
qed

text \<open>
  C7. \<open>Engine.Apply\<close> returns: on every device, for every plan and health check, as long as the
  retry interval is positive and the clock is not turned back while it polls.
\<close>

theorem engine_apply_returns:
  assumes "clock_advances rt time" and "0 < en_confirm_interval en"
  shows "\<exists>out err s'. engine_apply rt en p health s = Some ((out, err), s')"
proof -
  have "\<exists>r. conclude rt en p health started pre armed s2 = Some r" for started pre armed s2
  proof -
    obtain hp s3 where "run_health health s2 = (hp, s3)" by (meson surj_pair)
    moreover obtain ce s4 where
      "confirm_poll rt (en_confirm_interval en) (armed + plan_timeout p) None s3 = Some (ce, s4)"
      using confirm_poll_returns [OF assms] by (metis surj_pair)
    ultimately show ?thesis
      by (cases hp; cases ce; simp add: conclude_def Let_def split: prod.splits)
  qed
  note concludes = this
  obtain started s1 where now: "do_now rt s = (started, s1)" by (meson surj_pair)
  obtain r s2 where pr: "prepare rt en p s1 = (r, s2)" by (meson surj_pair)
  show ?thesis
  proof (cases r)
    case (Inl e)
    with now pr show ?thesis by (simp add: engine_apply_def split: prod.splits)
  next
    case (Inr pa)
    obtain out s3 where "conclude rt en p health started (fst pa) (snd pa) s2 = Some (out, s3)"
      using concludes by (metis surj_pair)
    with now pr Inr show ?thesis by (cases pa) (simp add: engine_apply_def split: prod.splits)
  qed
qed

lemma clock_router_advances: "clock_advances (clock_router n dirty after) (\<lambda>t. t)"
  by (simp add: clock_advances_def clock_router_def)

theorem engine_apply_returns_witness:
  "\<exists>out err s'. engine_apply (clock_router 1000 [] ''1400'') demo_engine (mtu_plan True) None demo_start =
     Some ((out, err), s')"
  by (rule engine_apply_returns [OF clock_router_advances]) (simp add: demo_engine_def seconds_def)

end
