(* ===== verification/AuditText.thy ===== *)
theory AuditText
  imports Prelude
begin

text \<open>
  Bounded text of the apply audit (\<open>boundedApplyAuditText\<close> and
  \<open>boundedApplyAuditOmissions\<close> in \<open>internal/reconcile/reconcile.go\<close>): repair of invalid
  UTF-8, a byte limit, and a cut that never splits a character. UTF-8 is the one of Go's
  \<open>unicode/utf8\<close>: shortest forms only, no surrogates, nothing above U+10FFFF.
\<close>

section \<open>UTF-8\<close>

definition byte :: "char \<Rightarrow> nat" where
  "byte c = of_char c"

definition between :: "nat \<Rightarrow> nat \<Rightarrow> char \<Rightarrow> bool" where
  "between lo hi c \<longleftrightarrow> lo \<le> byte c \<and> byte c \<le> hi"

abbreviation cont :: "char \<Rightarrow> bool" where
  "cont \<equiv> between 0x80 0xBF"

text \<open>The width a leading byte announces, and the range of the byte after it.\<close>

definition rune_width :: "char \<Rightarrow> nat" where
  "rune_width a =
     (if byte a < 0x80 then 1 else if between 0xC2 0xDF a then 2
      else if between 0xE0 0xEF a then 3 else if between 0xF0 0xF4 a then 4 else 0)"

definition second_ok :: "char \<Rightarrow> char \<Rightarrow> bool" where
  "second_ok a b \<longleftrightarrow>
     (if byte a = 0xE0 then between 0xA0 0xBF b
      else if byte a = 0xED then between 0x80 0x9F b
      else if byte a = 0xF0 then between 0x90 0xBF b
      else if byte a = 0xF4 then between 0x80 0x8F b
      else cont b)"

fun tail_ok :: "char \<Rightarrow> string \<Rightarrow> bool" where
  "tail_ok a [] = True"
| "tail_ok a (b # bs) = (second_ok a b \<and> list_all cont bs)"

text \<open>The width of the character the text starts with, 0 when it starts with none.\<close>

fun rune_len :: "string \<Rightarrow> nat" where
  "rune_len [] = 0"
| "rune_len (a # r) =
     (let w = rune_width a; t = take (w - 1) r
      in if w \<noteq> 0 \<and> length t = w - 1 \<and> tail_ok a t then w else 0)"

definition rune_start :: "char \<Rightarrow> bool" where
  "rune_start c \<longleftrightarrow> \<not> cont c"

definition replacement :: string where "replacement = [CHR 0xEF, CHR 0xBF, CHR 0xBD]"
definition ellipsis :: string where "ellipsis = [CHR 0xE2, CHR 0x80, CHR 0xA6]"

text \<open>\<open>strings.ToValidUTF8\<close>: a run of invalid bytes becomes one replacement.\<close>

function to_valid :: "bool \<Rightarrow> string \<Rightarrow> string" where
  "to_valid in_run [] = []"
| "to_valid in_run (c # cs) =
     (let n = rune_len (c # cs)
      in if n = 0 then (if in_run then [] else replacement) @ to_valid True cs
         else take n (c # cs) @ to_valid False (drop n (c # cs)))"
  by pat_completeness auto
termination
  by (relation "measure (\<lambda>(_, s). length s)") (auto simp del: rune_len.simps)

definition to_valid_utf8 :: "string \<Rightarrow> string" where
  "to_valid_utf8 s = to_valid False s"

function valid_utf8 :: "string \<Rightarrow> bool" where
  "valid_utf8 [] = True"
| "valid_utf8 (c # cs) = (let n = rune_len (c # cs) in if n = 0 then False else valid_utf8 (drop n (c # cs)))"
  by pat_completeness auto
termination
  by (relation "measure length") (auto simp del: rune_len.simps)

section \<open>Bounded text\<close>

fun back_up :: "string \<Rightarrow> nat \<Rightarrow> nat" where
  "back_up s 0 = 0"
| "back_up s (Suc n) = (if rune_start (s ! Suc n) then Suc n else back_up s n)"

definition bounded_audit_text :: "string \<Rightarrow> nat \<Rightarrow> string \<times> bool" where
  "bounded_audit_text value limit =
     (let valid = to_valid_utf8 value; changed = (valid \<noteq> value)
      in if length valid \<le> limit then (valid, changed)
         else (take (back_up valid (limit - length ellipsis)) valid @ ellipsis, True))"

section \<open>Facts\<close>

lemma rune_len_le: "rune_len s \<le> length s"
  by (cases s) (auto simp: Let_def)

lemma rune_len_append: "rune_len s \<noteq> 0 \<Longrightarrow> rune_len (s @ t) = rune_len s"
proof (cases s)
  case (Cons a r)
  assume "rune_len s \<noteq> 0"
  with Cons have "rune_width a \<noteq> 0" "rune_width a - 1 \<le> length r" "tail_ok a (take (rune_width a - 1) r)"
    by (auto simp: Let_def split: if_splits)
  with Cons show ?thesis by (simp add: Let_def)
qed simp

lemma rune_len_take: "rune_len s \<noteq> 0 \<Longrightarrow> rune_len (take (rune_len s) s) = rune_len s"
proof (cases s)
  case (Cons a r)
  assume n: "rune_len s \<noteq> 0"
  with Cons have w: "rune_len s = rune_width a" "rune_width a - 1 \<le> length r" "tail_ok a (take (rune_width a - 1) r)"
    by (auto simp: Let_def split: if_splits)
  have "take (rune_len s) s = a # take (rune_width a - 1) r" using n w(1) Cons by (cases "rune_width a") auto
  with w n show ?thesis by (simp add: Let_def)
qed simp

lemma second_cont: "second_ok a b \<Longrightarrow> cont b"
  by (auto simp: second_ok_def between_def split: if_splits)

lemma tail_cont: "tail_ok a t \<Longrightarrow> list_all cont t"
  by (cases t) (auto dest: second_cont)

lemma rune_inside: "i < rune_len s \<Longrightarrow> 0 < i \<Longrightarrow> \<not> rune_start (s ! i)"
proof (cases s)
  case (Cons a r)
  assume i: "i < rune_len s" "0 < i"
  with Cons have w: "i < rune_width a" "length (take (rune_width a - 1) r) = rune_width a - 1"
    "tail_ok a (take (rune_width a - 1) r)"
    by (auto simp: Let_def split: if_splits)
  have "i - 1 < rune_width a - 1" using i w(1) by linarith
  with w(2,3) tail_cont have "cont (take (rune_width a - 1) r ! (i - 1))" by (metis list_all_length)
  with i Cons \<open>i - 1 < rune_width a - 1\<close> show ?thesis by (simp add: rune_start_def)
qed simp

lemma valid_step: "rune_len s \<noteq> 0 \<Longrightarrow> valid_utf8 s \<longleftrightarrow> valid_utf8 (drop (rune_len s) s)"
  by (cases s) (simp_all add: Let_def del: rune_len.simps(2))

lemma valid_rune: "rune_len s = length s \<Longrightarrow> valid_utf8 s"
  by (cases s) (simp_all add: Let_def del: rune_len.simps)

lemma valid_append: "valid_utf8 s \<Longrightarrow> valid_utf8 t \<Longrightarrow> valid_utf8 (s @ t)"
proof (induction s rule: valid_utf8.induct)
  case (2 c cs)
  let ?s = "c # cs"
  have n: "rune_len ?s \<noteq> 0" and v: "valid_utf8 (drop (rune_len ?s) ?s)"
    using "2.prems"(1) by (simp_all add: Let_def del: rune_len.simps split: if_splits)
  have "valid_utf8 (drop (rune_len ?s) ?s @ t)" by (rule "2.IH" [OF refl n v "2.prems"(2)])
  moreover have "drop (rune_len ?s) (?s @ t) = drop (rune_len ?s) ?s @ t" using rune_len_le [of ?s] by (simp del: rune_len.simps append_Cons)
  ultimately show ?case using valid_step [of "?s @ t"] rune_len_append [OF n] n by metis
qed simp

lemma valid_to_valid: "valid_utf8 (to_valid b s)"
proof (induction b s rule: to_valid.induct)
  case (2 b c cs)
  let ?s = "c # cs"
  show ?case
  proof (cases "rune_len ?s = 0")
    case True
    have "valid_utf8 replacement" by (simp add: replacement_def rune_width_def second_ok_def between_def byte_def)
    with True 2 show ?thesis by (simp add: Let_def valid_append del: rune_len.simps)
  next
    case False
    have "valid_utf8 (take (rune_len ?s) ?s)"
      using rune_len_take [OF False] rune_len_le [of ?s] by (intro valid_rune) simp
    with False 2 show ?thesis by (simp add: Let_def valid_append del: rune_len.simps)
  qed
qed simp

lemma to_valid_id: "valid_utf8 s \<Longrightarrow> to_valid b s = s"
proof (induction s arbitrary: b rule: valid_utf8.induct)
  case (2 c cs)
  then show ?case by (cases "rune_len (c # cs) = 0") (simp_all add: Let_def del: rune_len.simps)
qed simp

lemma valid_take:
  "valid_utf8 s \<Longrightarrow> n \<le> length s \<Longrightarrow> n = length s \<or> rune_start (s ! n) \<Longrightarrow> valid_utf8 (take n s)"
proof (induction s arbitrary: n rule: valid_utf8.induct)
  case (2 c cs)
  let ?s = "c # cs"
  let ?r = "rune_len ?s"
  have r: "?r \<noteq> 0" and v: "valid_utf8 (drop ?r ?s)" using "2.prems"(1) by (simp_all add: Let_def del: rune_len.simps split: if_splits)
  show ?case
  proof (cases "n = 0 \<or> ?r \<le> n")
    case True
    show ?thesis
    proof (cases "n = 0")
      case False
      with True have le: "?r \<le> n" by simp
      have "valid_utf8 (take (n - ?r) (drop ?r ?s))"
        using "2.prems"(2,3) le rune_len_le [of ?s] by (intro "2.IH" [OF refl r v]) (auto simp del: rune_len.simps)
      moreover have "drop ?r (take n ?s) = take (n - ?r) (drop ?r ?s)" by (rule drop_take)
      moreover have "rune_len (take n ?s) = ?r"
      proof -
        have "take n ?s = take ?r ?s @ take (n - ?r) (drop ?r ?s)" using le by (metis le_add_diff_inverse take_add)
        then show ?thesis using rune_len_append [of "take ?r ?s"] rune_len_take [OF r] r by metis
      qed
      ultimately show ?thesis using valid_step [of "take n ?s"] r by metis
    qed simp
  next
    case False
    then have "\<not> rune_start (?s ! n)" by (intro rune_inside) auto
    with "2.prems"(2,3) False rune_len_le [of ?s] show ?thesis by auto
  qed
qed simp

lemma back_up_le: "back_up s n \<le> n"
  by (induction s n rule: back_up.induct) auto

lemma back_up_start: "back_up s n = 0 \<or> rune_start (s ! back_up s n)"
  by (induction s n rule: back_up.induct) auto

lemma valid_ellipsis: "valid_utf8 ellipsis"
  by (simp add: ellipsis_def rune_width_def second_ok_def between_def byte_def)

text \<open>
  C31. The audit text is bounded and honest. For every byte string and every limit with room for
  the ellipsis, the text kept is valid UTF-8 of at most that many bytes, it is flagged exactly when
  it differs from the original, and a valid original within the limit is kept as it is.
\<close>

theorem audit_text_sound:
  assumes "3 \<le> limit" and "bounded_audit_text value limit = (out, flagged)"
  shows "length out \<le> limit \<and> valid_utf8 out \<and> (flagged \<longleftrightarrow> out \<noteq> value) \<and>
    (valid_utf8 value \<and> length value \<le> limit \<longrightarrow> out = value)"
proof -
  let ?v = "to_valid_utf8 value"
  have v: "valid_utf8 ?v" and fix': "valid_utf8 value \<Longrightarrow> ?v = value"
    by (simp_all add: to_valid_utf8_def valid_to_valid to_valid_id)
  show ?thesis
  proof (cases "length ?v \<le> limit")
    case True
    with assms(2) have "out = ?v" "flagged \<longleftrightarrow> ?v \<noteq> value" by (auto simp: bounded_audit_text_def Let_def)
    with True v fix' show ?thesis by auto
  next
    case False
    let ?n = "back_up ?v (limit - length ellipsis)"
    have out: "out = take ?n ?v @ ellipsis" "flagged"
      using False assms(2) by (auto simp: bounded_audit_text_def Let_def)
    have n: "?n \<le> limit - 3" using back_up_le [of ?v "limit - length ellipsis"] by (simp add: ellipsis_def)
    have "valid_utf8 (take ?n ?v)"
    proof (cases "?n = 0")
      case False': False
      then have "rune_start (?v ! ?n)" using back_up_start [of ?v "limit - length ellipsis"] by simp
      with v n False show ?thesis by (intro valid_take) auto
    qed simp
    then have ok: "valid_utf8 out" unfolding out by (intro valid_append valid_ellipsis)
    have len: "length out \<le> limit" using n assms(1) False by (simp add: out ellipsis_def)
    have "out \<noteq> value"
    proof
      assume "out = value"
      with ok fix' len False show False by simp
    qed
    with ok len out(2) fix' False show ?thesis by auto
  qed
qed

theorem audit_text_sound_witness:
  "fst (bounded_audit_text ''abcdefgh'' 6) = ''abc'' @ ellipsis \<and> length (fst (bounded_audit_text ''abcdefgh'' 6)) \<le> 6"
proof -
  have "bounded_audit_text ''abcdefgh'' 6 = (''abc'' @ ellipsis, True)" by code_simp
  with audit_text_sound [of 6 "''abcdefgh''"] show ?thesis by simp
qed

end
