(* ===== verification/ReconcileApply.thy ===== *)
theory ReconcileApply
  imports Reconcile EngineClaims AuditText
begin

text \<open>
  The reconciler's cycle (\<open>PlanDevice\<close>, \<open>Apply\<close>, \<open>recordOwned\<close>, \<open>finishApplyOutcome\<close> and
  \<open>logOutcome\<close> in \<open>internal/reconcile/reconcile.go\<close>): read, render and plan; then run the
  apply engine and record ownership and an audit event. The store is a parameter, whose calls and
  their success are kept in a trace beside the engine's.
\<close>

section \<open>Previews\<close>

record device_plan =
  dp_doc :: doc
  dp_report :: report
  dp_drift :: "drift list"
  dp_plan :: plan
  dp_existing :: existing

definition plan_empty :: "device_plan \<Rightarrow> bool" where
  "plan_empty p \<longleftrightarrow> pl_ops (dp_plan p) = []"

definition plan_blocked :: "device_plan \<Rightarrow> bool" where
  "plan_blocked p \<longleftrightarrow> has_conflicts (dp_report p)"

datatype plan_error = ReadFailed string ubus_error | RenderFailed string | InvalidDesired sec_ref

definition applied_hashes :: "owned_section list \<Rightarrow> string gomap" where
  "applied_hashes owned = fold (\<lambda>o'. put (os_config o' @ ''.'' @ os_section o') (os_hash o')) owned []"

definition no_plan :: plan where
  "no_plan = \<lparr>pl_ops = [], pl_timeout = 0, pl_ack = False\<rparr>"

text \<open>
  \<open>PlanDevice\<close>. The renderer and the firewall policy check are arguments; \<open>owned\<close> is the
  stored record, nothing when there is no store or it cannot be read.
\<close>

definition plan_device ::
  "(string \<Rightarrow> 'w \<Rightarrow> (ubus_error + json gomap gomap) \<times> 'w) \<Rightarrow> (existing \<Rightarrow> string + doc \<times> report) \<Rightarrow>
   (existing \<Rightarrow> 'w \<Rightarrow> conflict option \<times> 'w) \<Rightarrow> (string \<Rightarrow> string) \<Rightarrow> owned_section list option \<Rightarrow> 'w \<Rightarrow>
   (plan_error + device_plan) \<times> 'w" where
  "plan_device uci_get render policy_conflict sha owned w =
     (case read_existing uci_get w of
        (Inl (config, e), w1) \<Rightarrow> (Inl (ReadFailed config e), w1)
      | (Inr ex, w1) \<Rightarrow>
          (case render ex of
             Inl e \<Rightarrow> (Inl (RenderFailed e), w1)
           | Inr (d, rep) \<Rightarrow>
               (case doc_validate d of
                  Some r \<Rightarrow> (Inl (InvalidDesired r), w1)
                | None \<Rightarrow>
                    (let (c, w2) = policy_conflict ex w1;
                         rep' = (case c of None \<Rightarrow> rep | Some x \<Rightarrow> rep\<lparr>rp_conflicts := rp_conflicts rep @ [x]\<rparr>);
                         applied = (case owned of None \<Rightarrow> [] | Some os \<Rightarrow> applied_hashes os);
                         p = \<lparr>dp_doc = d, dp_report = rep', dp_drift = detect_drift sha d ex applied,
                              dp_plan = no_plan, dp_existing = ex\<rparr>
                     in (Inr (if has_conflicts rep' then p
                              else p\<lparr>dp_plan := (doc_plan d ex)\<lparr>pl_ops := pl_ops (doc_plan d ex) @ prune d ex\<rparr>\<rparr>), w2)))))"

section \<open>The store\<close>

record audit =
  au_severity :: string
  au_outcome :: "outcome option"
  au_reason :: "string \<times> bool"
  au_ops :: nat
  au_sections :: nat
  au_omissions :: "omission list"
  au_omissions_total :: "nat option"
  au_stranded :: bool
  au_error :: "(string \<times> bool) option"
  au_health :: "(string \<times> bool) option"

record 's db =
  db_owned :: "int \<Rightarrow> 's \<Rightarrow> (string + owned_section list) \<times> 's"
  db_replace :: "int \<Rightarrow> owned_section list \<Rightarrow> 's \<Rightarrow> string option \<times> 's"
  db_log :: "int \<Rightarrow> audit \<Rightarrow> 's \<Rightarrow> string option \<times> 's"

datatype store_event = SRead int | SReplace int "owned_section list" bool | SLog int audit bool

record 's sst =
  ss_world :: 's
  ss_trace :: "store_event list"

definition do_owned :: "'s db \<Rightarrow> int \<Rightarrow> 's sst \<Rightarrow> (string + owned_section list) \<times> 's sst" where
  "do_owned db dev s = (let (r, w) = db_owned db dev (ss_world s) in (r, \<lparr>ss_world = w, ss_trace = ss_trace s @ [SRead dev]\<rparr>))"

definition do_replace :: "'s db \<Rightarrow> int \<Rightarrow> owned_section list \<Rightarrow> 's sst \<Rightarrow> string option \<times> 's sst" where
  "do_replace db dev cs s =
     (let (r, w) = db_replace db dev cs (ss_world s)
      in (r, \<lparr>ss_world = w, ss_trace = ss_trace s @ [SReplace dev cs (r = None)]\<rparr>))"

definition do_log :: "'s db \<Rightarrow> int \<Rightarrow> audit \<Rightarrow> 's sst \<Rightarrow> string option \<times> 's sst" where
  "do_log db dev a s =
     (let (r, w) = db_log db dev a (ss_world s)
      in (r, \<lparr>ss_world = w, ss_trace = ss_trace s @ [SLog dev a (r = None)]\<rparr>))"

section \<open>Results\<close>

datatype record_error = ClaimsUnread string | ClaimsUnwritten string

datatype rec_error =
    InvalidDocument sec_ref
  | Blocked nat string
  | RuntimeUnproven string
  | EngineError apply_error
  | Recording record_error
  | AuditFailed string

datatype rec_reason =
    EngineReason reason
  | AlreadyMatches
  | NotLoaded
  | RecordingFailed record_error
  | AuditNote string "outcome option" rec_reason

record rec_result =
  rr_outcome :: "outcome option"
  rr_reason :: rec_reason
  rr_health :: "string option"
  rr_stranded :: bool

definition blank_rec_result :: rec_result where
  "blank_rec_result = \<lparr>rr_outcome = None, rr_reason = EngineReason NoReason, rr_health = None, rr_stranded = False\<rparr>"

definition of_engine :: "result \<Rightarrow> rec_result" where
  "of_engine r = \<lparr>rr_outcome = res_outcome r, rr_reason = EngineReason (res_reason r), rr_health = res_health r,
     rr_stranded = res_stranded r\<rparr>"

text \<open>How reasons and errors read; the texts are not modelled.\<close>

record wording =
  wd_reason :: "rec_reason \<Rightarrow> string"
  wd_error :: "rec_error list \<Rightarrow> string"

section \<open>The audit event\<close>

definition applyAuditMaxTextBytes :: nat where "applyAuditMaxTextBytes = 1024"
definition applyAuditMaxOmissions :: nat where "applyAuditMaxOmissions = 8"
definition applyAuditMaxOmissionWLANBytes :: nat where "applyAuditMaxOmissionWLANBytes = 128"
definition applyAuditMaxOmissionReasonBytes :: nat where "applyAuditMaxOmissionReasonBytes = 512"
definition applyAuditMaxOmissionKindBytes :: nat where "applyAuditMaxOmissionKindBytes = 32"

definition bounded_omission :: "omission \<Rightarrow> omission \<times> bool" where
  "bounded_omission om =
     (let (wlan, a) = bounded_audit_text (om_wlan om) applyAuditMaxOmissionWLANBytes;
          (reason, b) = bounded_audit_text (om_reason om) applyAuditMaxOmissionReasonBytes;
          (kind, c) = bounded_audit_text (om_kind om) applyAuditMaxOmissionKindBytes
      in (\<lparr>om_wlan = wlan, om_reason = reason, om_kind = kind\<rparr>, a \<or> b \<or> c))"

definition bounded_audit_omissions :: "omission list \<Rightarrow> omission list \<times> bool" where
  "bounded_audit_omissions oms =
     (let n = min (length oms) applyAuditMaxOmissions; bs = map bounded_omission (take n oms)
      in (map fst bs, length oms > n \<or> list_ex snd bs))"

definition audit_severity :: "rec_result \<Rightarrow> rec_error list \<Rightarrow> string" where
  "audit_severity res errs =
     (if errs \<noteq> [] \<or> rr_outcome res = Some Unknown then ''error''
      else if rr_outcome res = Some Reverted then ''warning'' else ''info'')"

definition audit_of :: "wording \<Rightarrow> device_plan \<Rightarrow> rec_result \<Rightarrow> rec_error list \<Rightarrow> audit" where
  "audit_of wd p res errs =
     (let (oms, cut) = bounded_audit_omissions (rp_omissions (dp_report p))
      in \<lparr>au_severity = audit_severity res errs, au_outcome = rr_outcome res,
          au_reason = bounded_audit_text (wd_reason wd (rr_reason res)) applyAuditMaxTextBytes,
          au_ops = length (pl_ops (dp_plan p)), au_sections = length (d_sections (dp_doc p)),
          au_omissions = oms,
          au_omissions_total = (if cut then Some (length (rp_omissions (dp_report p))) else None),
          au_stranded = rr_stranded res,
          au_error = (if errs = [] then None else Some (bounded_audit_text (wd_error wd errs) applyAuditMaxTextBytes)),
          au_health = map_option (\<lambda>h. bounded_audit_text h applyAuditMaxTextBytes) (rr_health res)\<rparr>)"

definition log_outcome ::
  "'s db \<Rightarrow> wording \<Rightarrow> int \<Rightarrow> device_plan \<Rightarrow> rec_result \<Rightarrow> rec_error list \<Rightarrow> 's sst \<Rightarrow> string option \<times> 's sst" where
  "log_outcome db wd dev p res errs s = do_log db dev (audit_of wd p res errs) s"

definition finish_apply_outcome ::
  "'s db \<Rightarrow> wording \<Rightarrow> int \<Rightarrow> device_plan \<Rightarrow> rec_result \<Rightarrow> rec_error list \<Rightarrow> 's sst \<Rightarrow>
     (rec_result \<times> rec_error list) \<times> 's sst" where
  "finish_apply_outcome db wd dev p res errs s =
     (let (r, s1) = log_outcome db wd dev p res errs s
      in case r of
           None \<Rightarrow> ((res, errs), s1)
         | Some e \<Rightarrow> ((res\<lparr>rr_reason := AuditNote e (rr_outcome res) (rr_reason res)\<rparr>, errs @ [AuditFailed e]), s1))"

section \<open>Applying\<close>

definition record_owned ::
  "'s db \<Rightarrow> (string \<Rightarrow> string) \<Rightarrow> int \<Rightarrow> int \<Rightarrow> device_plan \<Rightarrow> 's sst \<Rightarrow> record_error option \<times> 's sst" where
  "record_owned db sha now dev p s =
     (let (r, s1) = do_owned db dev s
      in case r of
           Inl e \<Rightarrow> (Some (ClaimsUnread e), s1)
         | Inr prev \<Rightarrow>
             (let (r2, s2) = do_replace db dev (claims sha dev now (dp_doc p) (dp_existing p) prev) s1
              in (map_option ClaimsUnwritten r2, s2)))"

text \<open>Recording ownership after a success, with the reason and error it may add.\<close>

definition record_step ::
  "'s db \<Rightarrow> (string \<Rightarrow> string) \<Rightarrow> int \<Rightarrow> int \<Rightarrow> device_plan \<Rightarrow> rec_result \<Rightarrow> 's sst \<Rightarrow>
     (rec_result \<times> rec_error list) \<times> 's sst" where
  "record_step db sha now dev p res s =
     (let (r, s1) = record_owned db sha now dev p s
      in case r of
           None \<Rightarrow> ((res, []), s1)
         | Some e \<Rightarrow> ((res\<lparr>rr_reason := RecordingFailed e\<rparr>, [Recording e]), s1))"

text \<open>The branch with nothing to write: a runtime proof, then ownership.\<close>

definition apply_nothing ::
  "'s db \<Rightarrow> wording \<Rightarrow> (string \<Rightarrow> string) \<Rightarrow> int \<Rightarrow> int \<Rightarrow> device_plan \<Rightarrow> 'w health option \<Rightarrow> 'w st \<Rightarrow> 's sst \<Rightarrow>
     (rec_result \<times> rec_error list) \<times> 'w st \<times> 's sst" where
  "apply_nothing db wd sha now dev p proof' s ss =
     (let (h, s1) = run_health proof' s
      in case h of
           Some e \<Rightarrow>
             (let (out, ss1) = finish_apply_outcome db wd dev p
                    (blank_rec_result\<lparr>rr_reason := NotLoaded, rr_health := Some e\<rparr>) [RuntimeUnproven e] ss
              in (out, s1, ss1))
         | None \<Rightarrow>
             (let ((res, errs), ss1) = record_step db sha now dev p
                    (blank_rec_result\<lparr>rr_outcome := Some Applied, rr_reason := AlreadyMatches\<rparr>) ss;
                  (out, ss2) = finish_apply_outcome db wd dev p res errs ss1
              in (out, s1, ss2)))"

text \<open>
  \<open>Reconciler.Apply\<close>: \<open>compose\<close> joins the caller's health check with the runtime checks of the
  plan. \<open>None\<close> is an engine that does not return.
\<close>

definition reconcile_apply ::
  "'w router \<Rightarrow> engine \<Rightarrow> 's db \<Rightarrow> wording \<Rightarrow> (string \<Rightarrow> string) \<Rightarrow> int \<Rightarrow>
   (device_plan \<Rightarrow> 'w health option \<Rightarrow> 'w health option) \<Rightarrow> int \<Rightarrow> device_plan \<Rightarrow> 'w health option \<Rightarrow> 'w st \<Rightarrow> 's sst \<Rightarrow>
   ((rec_result \<times> rec_error list) \<times> 'w st \<times> 's sst) option" where
  "reconcile_apply rt en db wd sha now compose dev p health s ss =
     (case doc_validate (dp_doc p) of
        Some r \<Rightarrow> Some ((blank_rec_result, [InvalidDocument r]), s, ss)
      | None \<Rightarrow>
          (case rp_conflicts (dp_report p) of
             c # cs \<Rightarrow> Some ((blank_rec_result, [Blocked (length (c # cs)) (cf_reason c)]), s, ss)
           | [] \<Rightarrow>
               if plan_empty p then Some (apply_nothing db wd sha now dev p (compose p health) s ss)
               else
                 (case engine_apply rt en (dp_plan p) (compose p health) s of
                    None \<Rightarrow> None
                  | Some ((res, err), s1) \<Rightarrow>
                      (let ((res1, errs), ss1) =
                         (case err of
                            Some e \<Rightarrow> ((of_engine res, [EngineError e]), ss)
                          | None \<Rightarrow>
                              if res_outcome res = Some Applied
                              then record_step db sha now dev p (of_engine res) ss
                              else ((of_engine res, []), ss));
                         (out, ss2) = finish_apply_outcome db wd dev p res1 errs ss1
                       in Some (out, s1, ss2)))))"

section \<open>Facts\<close>

text \<open>What a run adds to the store's trace.\<close>

lemma record_step_trace:
  assumes "record_step db sha now dev p res ss = ((res', errs), ss')"
  shows "\<exists>new. ss_trace ss' = ss_trace ss @ SRead dev # new \<and> rr_outcome res' = rr_outcome res \<and>
    (new = [] \<and> errs \<noteq> [] \<or>
     (\<exists>prev. new = [SReplace dev (claims sha dev now (dp_doc p) (dp_existing p) prev) (errs = [])]))"
  using assms
  by (auto simp: record_step_def record_owned_def do_owned_def do_replace_def Let_def
      split: prod.splits sum.splits option.splits)

lemma finish_trace:
  assumes "finish_apply_outcome db wd dev p res errs ss = ((res', errs'), ss')"
  shows "\<exists>ok. ss_trace ss' = ss_trace ss @ [SLog dev (audit_of wd p res errs) ok] \<and> rr_outcome res' = rr_outcome res \<and>
    (errs' = [] \<longleftrightarrow> errs = [] \<and> ok)"
  using assms by (auto simp: finish_apply_outcome_def log_outcome_def do_log_def Let_def split: prod.splits option.splits)

lemma run_health_trace: "run_health h s = (r, s') \<Longrightarrow> trc s' = trc s \<or> trc s' = trc s @ [EHealth (r = None)]"
  by (auto simp: run_health_def emit_def split: option.splits prod.splits)

section \<open>Properties\<close>

lemma apply_nothing_trace:
  assumes "apply_nothing db wd sha now dev p h s ss = ((res, errs), s', ss')" and "ss_trace ss = []" and "trc s = []"
  shows "EConfirm True \<notin> set (trc s') \<and>
    (\<forall>d' cs ok. SReplace d' cs ok \<in> set (ss_trace ss') \<longrightarrow> d' = dev \<and> EHealth False \<notin> set (trc s') \<and>
       (\<exists>prev. cs = claims sha dev now (dp_doc p) (dp_existing p) prev)) \<and>
    (errs = [] \<longrightarrow> (\<exists>a. SLog dev a True \<in> set (ss_trace ss')) \<and> (\<exists>cs. SReplace dev cs True \<in> set (ss_trace ss')))"
proof -
  obtain r s1 where h: "run_health h s = (r, s1)" by fastforce
  note tr = run_health_trace [OF h]
  show ?thesis
  proof (cases r)
    case None
    obtain res1 errs1 ss1 where rec: "record_step db sha now dev p
        (blank_rec_result\<lparr>rr_outcome := Some Applied, rr_reason := AlreadyMatches\<rparr>) ss = ((res1, errs1), ss1)"
      by (metis surj_pair)
    have fin: "finish_apply_outcome db wd dev p res1 errs1 ss1 = ((res, errs), ss')" and s': "s' = s1"
      using assms(1) h None rec by (auto simp: apply_nothing_def Let_def split: prod.splits)
    from record_step_trace [OF rec] finish_trace [OF fin] assms(2,3) tr None s' show ?thesis by fastforce
  next
    case (Some e)
    have fin: "finish_apply_outcome db wd dev p (blank_rec_result\<lparr>rr_reason := NotLoaded, rr_health := Some e\<rparr>)
        [RuntimeUnproven e] ss = ((res, errs), ss')" and s': "s' = s1"
      using assms(1) h Some by (auto simp: apply_nothing_def Let_def split: prod.splits)
    from finish_trace [OF fin] assms(2,3) tr Some s' show ?thesis by auto
  qed
qed

text \<open>
  C12. Ownership follows confirmation. The store's claims for a device are replaced only after a
  valid document without conflicts was either confirmed on the device, or found to need no write
  and not refuted by the runtime proof; the claims written are those of the plan. A run without an
  error has its audit event in the store, and its claims too when the device reports the change
  applied. A confirmed change is reported as applied even when recording it failed.
\<close>

theorem ownership_follows_confirmation:
  assumes "trc s = []" and "ss_trace ss = []"
    and "reconcile_apply rt en db wd sha now compose dev p health s ss = Some ((res, errs), s', ss')"
  shows "(\<forall>d' cs ok. SReplace d' cs ok \<in> set (ss_trace ss') \<longrightarrow>
       d' = dev \<and> doc_validate (dp_doc p) = None \<and> rp_conflicts (dp_report p) = [] \<and>
       (EConfirm True \<in> set (trc s') \<or> plan_empty p \<and> EHealth False \<notin> set (trc s')) \<and>
       (\<exists>prev. cs = claims sha dev now (dp_doc p) (dp_existing p) prev)) \<and>
    (errs = [] \<longrightarrow> (\<exists>a. SLog dev a True \<in> set (ss_trace ss')) \<and>
       (rr_outcome res = Some Applied \<longrightarrow> (\<exists>cs. SReplace dev cs True \<in> set (ss_trace ss')))) \<and>
    (EConfirm True \<in> set (trc s') \<longrightarrow> rr_outcome res = Some Applied)"
proof (cases "doc_validate (dp_doc p) \<noteq> None \<or> rp_conflicts (dp_report p) \<noteq> []")
  case True
  with assms(3) have "s' = s" "ss' = ss" "errs \<noteq> []"
    by (auto simp: reconcile_apply_def split: option.splits list.splits)
  with assms(1,2) show ?thesis by simp
next
  case False
  then have ok: "doc_validate (dp_doc p) = None" "rp_conflicts (dp_report p) = []" by blast+
  show ?thesis
  proof (cases "plan_empty p")
    case True
    with assms(3) ok have "apply_nothing db wd sha now dev p (compose p health) s ss = ((res, errs), s', ss')"
      by (simp add: reconcile_apply_def)
    from apply_nothing_trace [OF this assms(2,1)] ok True show ?thesis by blast
  next
    case False
    with assms(3) ok obtain out err s1 where eng: "engine_apply rt en (dp_plan p) (compose p health) s = Some ((out, err), s1)"
      by (auto simp: reconcile_apply_def split: option.splits)
    obtain res1 errs1 ss1 where step: "(case err of
          Some e \<Rightarrow> ((of_engine out, [EngineError e]), ss)
        | None \<Rightarrow> if res_outcome out = Some Applied then record_step db sha now dev p (of_engine out) ss
                  else ((of_engine out, []), ss)) = ((res1, errs1), ss1)"
      by (metis surj_pair)
    have fin: "finish_apply_outcome db wd dev p res1 errs1 ss1 = ((res, errs), ss')" and s': "s' = s1"
      using assms(3) ok False eng step by (auto simp: reconcile_apply_def Let_def split: prod.splits)
    note rep = reports_calls [OF assms(1) eng]
    from finish_trace [OF fin] obtain b where b: "ss_trace ss' = ss_trace ss1 @ [SLog dev (audit_of wd p res1 errs1) b]"
      "rr_outcome res = rr_outcome res1" "errs = [] \<longleftrightarrow> errs1 = [] \<and> b" by blast
    show ?thesis
    proof (cases "err = None \<and> res_outcome out = Some Applied")
      case True
      then have rec: "record_step db sha now dev p (of_engine out) ss = ((res1, errs1), ss1)" using step by simp
      from record_step_trace [OF rec] True rep b assms(2) s' ok show ?thesis
        by (auto simp: of_engine_def)
    next
      case False
      then have "ss1 = ss" "res1 = of_engine out" "errs1 = [] \<longleftrightarrow> err = None"
        using step by (auto split: option.splits if_splits)
      with False rep b assms(2) s' show ?thesis by (auto simp: of_engine_def)
    qed
  qed
qed

definition demo_db :: "nat db" where
  "demo_db = \<lparr>db_owned = (\<lambda>dev n. (Inr [], n)), db_replace = (\<lambda>dev cs n. (None, n + length cs)),
     db_log = (\<lambda>dev a n. (None, n))\<rparr>"

definition demo_wording :: wording where
  "demo_wording = \<lparr>wd_reason = (\<lambda>_. ''reason''), wd_error = (\<lambda>_. ''error'')\<rparr>"

definition demo_preview :: device_plan where
  "demo_preview = \<lparr>dp_doc = \<lparr>d_device = 5, d_sections = [], d_patches = [], d_retain = [], d_blind = []\<rparr>,
     dp_report = \<lparr>rp_omissions = [], rp_conflicts = [], rp_warnings = []\<rparr>, dp_drift = [],
     dp_plan = mtu_plan True, dp_existing = \<lparr>ex_configs = []\<rparr>\<rparr>"

definition demo_apply :: "((rec_result \<times> rec_error list) \<times> int st \<times> nat sst) option" where
  "demo_apply = reconcile_apply (clock_router 10 [] ''1500'') demo_engine demo_db demo_wording (\<lambda>t. t) 0 (\<lambda>p h. h) 5
     demo_preview (Some (link_up True)) demo_start \<lparr>ss_world = 0, ss_trace = []\<rparr>"

lemma demo_apply_ok:
  "map_option (\<lambda>((res, errs), s, ss). (rr_outcome res, errs, wld s)) demo_apply = Some (Some Applied, [], 12000000000)"
  by code_simp

theorem ownership_follows_confirmation_witness:
  "case demo_apply of None \<Rightarrow> False | Some (out, s, ss) \<Rightarrow> \<exists>cs. SReplace 5 cs True \<in> set (ss_trace ss)"
proof -
  obtain res errs s' ss' where run: "demo_apply = Some ((res, errs), s', ss')" "rr_outcome res = Some Applied" "errs = []"
    using demo_apply_ok by auto
  from ownership_follows_confirmation [OF demo_start_trc _ run(1) [unfolded demo_apply_def]] run(2,3)
  have "\<exists>cs. SReplace 5 cs True \<in> set (ss_trace ss')" by simp
  then show ?thesis by (simp add: run(1))
qed

end
