(* ===== verification/DeviceGate.thy ===== *)
theory DeviceGate
  imports Prelude "HOL-Library.Word"
begin

text \<open>
  The per-device operation gate (\<open>internal/daemon/device_operation.go\<close>) as a step relation over
  goroutines. Every critical section under the mutex, every channel operation and every look at
  the context is one step, so all interleavings are covered. Operations are objects of an explicit
  heap, since a waiter keeps its pointer when the map entry goes.
\<close>

section \<open>State\<close>

record device_op =
  op_token :: bool
  op_users :: nat
  op_generation :: "64 word"

text \<open>
  Where a goroutine stands, with the device, the operation object and the generation it captured:
  waiting at the select; holding the token before the context check; before the generation check;
  holding the gate; and in \<open>done\<close>, before the token is taken back (\<open>Draining\<close>) and before the
  user count drops (\<open>Leaving\<close>).
\<close>

datatype phase =
    Idle
  | Waiting int nat "64 word"
  | Admitted int nat "64 word"
  | Checking int nat "64 word"
  | Holding int nat
  | Draining int nat
  | Leaving int nat

record gate =
  g_heap :: "device_op list"
  g_entries :: "int \<Rightarrow> nat option"
  g_threads :: "phase list"

definition gate_init :: "nat \<Rightarrow> gate" where
  "gate_init n = \<lparr>g_heap = [], g_entries = (\<lambda>_. None), g_threads = replicate n Idle\<rparr>"

section \<open>Operations\<close>

definition set_phase :: "nat \<Rightarrow> phase \<Rightarrow> gate \<Rightarrow> gate" where
  "set_phase t ph s = s\<lparr>g_threads := (g_threads s)[t := ph]\<rparr>"

definition set_op :: "nat \<Rightarrow> device_op \<Rightarrow> gate \<Rightarrow> gate" where
  "set_op p ob s = s\<lparr>g_heap := (g_heap s)[p := ob]\<rparr>"

text \<open>The first critical section of \<open>acquire\<close>: find or create the operation and join it.\<close>

definition gate_find :: "int \<Rightarrow> gate \<Rightarrow> nat \<times> gate" where
  "gate_find d s =
     (case g_entries s d of
        Some p \<Rightarrow> (p, s)
      | None \<Rightarrow>
          (length (g_heap s),
           s\<lparr>g_heap := g_heap s @ [\<lparr>op_token = False, op_users = 0, op_generation = 0\<rparr>],
             g_entries := (g_entries s)(d := Some (length (g_heap s)))\<rparr>))"

definition gate_enter :: "nat \<Rightarrow> int \<Rightarrow> gate \<Rightarrow> gate" where
  "gate_enter t d s =
     (let (p, s1) = gate_find d s; ob = g_heap s1 ! p
      in set_phase t (Waiting d p (op_generation ob)) (set_op p (ob\<lparr>op_users := op_users ob + 1\<rparr>) s1))"

definition gate_take :: "nat \<Rightarrow> int \<Rightarrow> nat \<Rightarrow> 64 word \<Rightarrow> gate \<Rightarrow> gate" where
  "gate_take t d p g s = set_phase t (Admitted d p g) (set_op p ((g_heap s ! p)\<lparr>op_token := True\<rparr>) s)"

definition gate_check :: "nat \<Rightarrow> int \<Rightarrow> nat \<Rightarrow> 64 word \<Rightarrow> gate \<Rightarrow> gate" where
  "gate_check t d p g s =
     set_phase t (if op_generation (g_heap s ! p) \<noteq> g then Draining d p else Holding d p) s"

definition gate_drain :: "nat \<Rightarrow> int \<Rightarrow> nat \<Rightarrow> gate \<Rightarrow> gate" where
  "gate_drain t d p s = set_phase t (Leaving d p) (set_op p ((g_heap s ! p)\<lparr>op_token := False\<rparr>) s)"

definition gate_leave :: "nat \<Rightarrow> int \<Rightarrow> nat \<Rightarrow> gate \<Rightarrow> gate" where
  "gate_leave t d p s =
     (let ob = g_heap s ! p; s1 = set_phase t Idle (set_op p (ob\<lparr>op_users := op_users ob - 1\<rparr>) s)
      in if op_users ob - 1 = 0 \<and> g_entries s d = Some p then s1\<lparr>g_entries := (g_entries s)(d := None)\<rparr> else s1)"

definition gate_invalidate :: "int \<Rightarrow> gate \<Rightarrow> gate" where
  "gate_invalidate d s =
     (case g_entries s d of
        None \<Rightarrow> s
      | Some p \<Rightarrow> set_op p ((g_heap s ! p)\<lparr>op_generation := op_generation (g_heap s ! p) + 1\<rparr>) s)"

text \<open>
  One step of one goroutine. Sending on the full channel and receiving from the empty one block:
  those steps need the token free or taken. Which branch a select or a look at the context takes
  is open.
\<close>

inductive gate_step :: "gate \<Rightarrow> gate \<Rightarrow> bool" where
  enter: "t < length (g_threads s) \<Longrightarrow> g_threads s ! t = Idle \<Longrightarrow> gate_step s (gate_enter t d s)"
| take: "t < length (g_threads s) \<Longrightarrow> g_threads s ! t = Waiting d p g \<Longrightarrow> \<not> op_token (g_heap s ! p) \<Longrightarrow>
    gate_step s (gate_take t d p g s)"
| cancel: "t < length (g_threads s) \<Longrightarrow> g_threads s ! t = Waiting d p g \<Longrightarrow> gate_step s (set_phase t (Leaving d p) s)"
| abandon: "t < length (g_threads s) \<Longrightarrow> g_threads s ! t = Admitted d p g \<Longrightarrow> gate_step s (set_phase t (Draining d p) s)"
| go_on: "t < length (g_threads s) \<Longrightarrow> g_threads s ! t = Admitted d p g \<Longrightarrow> gate_step s (set_phase t (Checking d p g) s)"
| check: "t < length (g_threads s) \<Longrightarrow> g_threads s ! t = Checking d p g \<Longrightarrow> gate_step s (gate_check t d p g s)"
| release: "t < length (g_threads s) \<Longrightarrow> g_threads s ! t = Holding d p \<Longrightarrow> gate_step s (set_phase t (Draining d p) s)"
| drain: "t < length (g_threads s) \<Longrightarrow> g_threads s ! t = Draining d p \<Longrightarrow> op_token (g_heap s ! p) \<Longrightarrow>
    gate_step s (gate_drain t d p s)"
| leave: "t < length (g_threads s) \<Longrightarrow> g_threads s ! t = Leaving d p \<Longrightarrow> gate_step s (gate_leave t d p s)"
| invalidate: "gate_step s (gate_invalidate d s)"

inductive_cases gate_stepE [consumes 1]: "gate_step s s'"

section \<open>The invariant\<close>

text \<open>The device and operation a goroutine is counted for, and whether it owns the token.\<close>

definition uses :: "int \<Rightarrow> nat \<Rightarrow> phase \<Rightarrow> bool" where
  "uses d p ph \<longleftrightarrow>
     (case ph of
        Idle \<Rightarrow> False
      | Waiting d' p' g \<Rightarrow> d' = d \<and> p' = p
      | Admitted d' p' g \<Rightarrow> d' = d \<and> p' = p
      | Checking d' p' g \<Rightarrow> d' = d \<and> p' = p
      | Holding d' p' \<Rightarrow> d' = d \<and> p' = p
      | Draining d' p' \<Rightarrow> d' = d \<and> p' = p
      | Leaving d' p' \<Rightarrow> d' = d \<and> p' = p)"

definition owns :: "int \<Rightarrow> nat \<Rightarrow> phase \<Rightarrow> bool" where
  "owns d p ph \<longleftrightarrow>
     (case ph of
        Admitted d' p' g \<Rightarrow> d' = d \<and> p' = p
      | Checking d' p' g \<Rightarrow> d' = d \<and> p' = p
      | Holding d' p' \<Rightarrow> d' = d \<and> p' = p
      | Draining d' p' \<Rightarrow> d' = d \<and> p' = p
      | _ \<Rightarrow> False)"

definition num :: "('a \<Rightarrow> bool) \<Rightarrow> 'a list \<Rightarrow> nat" where
  "num P xs = length (filter P xs)"

text \<open>
  Every goroutine's operation is the one its device's entry points to; the entry's user count is
  the number of goroutines counted for it, at least one; its token is taken exactly when one
  goroutine owns it; and no two devices share an operation.
\<close>

definition gate_inv_but :: "int option \<Rightarrow> gate \<Rightarrow> bool" where
  "gate_inv_but exempt s \<longleftrightarrow>
     (\<forall>ph\<in>set (g_threads s). \<forall>d p. uses d p ph \<longrightarrow> g_entries s d = Some p) \<and>
     (\<forall>d p. g_entries s d = Some p \<longrightarrow> p < length (g_heap s) \<and>
        op_users (g_heap s ! p) = num (uses d p) (g_threads s) \<and>
        (exempt \<noteq> Some d \<longrightarrow> 0 < num (uses d p) (g_threads s)) \<and>
        num (owns d p) (g_threads s) = of_bool (op_token (g_heap s ! p))) \<and>
     (\<forall>d d' p. g_entries s d = Some p \<longrightarrow> g_entries s d' = Some p \<longrightarrow> d = d')"

definition gate_inv :: "gate \<Rightarrow> bool" where
  "gate_inv s \<longleftrightarrow> gate_inv_but None s"

lemma num_update:
  "t < length xs \<Longrightarrow> num P (xs[t := x]) + of_bool (P (xs ! t)) = num P xs + of_bool (P x)"
proof (induction xs arbitrary: t)
  case (Cons y ys)
  then show ?case by (cases t) (auto simp: num_def)
qed simp

lemma num_pos: "0 < num P xs \<longleftrightarrow> (\<exists>x\<in>set xs. P x)"
  by (auto simp: num_def filter_empty_conv)

lemma owns_uses: "owns d p ph \<Longrightarrow> uses d p ph"
  by (cases ph) (auto simp: owns_def uses_def)

lemma uses_simps [simp]:
  "\<not> uses d p Idle" "uses d p (Waiting d' p' g) = (d' = d \<and> p' = p)" "uses d p (Admitted d' p' g) = (d' = d \<and> p' = p)"
  "uses d p (Checking d' p' g) = (d' = d \<and> p' = p)" "uses d p (Holding d' p') = (d' = d \<and> p' = p)"
  "uses d p (Draining d' p') = (d' = d \<and> p' = p)" "uses d p (Leaving d' p') = (d' = d \<and> p' = p)"
  by (simp_all add: uses_def)

lemma owns_simps [simp]:
  "\<not> owns d p Idle" "\<not> owns d p (Waiting d' p' g)" "owns d p (Admitted d' p' g) = (d' = d \<and> p' = p)"
  "owns d p (Checking d' p' g) = (d' = d \<and> p' = p)" "owns d p (Holding d' p') = (d' = d \<and> p' = p)"
  "owns d p (Draining d' p') = (d' = d \<and> p' = p)" "\<not> owns d p (Leaving d' p')"
  by (simp_all add: owns_def)

lemma gate_invD:
  assumes "gate_inv_but x s"
  shows "ph \<in> set (g_threads s) \<Longrightarrow> uses d p ph \<Longrightarrow> g_entries s d = Some p"
    and "g_entries s d = Some p \<Longrightarrow> p < length (g_heap s)"
    and "g_entries s d = Some p \<Longrightarrow> op_users (g_heap s ! p) = num (uses d p) (g_threads s)"
    and "g_entries s d = Some p \<Longrightarrow> x \<noteq> Some d \<Longrightarrow> 0 < num (uses d p) (g_threads s)"
    and "g_entries s d = Some p \<Longrightarrow> num (owns d p) (g_threads s) = of_bool (op_token (g_heap s ! p))"
    and "g_entries s d = Some p \<Longrightarrow> g_entries s d' = Some p \<Longrightarrow> d = d'"
  using assms unfolding gate_inv_but_def by blast+

lemma gate_inv_weaken: "gate_inv s \<Longrightarrow> gate_inv_but (Some d) s"
  unfolding gate_inv_def gate_inv_but_def by (elim conjE) (intro conjI; blast)

lemma gate_inv_strengthen:
  "gate_inv_but (Some d) s \<Longrightarrow> (\<And>p. g_entries s d = Some p \<Longrightarrow> 0 < op_users (g_heap s ! p)) \<Longrightarrow> gate_inv s"
  by (fastforce simp: gate_inv_def gate_inv_but_def)

text \<open>
  One goroutine moves from phase \<open>a\<close> to phase \<open>b\<close>, both of one operation, and the operation's
  counters follow.
\<close>

lemma step_inv:
  assumes inv: "gate_inv_but (Some d) s" and t: "t < length (g_threads s)" "g_threads s ! t = a"
    and e: "g_entries s d = Some p"
    and only: "\<And>d' p'. uses d' p' a \<or> uses d' p' b \<Longrightarrow> d' = d \<and> p' = p"
    and usr: "op_users ob + of_bool (uses d p a) = op_users (g_heap s ! p) + of_bool (uses d p b)"
    and tok: "(of_bool (op_token ob) + of_bool (owns d p a) :: nat) = of_bool (op_token (g_heap s ! p)) + of_bool (owns d p b)"
  shows "gate_inv_but (Some d) (set_phase t b (set_op p ob s))"
proof -
  let ?ts = "(g_threads s)[t := b]" and ?h = "(g_heap s)[p := ob]"
  note I = gate_invD [OF inv]
  have p: "p < length (g_heap s)" by (rule I(2) [OF e])
  have other: "num (uses d' p') ?ts = num (uses d' p') (g_threads s) \<and> num (owns d' p') ?ts = num (owns d' p') (g_threads s)"
    if "d' \<noteq> d \<or> p' \<noteq> p" for d' p'
  proof -
    have "\<not> uses d' p' a" "\<not> uses d' p' b" using only that by blast+
    moreover from this have "\<not> owns d' p' a" "\<not> owns d' p' b" using owns_uses by blast+
    ultimately show ?thesis using num_update [OF t(1), of "uses d' p'" b] num_update [OF t(1), of "owns d' p'" b] t(2) by simp
  qed
  have "op_users ob = num (uses d p) ?ts"
    using num_update [OF t(1), of "uses d p" b, unfolded t(2)] usr I(3) [OF e] by linarith
  moreover have "num (owns d p) ?ts = of_bool (op_token ob)"
    using num_update [OF t(1), of "owns d p" b, unfolded t(2)] tok I(5) [OF e] by linarith
  ultimately have this': "op_users ob = num (uses d p) ?ts" "num (owns d p) ?ts = of_bool (op_token ob)" by blast+
  have "\<forall>x\<in>set ?ts. \<forall>d' p'. uses d' p' x \<longrightarrow> g_entries s d' = Some p'"
  proof (intro ballI allI impI)
    fix x d' p' assume x: "x \<in> set ?ts" "uses d' p' x"
    then have "x = b \<or> x \<in> set (g_threads s)" using set_update_subset_insert by fastforce
    then show "g_entries s d' = Some p'"
      using x(2) only [of d' p'] e I(1) by auto
  qed
  moreover have "\<forall>d' p'. g_entries s d' = Some p' \<longrightarrow> p' < length ?h \<and> op_users (?h ! p') = num (uses d' p') ?ts \<and>
      (Some d \<noteq> Some d' \<longrightarrow> 0 < num (uses d' p') ?ts) \<and> num (owns d' p') ?ts = of_bool (op_token (?h ! p'))"
  proof (intro allI impI)
    fix d' p' assume e': "g_entries s d' = Some p'"
    show "p' < length ?h \<and> op_users (?h ! p') = num (uses d' p') ?ts \<and>
      (Some d \<noteq> Some d' \<longrightarrow> 0 < num (uses d' p') ?ts) \<and> num (owns d' p') ?ts = of_bool (op_token (?h ! p'))"
    proof (cases "p' = p")
      case True
      then have "d' = d" using I(6) [OF e'] e by simp
      with True p this' show ?thesis by simp
    next
      case False
      with other [of d' p'] I(2-5) [OF e'] show ?thesis by simp
    qed
  qed
  ultimately show ?thesis using I(6) by (simp add: gate_inv_but_def set_phase_def set_op_def)
qed

lemma step_inv_kept:
  assumes "gate_inv s" and t: "t < length (g_threads s)" "g_threads s ! t = a" and u: "uses d p a"
    and only: "\<And>d' p'. uses d' p' b \<longleftrightarrow> d' = d \<and> p' = p"
    and tok: "(of_bool tok + of_bool (owns d p a) :: nat) = of_bool (op_token (g_heap s ! p)) + of_bool (owns d p b)"
  shows "gate_inv (set_phase t b (set_op p ((g_heap s ! p)\<lparr>op_token := tok\<rparr>) s))"
proof -
  note I = gate_invD [OF assms(1) [unfolded gate_inv_def]]
  have e: "g_entries s d = Some p" using I(1) [of a] t u by (metis nth_mem)
  have a: "uses d' p' a \<longleftrightarrow> d' = d \<and> p' = p" for d' p' using u by (cases a) auto
  show ?thesis
  proof (rule gate_inv_strengthen)
    show "gate_inv_but (Some d) (set_phase t b (set_op p ((g_heap s ! p)\<lparr>op_token := tok\<rparr>) s))"
      by (rule step_inv [OF gate_inv_weaken [OF assms(1)] t e]) (use a only tok in auto)
    show "0 < op_users (g_heap (set_phase t b (set_op p ((g_heap s ! p)\<lparr>op_token := tok\<rparr>) s)) ! p')"
      if "g_entries (set_phase t b (set_op p ((g_heap s ! p)\<lparr>op_token := tok\<rparr>) s)) d = Some p'" for p'
      using that e I(2-4) [OF e] by (simp add: set_phase_def set_op_def)
  qed
qed

lemma set_op_same: "set_op p ((g_heap s ! p)\<lparr>op_token := op_token (g_heap s ! p)\<rparr>) s = s"
  and set_op_id: "set_op p (g_heap s ! p) s = s"
  by (simp_all add: set_op_def)

lemma step_inv_phase:
  assumes "gate_inv s" and "t < length (g_threads s)" "g_threads s ! t = a" and "uses d p a"
    and "\<And>d' p'. uses d' p' b \<longleftrightarrow> d' = d \<and> p' = p" and "owns d p a = owns d p b"
  shows "gate_inv (set_phase t b s)"
  using step_inv_kept [OF assms(1-5), of "op_token (g_heap s ! p)"] assms(6) by (simp add: set_op_id)

lemma find_inv:
  assumes "gate_inv s" and "gate_find d s = (p, s1)"
  shows "gate_inv_but (Some d) s1" and "g_entries s1 d = Some p" and "g_threads s1 = g_threads s"
proof -
  note I = gate_invD [OF assms(1) [unfolded gate_inv_def]]
  have "gate_inv_but (Some d) s1 \<and> g_entries s1 d = Some p \<and> g_threads s1 = g_threads s"
  proof (cases "g_entries s d")
    case (Some q)
    with assms(2) gate_inv_weaken [OF assms(1)] show ?thesis by (simp add: gate_find_def)
  next
    case None
    let ?q = "length (g_heap s)" and ?ob = "\<lparr>op_token = False, op_users = 0, op_generation = 0\<rparr>"
    have s1: "p = ?q" "s1 = s\<lparr>g_heap := g_heap s @ [?ob], g_entries := (g_entries s)(d := Some ?q)\<rparr>"
      using assms(2) None by (auto simp: gate_find_def)
    have fresh: "num (uses d ?q) (g_threads s) = 0" "num (owns d ?q) (g_threads s) = 0"
      using I(1) None owns_uses by (fastforce simp: num_def filter_empty_conv)+
    have old: "p' < ?q" if "g_entries s d' = Some p'" for d' p' using I(2) [OF that] .
    show ?thesis unfolding s1 gate_inv_but_def
    proof (intro conjI ballI allI impI)
      fix ph d' p' assume "ph \<in> set (g_threads (s\<lparr>g_heap := g_heap s @ [?ob], g_entries := (g_entries s)(d := Some ?q)\<rparr>))"
        "uses d' p' ph"
      then have "g_entries s d' = Some p'" using I(1) by simp
      with None show "g_entries (s\<lparr>g_heap := g_heap s @ [?ob], g_entries := (g_entries s)(d := Some ?q)\<rparr>) d' = Some p'" by auto
    qed (use old fresh I(2-6) in \<open>auto simp: nth_append less_SucI split: if_splits\<close>)
  qed
  then show "gate_inv_but (Some d) s1" and "g_entries s1 d = Some p" and "g_threads s1 = g_threads s" by simp_all
qed

lemma enter_inv:
  assumes "gate_inv s" and t: "t < length (g_threads s)" "g_threads s ! t = Idle"
  shows "gate_inv (gate_enter t d s)"
proof -
  obtain p s1 where f: "gate_find d s = (p, s1)" by fastforce
  note F = find_inv [OF assms(1) f]
  let ?g = "op_generation (g_heap s1 ! p)" and ?ob = "(g_heap s1 ! p)\<lparr>op_users := op_users (g_heap s1 ! p) + 1\<rparr>"
  have p: "p < length (g_heap s1)" using gate_invD(2) [OF F(1,2)] .
  have "gate_inv_but (Some d) (set_phase t (Waiting d p ?g) (set_op p ?ob s1))"
    by (rule step_inv [OF F(1), where a = Idle]) (use t F p in auto)
  then have "gate_inv (set_phase t (Waiting d p ?g) (set_op p ?ob s1))"
    by (rule gate_inv_strengthen) (use F(2) p in \<open>auto simp: set_phase_def set_op_def\<close>)
  then show ?thesis using f by (simp add: gate_enter_def Let_def)
qed

lemma leave_inv:
  assumes "gate_inv s" and t: "t < length (g_threads s)" "g_threads s ! t = Leaving d p"
  shows "gate_inv (gate_leave t d p s)"
proof -
  note I = gate_invD [OF assms(1) [unfolded gate_inv_def]]
  let ?ob = "(g_heap s ! p)\<lparr>op_users := op_users (g_heap s ! p) - 1\<rparr>"
  let ?s = "set_phase t Idle (set_op p ?ob s)"
  have e: "g_entries s d = Some p" using I(1) [of "Leaving d p"] t by (metis nth_mem uses_simps(7))
  have users: "0 < op_users (g_heap s ! p)" using I(3,4) [OF e] by simp
  have weak: "gate_inv_but (Some d) ?s"
    by (rule step_inv [OF gate_inv_weaken [OF assms(1)] t e]) (use users in auto)
  show ?thesis
  proof (cases "op_users (g_heap s ! p) - 1 = 0")
    case False
    then have "gate_inv ?s" by (intro gate_inv_strengthen [OF weak]) (use e I(2) [OF e] in \<open>auto simp: set_phase_def set_op_def\<close>)
    with False show ?thesis by (simp add: gate_leave_def Let_def)
  next
    case True
    note W = gate_invD [OF weak]
    have es: "g_entries ?s = g_entries s" by (simp add: set_phase_def set_op_def)
    have "op_users (g_heap ?s ! p) = 0" using True I(2) [OF e] by (simp add: set_phase_def set_op_def)
    then have none: "\<not> uses d p ph" if "ph \<in> set (g_threads ?s)" for ph
      using W(3) [of d p] e es that num_pos [of "uses d p" "g_threads ?s"] by force
    have "gate_inv (?s\<lparr>g_entries := (g_entries s)(d := None)\<rparr>)"
      unfolding gate_inv_def gate_inv_but_def
    proof (intro conjI ballI allI impI)
      fix ph d' p' assume u: "ph \<in> set (g_threads (?s\<lparr>g_entries := (g_entries s)(d := None)\<rparr>))" "uses d' p' ph"
      then have "g_entries s d' = Some p'" using W(1) es by simp
      moreover have "d' \<noteq> d" using none u e calculation by auto
      ultimately show "g_entries (?s\<lparr>g_entries := (g_entries s)(d := None)\<rparr>) d' = Some p'" by simp
    qed (use W(2-6) es in \<open>auto split: if_splits\<close>)
    with True e show ?thesis by (simp add: gate_leave_def Let_def)
  qed
qed

lemma invalidate_inv: "gate_inv s \<Longrightarrow> gate_inv (gate_invalidate d s)"
proof -
  assume inv: "gate_inv s"
  have upd: "h[p := (h ! p)\<lparr>op_generation := g\<rparr>] ! q = (if p < length h \<and> q = p then (h ! p)\<lparr>op_generation := g\<rparr> else h ! q)"
    for h p g q
    by (cases "p < length h") (simp_all add: nth_list_update list_update_beyond)
  have sel: "op_users (h[p := (h ! p)\<lparr>op_generation := g\<rparr>] ! q) = op_users (h ! q)"
    "op_token (h[p := (h ! p)\<lparr>op_generation := g\<rparr>] ! q) = op_token (h ! q)" for h p g q
    unfolding upd by simp_all
  have "gate_inv (set_op p ((g_heap s ! p)\<lparr>op_generation := g\<rparr>) s)" for p g
  proof -
    have "g_heap (set_op p ob s) = (g_heap s)[p := ob]" "g_entries (set_op p ob s) = g_entries s"
      "g_threads (set_op p ob s) = g_threads s" for ob by (simp_all add: set_op_def)
    then show ?thesis using inv unfolding gate_inv_def gate_inv_but_def by (simp only: sel length_list_update)
  qed
  then show ?thesis using inv by (auto simp: gate_invalidate_def split: option.split)
qed

text \<open>The gate is an invariant system: its invariant holds initially and every step keeps it.\<close>

interpretation gate: invariant_system "gate_init n" gate_step gate_inv for n
proof
  show "gate_inv (gate_init n)" by (auto simp: gate_inv_def gate_inv_but_def gate_init_def)
next
  fix s s' assume inv: "gate_inv s" and "gate_step s s'"
  from this(2) show "gate_inv s'"
  proof cases
    case (take t d p g)
    show ?thesis unfolding take(1) gate_take_def by (rule step_inv_kept [OF inv take(2,3)]) (use take(4) in auto)
  next
    case (check t d p g)
    show ?thesis unfolding check(1) gate_check_def by (rule step_inv_phase [OF inv check(2,3)]) auto
  next
    case (drain t d p)
    show ?thesis unfolding drain(1) gate_drain_def by (rule step_inv_kept [OF inv drain(2,3)]) (use drain(4) in auto)
  next
    case (cancel t d p g)
    show ?thesis unfolding cancel(1) by (rule step_inv_phase [OF inv cancel(2,3)]) auto
  next
    case (abandon t d p g)
    show ?thesis unfolding abandon(1) by (rule step_inv_phase [OF inv abandon(2,3)]) auto
  next
    case (go_on t d p g)
    show ?thesis unfolding go_on(1) by (rule step_inv_phase [OF inv go_on(2,3)]) auto
  next
    case (release t d p)
    show ?thesis unfolding release(1) by (rule step_inv_phase [OF inv release(2,3)]) auto
  qed (use inv in \<open>auto intro: enter_inv leave_inv invalidate_inv\<close>)
qed

section \<open>Properties\<close>

lemma num_two: "num P xs \<le> 1 \<Longrightarrow> i < length xs \<Longrightarrow> j < length xs \<Longrightarrow> P (xs ! i) \<Longrightarrow> P (xs ! j) \<Longrightarrow> i = j"
proof (induction xs arbitrary: i j)
  case (Cons x xs)
  have none: "\<not> P (xs ! k)" if "P x" "k < length xs" for k
    using that Cons.prems(1) by (auto simp: num_def filter_empty_conv dest: nth_mem)
  from Cons show ?case using none by (cases i; cases j) (auto simp: num_def split: if_splits)
qed simp

text \<open>
  C13. At most one destructive operation per device. In every reachable state of any number of
  goroutines, however they interleave with cancellations and invalidations, two goroutines that
  hold the gate of one device are the same goroutine, even when the map entry was removed and
  created again in between.
\<close>

theorem operations_exclusive:
  assumes "reach gate_step (gate_init n) s"
    and "i < length (g_threads s)" and "g_threads s ! i = Holding d p"
    and "j < length (g_threads s)" and "g_threads s ! j = Holding d q"
  shows "i = j"
proof -
  note I = gate_invD [OF gate.reach_inv [OF assms(1), unfolded gate_inv_def]]
  have e: "g_entries s d = Some p" "g_entries s d = Some q"
    using I(1) [OF nth_mem [OF assms(2)], of d p] I(1) [OF nth_mem [OF assms(4)], of d q] assms(3,5) by simp_all
  then have "q = p" by simp
  moreover have "num (owns d p) (g_threads s) \<le> 1" using I(5) [OF e(1)] by simp
  ultimately show ?thesis using num_two [OF _ assms(2,4), of "owns d p"] assms(3,5) by simp
qed

text \<open>A waiter captured before its device was deleted is fenced off: it leaves without holding.\<close>

lemma stale_waiter_fenced:
  assumes "gate_step s s'" and "t < length (g_threads s)" and "g_threads s ! t \<in> {Waiting d p g, Admitted d p g, Checking d p g}"
    and "op_generation (g_heap s ! p) \<noteq> g"
  shows "g_threads s' ! t \<noteq> Holding d' p'"
  using assms
  by (cases rule: gate_stepE)
    (auto simp: gate_enter_def gate_find_def gate_take_def gate_check_def gate_drain_def gate_leave_def gate_invalidate_def
      set_phase_def set_op_def nth_list_update Let_def split: option.splits if_splits)

text \<open>
  The gate leaks nothing. In every reachable state a device has an entry exactly when some
  goroutine waits for its gate, holds it or is leaving it, and the entry counts exactly those
  goroutines, so the map never outgrows the operations under way.
\<close>

theorem entries_exact:
  assumes "reach gate_step (gate_init n) s"
  shows "(case g_entries s d of
      None \<Rightarrow> \<forall>ph\<in>set (g_threads s). \<forall>p. \<not> uses d p ph
    | Some p \<Rightarrow> 0 < op_users (g_heap s ! p) \<and> op_users (g_heap s ! p) = num (uses d p) (g_threads s))"
proof -
  note I = gate_invD [OF gate.reach_inv [OF assms, unfolded gate_inv_def]]
  show ?thesis
  proof (cases "g_entries s d")
    case None
    with I(1) show ?thesis by fastforce
  next
    case (Some p)
    with I(3,4) [OF Some] show ?thesis by simp
  qed
qed

text \<open>Progress without the environment: nobody gives up, and every holder releases.\<close>

inductive gate_work :: "gate \<Rightarrow> gate \<Rightarrow> bool" where
  work_take: "t < length (g_threads s) \<Longrightarrow> g_threads s ! t = Waiting d p g \<Longrightarrow> \<not> op_token (g_heap s ! p) \<Longrightarrow>
    gate_work s (gate_take t d p g s)"
| work_go_on: "t < length (g_threads s) \<Longrightarrow> g_threads s ! t = Admitted d p g \<Longrightarrow> gate_work s (set_phase t (Checking d p g) s)"
| work_check: "t < length (g_threads s) \<Longrightarrow> g_threads s ! t = Checking d p g \<Longrightarrow> gate_work s (gate_check t d p g s)"
| work_release: "t < length (g_threads s) \<Longrightarrow> g_threads s ! t = Holding d p \<Longrightarrow> gate_work s (set_phase t (Draining d p) s)"
| work_drain: "t < length (g_threads s) \<Longrightarrow> g_threads s ! t = Draining d p \<Longrightarrow> op_token (g_heap s ! p) \<Longrightarrow>
    gate_work s (gate_drain t d p s)"
| work_leave: "t < length (g_threads s) \<Longrightarrow> g_threads s ! t = Leaving d p \<Longrightarrow> gate_work s (gate_leave t d p s)"

lemma work_is_step: "gate_work s s' \<Longrightarrow> gate_step s s'"
  by (induction rule: gate_work.induct) (auto intro: gate_step.intros)

definition rank :: "phase \<Rightarrow> nat" where
  "rank ph =
     (case ph of Idle \<Rightarrow> 0 | Leaving d p \<Rightarrow> 1 | Draining d p \<Rightarrow> 2 | Holding d p \<Rightarrow> 3
      | Checking d p g \<Rightarrow> 4 | Admitted d p g \<Rightarrow> 5 | Waiting d p g \<Rightarrow> 6)"

lemma rank_simps [simp]:
  "rank Idle = 0" "rank (Leaving d p) = 1" "rank (Draining d p) = 2" "rank (Holding d p) = 3"
  "rank (Checking d p g) = 4" "rank (Admitted d p g) = 5" "rank (Waiting d p g) = 6"
  by (simp_all add: rank_def)

definition total_rank :: "gate \<Rightarrow> nat" where
  "total_rank s = sum_list (map rank (g_threads s))"

lemma sum_rank_update:
  "t < length xs \<Longrightarrow> sum_list (map rank (xs[t := b])) + rank (xs ! t) = sum_list (map rank xs) + rank b"
proof (induction xs arbitrary: t)
  case (Cons x xs)
  then show ?case by (cases t) auto
qed simp

lemma work_threads:
  "g_threads (set_phase t b s) = (g_threads s)[t := b]" "g_threads (set_op p ob s) = g_threads s"
  "g_threads (gate_leave t d p s) = (g_threads s)[t := Idle]"
  by (simp_all add: set_phase_def set_op_def gate_leave_def Let_def)

lemma work_step:
  assumes inv: "gate_inv s" and t: "t < length (g_threads s)" "g_threads s ! t \<noteq> Idle"
  shows "\<exists>s'. gate_work s s' \<and> total_rank s' < total_rank s"
proof -
  note I = gate_invD [OF inv [unfolded gate_inv_def]]
  have less: "total_rank s' < total_rank s" if "g_threads s' = (g_threads s)[i := b]" "i < length (g_threads s)"
    "rank b < rank (g_threads s ! i)" for s' i b
    using sum_rank_update [OF that(2), of b] that(1,3) by (simp add: total_rank_def)
  have token: "op_token (g_heap s ! p) \<longleftrightarrow> (\<exists>ph\<in>set (g_threads s). owns d p ph)" if "uses d p ph" "ph \<in> set (g_threads s)" for d p ph
    using I(5) [OF I(1) [OF that(2,1)]] num_pos [of "owns d p" "g_threads s"] by (cases "op_token (g_heap s ! p)") auto
  show ?thesis
  proof (cases "\<exists>i<length (g_threads s). \<exists>d p. uses d p (g_threads s ! i) \<and> (\<forall>g. g_threads s ! i \<noteq> Waiting d p g)")
    case True
    then obtain i d p where i: "i < length (g_threads s)" "uses d p (g_threads s ! i)" "\<forall>g. g_threads s ! i \<noteq> Waiting d p g"
      by blast
    show ?thesis
    proof (cases "g_threads s ! i")
      case (Admitted d' p' g)
      have "total_rank (set_phase i (Checking d' p' g) s) < total_rank s"
        by (rule less [OF _ i(1), where b = "Checking d' p' g"]) (simp_all add: work_threads Admitted)
      with work_go_on [OF i(1) Admitted] show ?thesis by blast
    next
      case (Checking d' p' g)
      have "total_rank (gate_check i d' p' g s) < total_rank s"
        by (rule less [OF _ i(1), where b = "if op_generation (g_heap s ! p') \<noteq> g then Draining d' p' else Holding d' p'"])
          (simp_all add: gate_check_def work_threads Checking)
      with work_check [OF i(1) Checking] show ?thesis by blast
    next
      case (Holding d' p')
      have "total_rank (set_phase i (Draining d' p') s) < total_rank s"
        by (rule less [OF _ i(1), where b = "Draining d' p'"]) (simp_all add: work_threads Holding)
      with work_release [OF i(1) Holding] show ?thesis by blast
    next
      case (Draining d' p')
      have "g_threads s ! i \<in> set (g_threads s)" using i(1) by simp
      then have mem: "Draining d' p' \<in> set (g_threads s)" using Draining by simp
      have "owns d' p' (Draining d' p')" by simp
      moreover have "uses d' p' (Draining d' p')" by simp
      ultimately have tok: "op_token (g_heap s ! p')" using token mem by blast
      have "total_rank (gate_drain i d' p' s) < total_rank s"
        by (rule less [OF _ i(1), where b = "Leaving d' p'"]) (simp_all add: gate_drain_def work_threads Draining)
      with work_drain [OF i(1) Draining tok] show ?thesis by blast
    next
      case (Leaving d' p')
      have "total_rank (gate_leave i d' p' s) < total_rank s"
        by (rule less [OF _ i(1), where b = Idle]) (simp_all add: work_threads Leaving)
      with work_leave [OF i(1) Leaving] show ?thesis by blast
    qed (use i in auto)
  next
    case False
    then have waiting: "\<exists>d p g. g_threads s ! i = Waiting d p g" if "i < length (g_threads s)" "g_threads s ! i \<noteq> Idle" for i
      using that by (cases "g_threads s ! i") fastforce+
    then obtain d p g where w: "g_threads s ! t = Waiting d p g" using t by blast
    have "\<not> owns d p ph" if ph: "ph \<in> set (g_threads s)" for ph
    proof -
      obtain i where i: "i < length (g_threads s)" "ph = g_threads s ! i" using ph by (auto simp: in_set_conv_nth)
      show ?thesis
      proof (cases "ph = Idle")
        case False
        with waiting [OF i(1)] i(2) obtain d' p' g' where "ph = Waiting d' p' g'" by blast
        then show ?thesis by simp
      qed simp
    qed
    moreover have "g_threads s ! t \<in> set (g_threads s)" using t(1) by simp
    ultimately have "\<not> op_token (g_heap s ! p)" using token [of d p "Waiting d p g"] w by auto
    moreover have "total_rank (gate_take t d p g s) < total_rank s"
      by (rule less [OF _ t(1), where b = "Admitted d p g"]) (simp_all add: gate_take_def work_threads w)
    ultimately show ?thesis using work_take [OF t(1) w] by blast
  qed
qed

lemma reach_trans: "reach R b c \<Longrightarrow> reach R a b \<Longrightarrow> reach R a c"
  by (induction rule: reach.induct) (auto intro: reach_step)

text \<open>
  C8. The gate never deadlocks. From every reachable state, once no new operation arrives and
  every holder releases, the goroutines all get through without anybody being cancelled: there is a
  run of their own steps to a state in which nobody is inside and no entry is left.
\<close>

theorem gate_drains:
  assumes "reach gate_step (gate_init n) s"
  shows "\<exists>s'. reach gate_work s s' \<and> (\<forall>ph\<in>set (g_threads s'). ph = Idle) \<and> g_entries s' = (\<lambda>_. None)"
  using gate.reach_inv [OF assms]
proof (induction "total_rank s" arbitrary: s rule: less_induct)
  case less
  show ?case
  proof (cases "\<forall>ph\<in>set (g_threads s). ph = Idle")
    case True
    have "g_entries s d = None" for d
    proof (cases "g_entries s d")
      case (Some p)
      with gate_invD(4) [OF less.prems [unfolded gate_inv_def] Some] True show ?thesis
        by (auto simp: num_pos dest!: bspec)
    qed
    with True show ?thesis by (auto intro: reach_init)
  next
    case False
    then obtain t where "t < length (g_threads s)" "g_threads s ! t \<noteq> Idle" by (metis in_set_conv_nth)
    from work_step [OF less.prems this] obtain s1 where s1: "gate_work s s1" "total_rank s1 < total_rank s" by blast
    from less.hyps [OF s1(2) gate.inv_step [OF less.prems work_is_step [OF s1(1)]]]
    show ?thesis using reach_trans [of gate_work s1 _ s] reach_step [of gate_work s s s1] reach_init [of gate_work s] s1(1) by blast
  qed
qed

text \<open>Two goroutines meet at the gate of device 7: the first holds it, the second waits.\<close>

definition demo_gate :: gate where
  "demo_gate = gate_enter 1 7 (gate_check 0 7 0 0 (set_phase 0 (Checking 7 0 0) (gate_take 0 7 0 0 (gate_enter 0 7 (gate_init 2)))))"

lemma demo_phases: "g_threads demo_gate = [Holding 7 0, Waiting 7 0 0]" and demo_entry: "g_entries demo_gate 7 = Some 0"
  and demo_heap: "g_heap demo_gate = [\<lparr>op_token = True, op_users = 2, op_generation = 0\<rparr>]"
  by (simp_all add: demo_gate_def gate_enter_def gate_find_def gate_init_def gate_take_def gate_check_def set_phase_def
      set_op_def Let_def numeral_2_eq_2)

lemma demo_reached: "reach gate_step (gate_init 2) demo_gate"
proof -
  let ?s1 = "gate_enter 0 7 (gate_init 2)"
  let ?s2 = "gate_take 0 7 0 0 ?s1"
  let ?s3 = "set_phase 0 (Checking 7 0 0) ?s2"
  let ?s4 = "gate_check 0 7 0 0 ?s3"
  note defs = gate_enter_def gate_find_def gate_init_def gate_take_def gate_check_def set_phase_def set_op_def Let_def numeral_2_eq_2
  have "gate_step (gate_init 2) ?s1" by (rule enter) (simp_all add: defs)
  then have "reach gate_step (gate_init 2) ?s1" by (rule reach_step [OF reach_init])
  moreover have "gate_step ?s1 ?s2" by (rule take) (simp_all add: defs)
  ultimately have "reach gate_step (gate_init 2) ?s2" by (rule reach_step)
  moreover have "gate_step ?s2 ?s3" by (rule go_on) (simp_all add: defs)
  ultimately have "reach gate_step (gate_init 2) ?s3" by (rule reach_step)
  moreover have "gate_step ?s3 ?s4" by (rule check) (simp_all add: defs)
  ultimately have "reach gate_step (gate_init 2) ?s4" by (rule reach_step)
  moreover have "gate_step ?s4 demo_gate" unfolding demo_gate_def by (rule enter) (simp_all add: defs)
  ultimately show ?thesis by (rule reach_step)
qed

theorem operations_exclusive_witness: "(THE j. g_threads demo_gate ! j = Holding 7 0 \<and> j < 2) = 0"
proof (rule the_equality)
  show "g_threads demo_gate ! 0 = Holding 7 0 \<and> (0::nat) < 2" by (simp add: demo_phases)
  show "j = 0" if "g_threads demo_gate ! j = Holding 7 0 \<and> j < 2" for j
    using operations_exclusive [OF demo_reached, of j 7 0 0 0] that by (simp add: demo_phases numeral_2_eq_2)
qed

theorem entries_exact_witness: "op_users (g_heap demo_gate ! 0) = num (uses 7 0) (g_threads demo_gate)"
  using entries_exact [OF demo_reached, of 7] by (simp add: demo_entry)

theorem gate_drains_witness: "\<exists>s'. reach gate_work demo_gate s' \<and> g_entries s' 7 = None"
  using gate_drains [OF demo_reached] by (elim exE conjE) (auto intro!: exI)

end
