(* ===== verification/Capability.thy ===== *)
theory Capability
  imports GoText
begin

text \<open>
  What a device can do (\<open>internal/capability/registry.go\<close>) and the known defects of its radios
  (\<open>defects.go\<close>). A capability is present, absent or not observable, and never looked at when
  the record has no entry for it. The prose of a defect is not modelled; its identity, the
  hardware it names and what triggers it are.
\<close>

section \<open>States and features\<close>

datatype cap_state = CapUnknown | Present | Absent | NotObservable

definition cap_string :: "cap_state \<Rightarrow> string" where
  "cap_string s = (case s of Present \<Rightarrow> ''present'' | Absent \<Rightarrow> ''absent''
     | NotObservable \<Rightarrow> ''not-observable'' | CapUnknown \<Rightarrow> ''unknown'')"

definition buildable :: "cap_state \<Rightarrow> bool" where
  "buildable s \<longleftrightarrow> s = Present"

definition decided :: "cap_state \<Rightarrow> bool" where
  "decided s \<longleftrightarrow> s = Present \<or> s = Absent"

definition FeatDSA :: string where "FeatDSA = ''dsa''"
definition FeatSwitchPorts :: string where "FeatSwitchPorts = ''switch-port-stats''"
definition FeatFirewall4 :: string where "FeatFirewall4 = ''firewall4''"
definition FeatSurvey :: string where "FeatSurvey = ''iwinfo-survey''"
definition FeatMesh :: string where "FeatMesh = ''mesh-80211s''"
definition FeatWirelessUplink :: string where "FeatWirelessUplink = ''wireless-uplink''"

lemmas feature_defs = FeatDSA_def FeatSwitchPorts_def FeatFirewall4_def FeatSurvey_def FeatMesh_def
  FeatWirelessUplink_def

section \<open>The registry\<close>

record quirk =
  qk_source :: string
  qk_field :: string
  qk_reason :: string

record board =
  bd_model :: string
  bd_name :: string
  bd_system :: string
  bd_kernel :: string
  bd_target :: string
  bd_release :: string
  bd_rootfs :: string

record ports =
  po_bridge :: string
  po_bridge_devices :: "string list"
  po_lan :: "string list"
  po_wan :: string

record radio =
  rd_section :: string
  rd_device :: string
  rd_phy :: string
  rd_channel :: int
  rd_frequency :: int
  rd_hwmodes :: "string list"
  rd_hardware :: string
  rd_band :: string
  rd_survey :: cap_state
  rd_noise :: cap_state

record registry =
  rg_board :: board
  rg_class :: string
  rg_features :: "cap_state gomap"
  rg_quirks :: "quirk list"
  rg_radios :: "radio list"
  rg_inventory :: cap_state
  rg_ports :: ports
  rg_binaries :: "string gomap"
  rg_notes :: "string list"

definition new_registry :: registry where
  "new_registry =
     \<lparr>rg_board = \<lparr>bd_model = [], bd_name = [], bd_system = [], bd_kernel = [], bd_target = [], bd_release = [], bd_rootfs = []\<rparr>,
      rg_class = [], rg_features = [], rg_quirks = [], rg_radios = [], rg_inventory = CapUnknown,
      rg_ports = \<lparr>po_bridge = [], po_bridge_devices = [], po_lan = [], po_wan = []\<rparr>,
      rg_binaries = [], rg_notes = []\<rparr>"

definition set_feature :: "string \<Rightarrow> cap_state \<Rightarrow> registry \<Rightarrow> registry" where
  "set_feature f s r = r\<lparr>rg_features := put f s (rg_features r)\<rparr>"

definition feature_state :: "registry \<Rightarrow> string \<Rightarrow> cap_state" where
  "feature_state r f = (case map_of (rg_features r) f of None \<Rightarrow> CapUnknown | Some s \<Rightarrow> s)"

definition can :: "registry \<Rightarrow> string \<Rightarrow> bool" where
  "can r f = buildable (feature_state r f)"

definition has_quirk :: "registry \<Rightarrow> string \<Rightarrow> string \<Rightarrow> bool" where
  "has_quirk r source field = list_ex (\<lambda>q. qk_source q = source \<and> qk_field q = field) (rg_quirks r)"

definition add_quirk :: "quirk \<Rightarrow> registry \<Rightarrow> registry" where
  "add_quirk q r =
     (if list_ex (\<lambda>e. qk_source e = qk_source q \<and> qk_field e = qk_field q) (rg_quirks r) then r
      else r\<lparr>rg_quirks := rg_quirks r @ [q]\<rparr>)"

definition unobservable :: "registry \<Rightarrow> string list" where
  "unobservable r = sort (map fst (filter (\<lambda>(f, s). s = NotObservable) (rg_features r)))"

definition features_in :: "registry \<Rightarrow> cap_state \<Rightarrow> string list" where
  "features_in r s = filter (\<lambda>f. feature_state r f = s) (sort (keys (rg_features r)))"

definition summary :: "registry \<Rightarrow> string" where
  "summary r =
     (let part = (\<lambda>label fs. if fs = [] then [] else label @ join '','' fs)
      in ''class '' @ rg_class r @ '' '' @ bd_model (rg_board r)
         @ part ''; has: '' (features_in r Present)
         @ part ''; lacks: '' (features_in r Absent)
         @ part ''; UNOBSERVABLE: '' (features_in r NotObservable)
         @ (if rg_quirks r = [] then [] else ''; '' @ itoa (int (length (rg_quirks r))) @ '' quirk(s)''))"

section \<open>Known defects\<close>

definition ConfDeviceDoc :: string where "ConfDeviceDoc = ''documented''"
definition ConfMeasuredHere :: string where "ConfMeasuredHere = ''measured''"
definition SevRadioDeath :: string where "SevRadioDeath = ''radio-death''"
definition SevSilentlyIgnored :: string where "SevSilentlyIgnored = ''silently-ignored''"

record defect =
  df_id :: string
  df_hardware :: string
  df_confidence :: string
  df_severity :: string
  df_triggers :: "(string gomap \<Rightarrow> bool) option"
  df_triggers_radio :: "(radio \<Rightarrow> bool) option"

definition configured :: "defect \<Rightarrow> bool" where
  "configured d \<longleftrightarrow> df_triggers d \<noteq> None \<or> df_triggers_radio d \<noteq> None"

definition is_dfs_channel :: "int \<Rightarrow> bool" where
  "is_dfs_channel ch \<longleftrightarrow> (52 \<le> ch \<and> ch \<le> 64) \<or> (100 \<le> ch \<and> ch \<le> 144)"

definition known_defects :: "defect list" where
  "known_defects =
     [\<lparr>df_id = ''mwlwifi-80211w-unsupported'', df_hardware = ''marvell'', df_confidence = ConfMeasuredHere,
       df_severity = SevRadioDeath,
       df_triggers = Some (\<lambda>v. get_str v ''ieee80211w'' \<noteq> [] \<and> get_str v ''ieee80211w'' \<noteq> ''0''),
       df_triggers_radio = None\<rparr>,
      \<lparr>df_id = ''mwlwifi-wpa3-unsupported'', df_hardware = ''marvell'', df_confidence = ConfDeviceDoc,
       df_severity = SevRadioDeath,
       df_triggers = Some (\<lambda>v. contains_str (to_lower (get_str v ''encryption'')) ''sae''),
       df_triggers_radio = None\<rparr>,
      \<lparr>df_id = ''mwlwifi-dfs-channels'', df_hardware = ''marvell'', df_confidence = ConfDeviceDoc,
       df_severity = SevRadioDeath, df_triggers = None,
       df_triggers_radio = Some (\<lambda>r. is_dfs_channel (rd_channel r))\<rparr>,
      \<lparr>df_id = ''mwlwifi-firmware-hang'', df_hardware = ''marvell'', df_confidence = ConfMeasuredHere,
       df_severity = SevRadioDeath, df_triggers = None, df_triggers_radio = None\<rparr>]"

definition hardware_identified :: "registry option \<Rightarrow> bool" where
  "hardware_identified caps =
     (case caps of None \<Rightarrow> False | Some r \<Rightarrow> list_ex (\<lambda>x. trim_space (rd_hardware x) \<noteq> []) (rg_radios r))"

text \<open>The hardware names of a device: those of its radios and the one its board implies.\<close>

definition hardware_names :: "registry \<Rightarrow> string list" where
  "hardware_names r =
     map rd_hardware (rg_radios r)
     @ (if contains_str (to_lower (bd_model (rg_board r) @ '' '' @ bd_name (rg_board r))) ''wrt3200acm''
        then [''Marvell 88W8964''] else [])"

definition names_defect :: "string \<Rightarrow> defect \<Rightarrow> bool" where
  "names_defect hw d = contains_str hw (to_lower (df_hardware d))"

text \<open>The inner loop of \<open>DefectsFor\<close> over the names; \<open>out\<close> plays the part of \<open>seen\<close> too.\<close>

fun collect_defects :: "defect list \<Rightarrow> string list \<Rightarrow> defect list" where
  "collect_defects out [] = out"
| "collect_defects out (name # names) =
     (let hw = to_lower name
      in collect_defects
           (if hw = [] then out
            else out @ filter (\<lambda>d. \<not> list_ex (\<lambda>e. df_id e = df_id d) out \<and> names_defect hw d) known_defects)
           names)"

definition defects_for :: "registry option \<Rightarrow> defect list" where
  "defects_for caps =
     (case caps of None \<Rightarrow> [] | Some r \<Rightarrow> sort_key df_id (collect_defects [] (hardware_names r)))"

definition may_affect :: "defect \<Rightarrow> radio \<Rightarrow> bool" where
  "may_affect d r =
     (let hw = to_lower (trim_space (rd_hardware r))
      in if hw = [] \<or> has_prefix hw ''generic'' \<or> hw = ''unknown'' then True else names_defect hw d)"

definition triggered_by_on :: "registry option \<Rightarrow> string gomap \<Rightarrow> radio option \<Rightarrow> defect list" where
  "triggered_by_on caps vals radio =
     filter (\<lambda>d. (case df_triggers d of None \<Rightarrow> False | Some t \<Rightarrow> t vals) \<and>
                 (case radio of None \<Rightarrow> True | Some r \<Rightarrow> may_affect d r)) (defects_for caps)"

definition triggered_by :: "registry option \<Rightarrow> string gomap \<Rightarrow> defect list" where
  "triggered_by caps vals = triggered_by_on caps vals None"

definition triggered_by_radios :: "registry option \<Rightarrow> defect list" where
  "triggered_by_radios caps =
     (case caps of
        None \<Rightarrow> []
      | Some r \<Rightarrow>
          filter (\<lambda>d. case df_triggers_radio d of
                        None \<Rightarrow> False
                      | Some t \<Rightarrow> list_ex (\<lambda>x. may_affect d x \<and> t x) (rg_radios r)) (defects_for caps))"

section \<open>Facts\<close>

lemma collect_defects_Cons:
  "collect_defects out (name # names) =
     collect_defects (if to_lower name = [] then out
       else out @ filter (\<lambda>d. \<not> list_ex (\<lambda>e. df_id e = df_id d) out \<and> names_defect (to_lower name) d) known_defects) names"
  by (simp add: Let_def)

declare collect_defects.simps(2) [simp del]

lemma set_collect_defects:
  "set (collect_defects out names) \<subseteq> set out \<union> set known_defects"
proof (induction names arbitrary: out)
  case (Cons n names)
  show ?case
    unfolding collect_defects_Cons by (rule order.trans [OF Cons.IH]) auto
qed simp

lemma collect_defects_mono: "set out \<subseteq> set (collect_defects out names)"
proof (induction names arbitrary: out)
  case (Cons n names)
  show ?case
    unfolding collect_defects_Cons by (rule order.trans [OF _ Cons.IH]) auto
qed simp

lemma known_ids: "d \<in> set known_defects \<Longrightarrow> e \<in> set known_defects \<Longrightarrow> df_id d = df_id e \<Longrightarrow> d = e"
proof -
  have "distinct (map df_id known_defects)" by code_simp
  then show "d \<in> set known_defects \<Longrightarrow> e \<in> set known_defects \<Longrightarrow> df_id d = df_id e \<Longrightarrow> d = e"
    by (auto simp: distinct_map inj_on_def)
qed

text \<open>A defect whose hardware one of the names carries is in the list.\<close>

lemma collect_defects_complete:
  assumes "set out \<subseteq> set known_defects" and "name \<in> set names" and "to_lower name \<noteq> []"
    and "d \<in> set known_defects" and "names_defect (to_lower name) d"
  shows "d \<in> set (collect_defects out names)"
  using assms(1,2)
proof (induction names arbitrary: out)
  case (Cons n names)
  let ?out = "if to_lower n = [] then out
     else out @ filter (\<lambda>d. \<not> list_ex (\<lambda>e. df_id e = df_id d) out \<and> names_defect (to_lower n) d) known_defects"
  have sub: "set ?out \<subseteq> set known_defects" using Cons.prems(1) by auto
  show ?case
  proof (cases "name = n")
    case True
    have "d \<in> set ?out"
    proof (cases "list_ex (\<lambda>e. df_id e = df_id d) out")
      case True
      then obtain e where "e \<in> set out" "df_id e = df_id d" by (auto simp: list_ex_iff)
      with known_ids [of e d] Cons.prems(1) assms(4) have "d \<in> set out" by blast
      then show ?thesis by simp
    qed (use True assms(3-5) in simp)
    then show ?thesis unfolding collect_defects_Cons using collect_defects_mono by blast
  next
    case False
    with Cons.prems have "name \<in> set names" by simp
    from Cons.IH [OF sub this] show ?thesis unfolding collect_defects_Cons .
  qed
qed simp

lemma set_defects_for: "d \<in> set (defects_for caps) \<Longrightarrow> d \<in> set known_defects"
  using set_collect_defects [of "[]"] by (auto simp: defects_for_def split: option.splits)

end
