(* ===== verification/RenderBase.thy ===== *)
theory RenderBase
  imports UciDoc SiteValidate Capability
begin

text \<open>
  What every part of the renderer shares (\<open>internal/render\<close>): the reasons it gives, names of
  sections, the ownership rule \<open>addOwned\<close>, patches, retained sections, and the radios a device
  can serve a band with. How a reason reads is the parameter \<open>say\<close> of the definitions.
\<close>

section \<open>Reasons\<close>

text \<open>One constructor per message of the source, with the values the message prints, in groups.\<close>

datatype air_why =
    NotWirelessFunction "string list"
  | NoWlanTargets
  | RadioListUnread string
  | NoRadio string
  | NotPublishedHere
  | NetworkIsDisabled string string
  | NoVlanInterface string int string
  | NoBandMatches
  | UplinkNoRadio string string
  | MeshNoRadio string
  | FtNotAccepted
  | LoopCaution string
  | OpenMeshCaution
  | ForeignSSID string string string

datatype gate_why =
    UplinkNotObservable
  | UplinkUnanswered
  | UplinkNoSupplicant
  | MeshNotObservable
  | MeshUnanswered
  | MeshDriverRefuses
  | MeshNoBuild

datatype keep_why =
    KeptWlan
  | KeptUplinkAttachment
  | KeptMeshAttachment
  | KeptUplinkGate string
  | KeptMeshGate string
  | BlindKept string "string list"
  | PatchedTwice string string
  | RenderedTwice string string
  | ForeignNamed string string

datatype wire_why =
    ExistingLan
  | NothingKnown
  | PortsUnread
  | SingleInterface string bool
  | NotVlanAware string
  | NoUsableAddress string int
  | BridgeVlanClaimed string string int string
  | DhcpClaimed string string
  | LanMissing string
  | LanNotInterface string string
  | StaticIPv6 string "string list"
  | DhcpSectionCount string nat
  | WanNotInterface string string

datatype zone_why =
    ZonesCollapse "string list" string
  | ZoneIsForeign string
  | RuleRejectsService string string "string list" string bool
  | RedirectAccepts string string
  | PolicyContradicts string string string string

datatype policy_why =
    RouteNotRenderable
  | LeaseNotRenderable
  | TooManySourceMACs
  | NoFirewall4 cap_state
  | EmptySourceSet string
  | ZoneNotRendered string
  | NoActiveZone string
  | ForeignAllowsBlocked string string string
  | ForeignContradicts string string string string
  | RedirectClaimsPort string int string
  | DenialMatchesForward string string
  | RuleBypassesRoute string string
  | RouteOverlapsForeign string string string
  | LeaseClaimed string string string

datatype warn_why = DefectText string string | RadioSwitchedOff string string | HardwareUnidentified string bool

datatype why = Air air_why | Gate gate_why | Keep keep_why | Wire wire_why | Zone zone_why | Policy policy_why | Warn warn_why

type_synonym wording_of = "why \<Rightarrow> string"

definition noted :: "wording_of \<Rightarrow> string \<Rightarrow> string \<Rightarrow> why \<Rightarrow> omission" where
  "noted say wlan kind w = \<lparr>om_wlan = wlan, om_reason = say w, om_kind = kind\<rparr>"

definition clash :: "wording_of \<Rightarrow> string \<Rightarrow> string \<Rightarrow> why \<Rightarrow> conflict" where
  "clash say config name w = \<lparr>cf_config = config, cf_section = name, cf_reason = say w\<rparr>"

definition omit :: "omission list \<Rightarrow> report \<Rightarrow> report" where
  "omit oms rep = rep\<lparr>rp_omissions := rp_omissions rep @ oms\<rparr>"

definition refuse :: "conflict list \<Rightarrow> report \<Rightarrow> report" where
  "refuse cs rep = rep\<lparr>rp_conflicts := rp_conflicts rep @ cs\<rparr>"

definition blank_report :: report where
  "blank_report = \<lparr>rp_omissions = [], rp_conflicts = [], rp_warnings = []\<rparr>"

section \<open>Names\<close>

definition NamePrefix :: string where "NamePrefix = ''oowrt''"

text \<open>\<open>safe\<close>: what UCI accepts as part of a section name.\<close>

definition safe :: "string \<Rightarrow> string" where
  "safe s =
     (let out = trim_by (\<lambda>c. c = CHR ''_'') (concat (map zone_char (to_lower (trim_space s))))
      in if out = [] then ''net'' else out)"

definition iface_name :: "int \<Rightarrow> string \<Rightarrow> string" where
  "iface_name i radio = NamePrefix @ ''_wlan'' @ itoa i @ ''_'' @ radio"

definition uplink_iface_name :: "int \<Rightarrow> string \<Rightarrow> string" where
  "uplink_iface_name i radio = NamePrefix @ ''_up'' @ itoa i @ ''_'' @ radio"

definition mesh_iface_name :: "int \<Rightarrow> string \<Rightarrow> string" where
  "mesh_iface_name i radio = NamePrefix @ ''_mesh'' @ itoa i @ ''_'' @ radio"

definition net_iface_name :: "string \<Rightarrow> string" where
  "net_iface_name name = NamePrefix @ ''_net_'' @ safe name"

definition dhcp_name :: "string \<Rightarrow> string" where
  "dhcp_name name = NamePrefix @ ''_dhcp_'' @ safe name"

definition network_attachment_name :: "network \<Rightarrow> string" where
  "network_attachment_name n = (if n_vlan n \<le> 1 then n_name n else net_iface_name (n_name n))"

definition bool_opt :: "bool \<Rightarrow> string" where
  "bool_opt on = (if on then ''1'' else ''0'')"

text \<open>A section this controller wants to exist.\<close>

definition own_section ::
  "string \<Rightarrow> string \<Rightarrow> string \<Rightarrow> string gomap \<Rightarrow> string list gomap \<Rightarrow> string list \<Rightarrow> uci_section" where
  "own_section config kind name vals ls manages =
     \<lparr>sc_config = config, sc_type = kind, sc_name = name, sc_values = vals @ [(OwnershipTag, ''1'')],
      sc_lists = ls, sc_manages = manages\<rparr>"

section \<open>Foreign sections\<close>

text \<open>A section of the device that does not carry the marker.\<close>

definition foreign :: "device_section \<Rightarrow> bool" where
  "foreign vals \<longleftrightarrow> get_str vals OwnershipTag \<noteq> ''1''"

definition foreign_named :: "existing \<Rightarrow> string \<Rightarrow> string \<Rightarrow> bool" where
  "foreign_named ex config name \<longleftrightarrow>
     (case map_of (in_config ex config) name of None \<Rightarrow> False | Some vals \<Rightarrow> foreign vals)"

text \<open>The sections of a config in the order of their sorted names.\<close>

definition sorted_config :: "existing \<Rightarrow> string \<Rightarrow> (string \<times> device_section) list" where
  "sorted_config ex config =
     map (\<lambda>name. (name, section_values ex config name)) (sort (keys (in_config ex config)))"

section \<open>Building the document\<close>

type_synonym draft = "doc \<times> report"

definition add_owned :: "wording_of \<Rightarrow> existing \<Rightarrow> uci_section \<Rightarrow> draft \<Rightarrow> draft" where
  "add_owned say ex sec = (\<lambda>(d, rep).
     if list_ex (\<lambda>w. sc_config w = sc_config sec \<and> sc_name w = sc_name sec) (d_sections d)
     then (d, refuse [clash say (sc_config sec) (sc_name sec) (Keep (RenderedTwice (sc_config sec) (sc_name sec)))] rep)
     else if foreign_named ex (sc_config sec) (sc_name sec)
     then (d, refuse [clash say (sc_config sec) (sc_name sec) (Keep (ForeignNamed (sc_config sec) (sc_name sec)))] rep)
     else (d\<lparr>d_sections := d_sections d @ [sec]\<rparr>, rep))"

definition add_patch :: "wording_of \<Rightarrow> patch \<Rightarrow> draft \<Rightarrow> draft" where
  "add_patch say p = (\<lambda>(d, rep).
     if list_ex (\<lambda>w. pt_config w = pt_config p \<and> pt_section w = pt_section p) (d_patches d)
     then (d, refuse [clash say (pt_config p) (pt_section p) (Keep (PatchedTwice (pt_config p) (pt_section p)))] rep)
     else (d\<lparr>d_patches := d_patches d @ [p]\<rparr>, rep))"

definition retain :: "wording_of \<Rightarrow> existing \<Rightarrow> string \<Rightarrow> why \<Rightarrow> draft \<Rightarrow> draft" where
  "retain say ex name w = (\<lambda>(d, rep).
     (d\<lparr>d_retain := d_retain d @ [(''wireless'', name)]\<rparr>,
      if owned_in ex ''wireless'' name then omit [noted say name KindUndetermined w] rep else rep))"

definition put_section :: "uci_section \<Rightarrow> draft \<Rightarrow> draft" where
  "put_section sec = (\<lambda>(d, rep). (d\<lparr>d_sections := d_sections d @ [sec]\<rparr>, rep))"

definition on_report :: "(report \<Rightarrow> report) \<Rightarrow> draft \<Rightarrow> draft" where
  "on_report f = (\<lambda>(d, rep). (d, f rep))"

definition network_attachment_available :: "doc \<Rightarrow> network \<Rightarrow> bool" where
  "network_attachment_available d n \<longleftrightarrow>
     (if \<not> n_enabled n then False
      else if n_vlan n \<le> 1 then True
      else list_ex (\<lambda>s. sc_config s = ''network'' \<and> sc_type s = ''interface'' \<and>
             sc_name s = network_attachment_name n) (d_sections d))"

definition network_attachment_omission :: "network \<Rightarrow> string \<Rightarrow> why" where
  "network_attachment_omission n action =
     (if \<not> n_enabled n then Air (NetworkIsDisabled (n_name n) action)
      else Air (NoVlanInterface (n_name n) (n_vlan n) action))"

definition wants_vlan :: "site \<Rightarrow> bool" where
  "wants_vlan s = list_ex active (s_networks s)"

text \<open>\<open>reportBlind\<close>: the owned sections kept only because the render could not see.\<close>

definition blind_kept :: "doc \<Rightarrow> existing \<Rightarrow> string \<Rightarrow> string list" where
  "blind_kept d ex config =
     sort (filter (\<lambda>name. (config, name) \<notin> set (map section_ref (d_sections d)) \<and> owned_in ex config name)
             (keys (in_config ex config)))"

definition report_blind :: "wording_of \<Rightarrow> existing \<Rightarrow> draft \<Rightarrow> draft" where
  "report_blind say ex = (\<lambda>(d, rep).
     (d, omit (concat (map (\<lambda>config.
           let kept = blind_kept d ex config
           in if kept = [] then [] else [noted say config KindUndetermined (Keep (BlindKept config kept))]) (d_blind d))) rep))"

section \<open>Radios\<close>

type_synonym caps = "registry option"

text \<open>The state of a feature; the source asks this of a registry that is not nil.\<close>

definition caps_state :: "caps \<Rightarrow> string \<Rightarrow> cap_state" where
  "caps_state c f = (case c of None \<Rightarrow> CapUnknown | Some r \<Rightarrow> feature_state r f)"

definition caps_radios :: "caps \<Rightarrow> radio list" where
  "caps_radios c = (case c of None \<Rightarrow> [] | Some r \<Rightarrow> rg_radios r)"

definition undetermined :: "caps \<Rightarrow> string \<Rightarrow> bool" where
  "undetermined c f = (case c of None \<Rightarrow> False | Some r \<Rightarrow> \<not> decided (feature_state r f))"

definition gate_kind :: "caps \<Rightarrow> string \<Rightarrow> string" where
  "gate_kind c f = (if undetermined c f then KindUndetermined else KindUnclassified)"

definition radio_kind :: "bool \<Rightarrow> string" where
  "radio_kind unknown = (if unknown then KindUndetermined else KindUnclassified)"

definition radio_section :: "radio \<Rightarrow> string" where
  "radio_section r =
     (if rd_section r \<noteq> [] then rd_section r
      else if rd_phy r = [] then rd_device r
      else if length (rd_phy r) > 3 \<and> take 3 (rd_phy r) = ''phy'' then ''radio'' @ drop 3 (rd_phy r)
      else rd_phy r)"

definition radio_band :: "radio \<Rightarrow> string option" where
  "radio_band r =
     (case band_for_frequency (rd_frequency r) of
        Some b \<Rightarrow> Some b
      | None \<Rightarrow> if rd_band r \<noteq> [] then Some (rd_band r) else None)"

text \<open>Radios in the order of their device names; the first one of a band serves it.\<close>

fun band_map :: "string gomap \<Rightarrow> radio list \<Rightarrow> string gomap" where
  "band_map out [] = out"
| "band_map out (r # rs) =
     (case radio_band r of
        None \<Rightarrow> band_map out rs
      | Some b \<Rightarrow> band_map (if has_key out b then out else out @ [(b, radio_section r)]) rs)"

definition radios_by_band :: "caps \<Rightarrow> string gomap" where
  "radios_by_band c = band_map [] (sort_key rd_device (caps_radios c))"

definition valid_uci_identifier :: "string \<Rightarrow> bool" where
  "valid_uci_identifier name \<longleftrightarrow>
     1 \<le> length name \<and> length name \<le> 64 \<and>
     list_all (\<lambda>c. is_upper c \<or> is_lower c \<or> is_digit c \<or> c = CHR ''_'') name"

datatype radio_error = BadTarget nat string | SharedTarget nat nat string

fun check_targets :: "nat \<Rightarrow> nat gomap \<Rightarrow> radio list \<Rightarrow> radio_error option" where
  "check_targets i seen [] = None"
| "check_targets i seen (r # rs) =
     (let target = radio_section r
      in if \<not> valid_uci_identifier target then Some (BadTarget (i + 1) target)
         else (case map_of seen target of
                 Some previous \<Rightarrow> Some (SharedTarget (previous + 1) (i + 1) target)
               | None \<Rightarrow> check_targets (i + 1) (put target i seen) rs))"

definition validate_radio_targets :: "caps \<Rightarrow> radio_error option" where
  "validate_radio_targets c = check_targets 0 [] (caps_radios c)"

definition band_order :: "string \<Rightarrow> nat" where
  "band_order b = (if b = Band5G then 1 else if b = Band6G then 2 else 0)"

definition ordered_bands :: "string list \<Rightarrow> string list" where
  "ordered_bands bands = sort_key band_order bands"

definition radio_is_disabled :: "existing \<Rightarrow> string \<Rightarrow> bool" where
  "radio_is_disabled ex radio \<longleftrightarrow>
     (case map_of (in_config ex ''wireless'') radio of
        None \<Rightarrow> False | Some sec \<Rightarrow> get_str sec ''disabled'' = ''1'')"

definition radio_by_section :: "caps \<Rightarrow> string \<Rightarrow> radio option" where
  "radio_by_section c sec = find (\<lambda>r. radio_section r = sec) (caps_radios c)"

definition live_channel :: "device_config \<Rightarrow> radio \<Rightarrow> radio" where
  "live_channel wireless r =
     (case map_of wireless (radio_section r) of
        None \<Rightarrow> r
      | Some sec \<Rightarrow>
          (case atoi (trim_space (get_str sec ''channel'')) of
             None \<Rightarrow> r | Some n \<Rightarrow> if n > 0 then r\<lparr>rd_channel := n\<rparr> else r))"

definition with_live_channels :: "caps \<Rightarrow> existing \<Rightarrow> caps" where
  "with_live_channels c ex =
     (case c of
        None \<Rightarrow> None
      | Some r \<Rightarrow>
          if in_config ex ''wireless'' = [] then Some r
          else Some (r\<lparr>rg_radios := map (live_channel (in_config ex ''wireless'')) (rg_radios r)\<rparr>))"

definition foreign_ssid_on_radio :: "existing \<Rightarrow> string \<Rightarrow> string \<Rightarrow> string \<Rightarrow> string option" where
  "foreign_ssid_on_radio ex radio ssid ours =
     map_option fst (find (\<lambda>(name, vals).
        name \<noteq> ours \<and> foreign vals \<and> get_str vals ''ssid'' = ssid \<and> get_str vals ''device'' = radio)
       (sorted_config ex ''wireless''))"

end
