(* ===== verification/ForeignRules.thy ===== *)
theory ForeignRules
  imports RenderBase
begin

text \<open>
  What the renderer concludes about firewall, bridge and DHCP sections a human wrote
  (\<open>internal/render/network.go\<close>): which packets an option could match, where syntax it does
  not understand counts as a match, and the conflicts that block an apply.
\<close>

section \<open>Matching options\<close>

definition family_could_match_ipv4 :: "string \<Rightarrow> bool" where
  "family_could_match_ipv4 value =
     (let v = to_lower (trim_space value)
      in if v = [] \<or> v = ''any'' \<or> v = ''all'' \<or> v = ''*'' \<or> v = ''inet'' then True
         else if contains_str v ''4'' then True
         else if contains_str v ''6'' then False else True)"

definition family_could_match_ipv6 :: "string \<Rightarrow> bool" where
  "family_could_match_ipv6 value =
     (let v = to_lower (trim_space value)
      in if v = [] \<or> v = ''any'' \<or> v = ''all'' \<or> v = ''*'' \<or> v = ''inet'' then True
         else if contains_str v ''6'' then True
         else if contains_str v ''4'' then False else True)"

text \<open>Whether one field matches; \<open>None\<close> is a field that is not understood.\<close>

definition protocol_token :: "string \<Rightarrow> string \<Rightarrow> bool option" where
  "protocol_token want field =
     (if field = ''all'' \<or> field = ''any'' \<or> field = ''*'' then Some True
      else if field = ''tcpudp'' then Some (want = ''tcp'' \<or> want = ''udp'')
      else if field = ''6'' then Some (want = ''tcp'')
      else if field = ''17'' then Some (want = ''udp'')
      else if field \<in> set [''tcp'', ''udp'', ''icmp'', ''icmpv6'', ''esp'', ''ah'', ''gre''] then Some (field = want)
      else None)"

definition port_number :: "string \<Rightarrow> int option" where
  "port_number s = (case atoi s of None \<Rightarrow> None | Some n \<Rightarrow> if n < 0 \<or> n > 65535 then None else Some n)"

definition port_token :: "int \<Rightarrow> string \<Rightarrow> bool option" where
  "port_token want field =
     (case fields_by (\<lambda>c. c = CHR ''-'' \<or> c = CHR '':'') [] field of
        [a] \<Rightarrow> map_option (\<lambda>lo. want \<ge> lo \<and> want \<le> lo) (port_number a)
      | [a, b] \<Rightarrow>
          (case (port_number a, port_number b) of
             (Some lo, Some hi) \<Rightarrow> if hi < lo then None else Some (want \<ge> lo \<and> want \<le> hi)
           | _ \<Rightarrow> None)
      | _ \<Rightarrow> None)"

text \<open>The loop over the fields of an option, some of them excluded by a leading \<open>!\<close>.\<close>

fun could_match_fields :: "(string \<Rightarrow> bool option) \<Rightarrow> bool \<Rightarrow> bool \<Rightarrow> bool \<Rightarrow> string list \<Rightarrow> bool" where
  "could_match_fields tok positive matched excluded [] \<longleftrightarrow> \<not> excluded \<and> (\<not> positive \<or> matched)"
| "could_match_fields tok positive matched excluded (f # fs) \<longleftrightarrow>
     (case tok (trim_prefix f ''!'') of
        None \<Rightarrow> True
      | Some m \<Rightarrow>
          if has_prefix f ''!'' then could_match_fields tok positive matched (excluded \<or> m) fs
          else could_match_fields tok True (matched \<or> m) excluded fs)"

definition protocol_could_match :: "string \<Rightarrow> string \<Rightarrow> bool" where
  "protocol_could_match value want =
     (let fs = GoText.fields (to_lower (trim_space value))
      in could_match_fields (protocol_token want) False False False (if fs = [] then [''tcpudp''] else fs))"

definition port_could_match :: "string \<Rightarrow> int \<Rightarrow> bool" where
  "port_could_match value want =
     (let fs = GoText.fields (trim_space value)
      in if fs = [] then True else could_match_fields (port_token want) False False False fs)"

definition uci_option_false :: "string \<Rightarrow> bool" where
  "uci_option_false value \<longleftrightarrow> to_lower (trim_space value) \<in> set [''0'', ''off'', ''false'', ''no'']"

definition uci_option_true :: "string \<Rightarrow> bool" where
  "uci_option_true value \<longleftrightarrow> to_lower (trim_space value) \<in> set [''1'', ''on'', ''true'', ''yes'']"

definition odd_syntax :: string where
  "odd_syntax = ''!{},;'' @ [CHR 0x22, CHR 0x27]"

definition foreign_source_could_match :: "string \<Rightarrow> string \<Rightarrow> bool" where
  "foreign_source_could_match value want =
     (let v = trim_space value
      in if v = [] then False
         else if v = ''*'' \<or> v = want then True
         else contains_any v odd_syntax \<or> length (GoText.fields v) \<noteq> 1)"

section \<open>Zones and policies\<close>

definition foreign_zone :: "existing \<Rightarrow> string \<Rightarrow> string option" where
  "foreign_zone ex name =
     map_option fst (find (\<lambda>(n, vals). foreign vals \<and> get_str vals ''.type'' = ''zone'' \<and> get_str vals ''name'' = name)
       (sorted_config ex ''firewall''))"

text \<open>A foreign DNAT redirect from the source, or the claim another section makes against the matrix.\<close>

definition dnat_accepts :: "device_section \<Rightarrow> bool" where
  "dnat_accepts vals \<longleftrightarrow>
     (let target = to_upper (trim_space (get_str vals ''target''))
      in get_str vals ''.type'' = ''redirect'' \<and> (target = [] \<or> target = ''DNAT'') \<and>
         trim_space (get_str vals ''dest_ip'') \<noteq> [])"

definition policy_claim :: "string list \<Rightarrow> device_section \<Rightarrow> string option" where
  "policy_claim allowed vals =
     (let kind = get_str vals ''.type''; dest = get_str vals ''dest'';
          target = to_upper (trim_space (get_str vals ''target''));
          dest_allowed = dest \<in> set allowed \<or> (dest = ''*'' \<and> allowed \<noteq> []);
          dest_omitted = dest \<notin> set allowed \<or> dest = ''*''
      in if kind = ''forwarding'' \<and> dest_omitted then Some ''allows an omitted destination''
         else if kind = ''rule'' \<and> target = ''ACCEPT'' \<and> dest_omitted then Some ''has target ACCEPT for an omitted destination''
         else if kind = ''rule'' \<and> (target = ''REJECT'' \<or> target = ''DROP'') \<and> dest_allowed
              then Some ''can reject traffic to an allowed destination''
         else None)"

definition foreign_policy_conflict :: "wording_of \<Rightarrow> string \<Rightarrow> string list \<Rightarrow> string \<times> device_section \<Rightarrow> conflict list" where
  "foreign_policy_conflict say src allowed = (\<lambda>(name, vals).
     if \<not> foreign vals \<or> uci_option_false (get_str vals ''enabled'') then []
     else if \<not> foreign_source_could_match (get_str vals ''src'') src then []
     else if dnat_accepts vals then [clash say ''firewall'' name (Zone (RedirectAccepts name (get_str vals ''src'')))]
     else if get_str vals ''dest'' = [] then []
     else (case policy_claim allowed vals of
             None \<Rightarrow> []
           | Some claim \<Rightarrow>
               [clash say ''firewall'' name (Zone (PolicyContradicts name claim (get_str vals ''src'') (get_str vals ''dest'')))]))"

definition foreign_firewall_policy_conflicts :: "wording_of \<Rightarrow> existing \<Rightarrow> string \<Rightarrow> string list \<Rightarrow> conflict list" where
  "foreign_firewall_policy_conflicts say ex source forward_to =
     concat (map (foreign_policy_conflict say (firewall_zone_name source) (map firewall_zone_name forward_to))
       (sorted_config ex ''firewall''))"

section \<open>Router services\<close>

text \<open>A foreign input rule of the source that drops or rejects, before the services it hits.\<close>

definition denies_input :: "(string \<Rightarrow> bool) \<Rightarrow> string \<Rightarrow> device_section \<Rightarrow> bool" where
  "denies_input family src vals \<longleftrightarrow>
     \<not> (get_str vals ''.type'' \<noteq> ''rule'' \<or> \<not> foreign vals \<or> uci_option_false (get_str vals ''enabled'') \<or>
        get_str vals ''dest'' \<noteq> [] \<or> \<not> foreign_source_could_match (get_str vals ''src'') src \<or>
        \<not> family (get_str vals ''family'')) \<and>
     (let target = to_upper (trim_space (get_str vals ''target'')) in target = ''DROP'' \<or> target = ''REJECT'')"

definition dns_hit :: "device_section \<Rightarrow> bool" where
  "dns_hit vals \<longleftrightarrow>
     (protocol_could_match (get_str vals ''proto'') ''tcp'' \<or> protocol_could_match (get_str vals ''proto'') ''udp'') \<and>
     port_could_match (get_str vals ''dest_port'') 53"

definition lease_hit :: "int \<Rightarrow> int \<Rightarrow> device_section \<Rightarrow> bool" where
  "lease_hit from_port to_port vals \<longleftrightarrow>
     protocol_could_match (get_str vals ''proto'') ''udp'' \<and>
     port_could_match (get_str vals ''src_port'') from_port \<and> port_could_match (get_str vals ''dest_port'') to_port"

definition services_hit :: "device_section \<Rightarrow> string list" where
  "services_hit vals = (if lease_hit 68 67 vals then [''DHCP''] else []) @ (if dns_hit vals then [''DNS''] else [])"

definition services_hit6 :: "device_section \<Rightarrow> string list" where
  "services_hit6 vals =
     (if lease_hit 546 547 vals then [''DHCPv6''] else []) @ (if dns_hit vals then [''DNS''] else [])
     @ (if protocol_could_match (get_str vals ''proto'') ''icmpv6'' \<or> protocol_could_match (get_str vals ''proto'') ''icmp''
        then [''ICMPv6''] else [])"

definition foreign_router_service_conflicts :: "wording_of \<Rightarrow> existing \<Rightarrow> string \<Rightarrow> conflict list" where
  "foreign_router_service_conflicts say ex source =
     concat (map (\<lambda>(name, vals).
       if denies_input family_could_match_ipv4 (firewall_zone_name source) vals \<and> services_hit vals \<noteq> []
       then [clash say ''firewall'' name (Zone (RuleRejectsService name
               (to_lower (to_upper (trim_space (get_str vals ''target'')))) (services_hit vals) (firewall_zone_name source) False))]
       else []) (sorted_config ex ''firewall''))"

definition foreign_ipv6_router_service_conflicts :: "wording_of \<Rightarrow> existing \<Rightarrow> string \<Rightarrow> conflict list" where
  "foreign_ipv6_router_service_conflicts say ex source =
     concat (map (\<lambda>(name, vals).
       if denies_input family_could_match_ipv6 (firewall_zone_name source) vals \<and> services_hit6 vals \<noteq> []
       then [clash say ''firewall'' name (Zone (RuleRejectsService name
               (to_lower (to_upper (trim_space (get_str vals ''target'')))) (services_hit6 vals) (firewall_zone_name source) True))]
       else []) (sorted_config ex ''firewall''))"

section \<open>Bridges and DHCP\<close>

definition foreign_bridge_vlan_conflicts :: "wording_of \<Rightarrow> uci_section \<Rightarrow> existing \<Rightarrow> conflict list" where
  "foreign_bridge_vlan_conflicts say want ex =
     (case atoi (trim_space (get_str (sc_values want) ''vlan'')) of
        None \<Rightarrow> []
      | Some vid \<Rightarrow>
          concat (map (\<lambda>(name, vals).
            if name = sc_name want \<or> \<not> foreign vals \<or> get_str vals ''.type'' \<noteq> ''bridge-vlan'' \<or>
               get_str vals ''device'' \<noteq> get_str (sc_values want) ''device'' \<or>
               atoi (trim_space (get_str vals ''vlan'')) \<noteq> Some vid then []
            else [clash say ''network'' name (Wire (BridgeVlanClaimed name (get_str (sc_values want) ''device'') vid (sc_name want)))])
          (sorted_config ex ''network'')))"

definition foreign_dhcp_conflicts :: "wording_of \<Rightarrow> network \<Rightarrow> string \<Rightarrow> bool \<Rightarrow> existing \<Rightarrow> conflict list" where
  "foreign_dhcp_conflicts say n iface wants_pool ex =
     concat (map (\<lambda>(name, vals).
       if get_str vals ''.type'' \<noteq> ''dhcp'' \<or> get_str vals ''interface'' \<noteq> iface \<or> \<not> foreign vals then []
       else if wants_pool \<and> name = dhcp_name (n_name n) then []
       else [clash say ''dhcp'' name (Wire (DhcpClaimed name iface))]) (sorted_config ex ''dhcp''))"

section \<open>What the matching means\<close>

text \<open>
  The fields of an option, read without an order: any field that is not understood matches;
  otherwise no excluded field may match, and one of the others must, if there is one.
\<close>

definition positive_fields :: "string list \<Rightarrow> string list" where
  "positive_fields fs = filter (\<lambda>f. \<not> has_prefix f ''!'') fs"

definition excluded_fields :: "string list \<Rightarrow> string list" where
  "excluded_fields fs = map (\<lambda>f. trim_prefix f ''!'') (filter (\<lambda>f. has_prefix f ''!'') fs)"

lemma trim_prefix_positive: "\<not> has_prefix f p \<Longrightarrow> trim_prefix f p = f"
  by (simp add: trim_prefix_def)

lemma could_match_fields_spec:
  "could_match_fields tok positive matched excluded fs \<longleftrightarrow>
     (\<exists>f\<in>set fs. tok (trim_prefix f ''!'') = None) \<or>
     \<not> excluded \<and> (\<forall>f\<in>set (excluded_fields fs). tok f \<noteq> Some True) \<and>
     (\<not> positive \<and> positive_fields fs = [] \<or> matched \<or> (\<exists>f\<in>set (positive_fields fs). tok f = Some True))"
proof (induction tok positive matched excluded fs rule: could_match_fields.induct)
  case (2 tok positive matched excluded f fs)
  show ?case
  proof (cases "tok (trim_prefix f ''!'')")
    case (Some m)
    then show ?thesis
      using 2 by (cases "has_prefix f ''!''") (auto simp: positive_fields_def excluded_fields_def trim_prefix_positive)
  qed simp
qed (simp add: positive_fields_def excluded_fields_def)

lemma sorted_config_in:
  "(name, vals) \<in> set (sorted_config ex config) \<longleftrightarrow>
     name \<in> set (keys (in_config ex config)) \<and> vals = section_values ex config name"
  by (auto simp: sorted_config_def)

end
