(* ===== verification/RenderNetwork.thy ===== *)
theory RenderNetwork
  imports ForeignRules
begin

text \<open>
  Rendering a network (\<open>internal/render/network.go\<close>): the bridge VLAN, the interface, the DHCP
  pool, the option patches of the management network, and the firewall zones that several
  networks may share.
\<close>

unbundle bit_operations_syntax

section \<open>Addresses\<close>

text \<open>\<open>splitCIDR\<close> has its own reader of addresses and prefix lengths: leading zeros are allowed.\<close>

definition octet_ok :: "string \<Rightarrow> bool" where
  "octet_ok p \<longleftrightarrow> p \<noteq> [] \<and> length p \<le> 3 \<and> list_all is_digit p \<and> read_digits p \<le> 255"

definition valid_ipv4 :: "string \<Rightarrow> bool" where
  "valid_ipv4 s \<longleftrightarrow> (let parts = split_on (CHR ''.'') s in length parts = 4 \<and> list_all octet_ok parts)"

text \<open>The bits loop refuses as soon as the value passes 32.\<close>

fun read_bits :: "nat \<Rightarrow> string \<Rightarrow> nat option" where
  "read_bits n [] = Some n"
| "read_bits n (c # cs) =
     (if \<not> is_digit c then None
      else if 10 * n + digit_val c > 32 then None else read_bits (10 * n + digit_val c) cs)"

definition mask_text :: "nat \<Rightarrow> string" where
  "mask_text bits = show_addr (netmask bits)"

definition split_cidr :: "string \<Rightarrow> (string \<times> string) option" where
  "split_cidr cidr =
     (case cut (CHR ''/'') (trim_space cidr) of
        None \<Rightarrow> None
      | Some (addr, len) \<Rightarrow>
          if \<not> valid_ipv4 addr then None
          else (case read_bits 0 len of
                  None \<Rightarrow> None
                | Some bits \<Rightarrow> if len = [] \<or> bits < 8 then None else Some (addr, mask_text bits)))"

section \<open>One network\<close>

definition bridge_is_vlan_aware :: "caps \<Rightarrow> existing \<Rightarrow> bool" where
  "bridge_is_vlan_aware c ex =
     (case c of
        None \<Rightarrow> False
      | Some r \<Rightarrow>
          po_bridge (rg_ports r) \<noteq> [] \<and>
          list_ex (\<lambda>(name, vals). get_str vals ''.type'' = ''bridge-vlan'' \<and>
             get_str vals ''device'' = po_bridge (rg_ports r)) (in_config ex ''network''))"

record zone_member =
  zm_zone :: string
  zm_iface :: string
  zm_dhcp4 :: bool
  zm_ipv6 :: bool
  zm_dhcp_section :: bool

definition no_member :: zone_member where
  "no_member = \<lparr>zm_zone = [], zm_iface = [], zm_dhcp4 = False, zm_ipv6 = False, zm_dhcp_section = False\<rparr>"

definition single_interface_why :: "registry \<Rightarrow> why" where
  "single_interface_why r =
     Wire (SingleInterface (po_bridge (rg_ports r))
       (feature_state r FeatDSA = Absent \<and> feature_state r FeatSwitchPorts = Present))"

text \<open>Whether an owned DHCP section carries IPv6 configuration, and whether it is a server.\<close>

definition managed_ipv6_state :: "network \<Rightarrow> existing \<Rightarrow> bool \<times> bool" where
  "managed_ipv6_state n ex =
     (case map_of (in_config ex ''dhcp'') (dhcp_name (n_name n)) of
        None \<Rightarrow> (False, False)
      | Some vals \<Rightarrow>
          if foreign vals then (False, False)
          else (list_ex (has_key vals) [''dynamicdhcpv6'', ''dhcpv6'', ''ra'', ''ra_management'', ''ndp'', ''ra_default''],
                get_str vals ''ra'' = ''server'' \<and> get_str vals ''dhcpv6'' = ''server''))"

definition bridge_vlan_section :: "registry \<Rightarrow> network \<Rightarrow> uci_section" where
  "bridge_vlan_section r n =
     own_section ''network'' ''bridge-vlan'' (NamePrefix @ ''_bv'' @ itoa (n_vlan n))
       [(''device'', po_bridge (rg_ports r)), (''vlan'', itoa (n_vlan n)), (''local'', ''1'')]
       [(''ports'', map (\<lambda>p. p @ '':t'') (po_lan (rg_ports r)))] []"

definition vlan_device :: "registry \<Rightarrow> network \<Rightarrow> string" where
  "vlan_device r n = po_bridge (rg_ports r) @ ''.'' @ itoa (n_vlan n)"

definition unmanaged_interface :: "registry \<Rightarrow> network \<Rightarrow> uci_section" where
  "unmanaged_interface r n =
     own_section ''network'' ''interface'' (net_iface_name (n_name n))
       [(''proto'', ''none''), (''device'', vlan_device r n)] [] [''ipaddr'', ''netmask'']"

definition static_interface :: "registry \<Rightarrow> network \<Rightarrow> string \<Rightarrow> string \<Rightarrow> uci_section" where
  "static_interface r n ipaddr dotted =
     (let mode = v6_mode (effective_ipv6 n)
      in own_section ''network'' ''interface'' (net_iface_name (n_name n))
           ([(''proto'', ''static''), (''device'', vlan_device r n), (''ipaddr'', ipaddr), (''netmask'', dotted)]
            @ (if mode = ''prefix-delegation'' then [(''ip6assign'', itoa (v6_len (effective_ipv6 n)))] else []))
           []
           ([''ipaddr'', ''netmask'']
            @ (if mode = ''prefix-delegation'' then [''ip6assign'']
               else if mode = ''disabled'' then [''ip6assign'', ''ip6hint'', ''ip6class''] else [])))"

definition dhcp_section :: "network \<Rightarrow> uci_section" where
  "dhcp_section n =
     (let dhcp = effective_dhcp n; mode = v6_mode (effective_ipv6 n); iface = net_iface_name (n_name n)
      in own_section ''dhcp'' ''dhcp'' (dhcp_name (n_name n))
           ([(''interface'', iface), (''networkid'', iface)]
            @ (if dhcp_enabled dhcp
               then [(''start'', itoa (dhcp_start dhcp)), (''limit'', itoa (dhcp_limit dhcp)),
                     (''leasetime'', trim_space (dhcp_lease dhcp)), (''dhcpv4'', ''server'')]
               else [(''ignore'', ''1''), (''dhcpv4'', ''disabled'')])
            @ (if mode = ''prefix-delegation'' then [(''dhcpv6'', ''server''), (''ra'', ''server''), (''ndp'', ''disabled'')]
               else if mode = ''disabled'' then [(''dhcpv6'', ''disabled''), (''ra'', ''disabled''), (''ndp'', ''disabled'')]
               else []))
           []
           ([''instance'', ''ignore'', ''networkid'', ''netmask'', ''force'', ''options'', ''dhcp_option'',
             ''dhcp_option_force'', ''dynamicdhcp'', ''dynamicdhcpv4'', ''dhcpv4'', ''tag'']
            @ (if mode = ''prefix-delegation'' \<or> mode = ''disabled''
               then [''dynamicdhcpv6'', ''dhcpv6'', ''ra'', ''ra_management'', ''ndp'', ''ra_default''] else [])))"

text \<open>The routed half of \<open>renderNetwork\<close>: what a gateway adds to the bridge VLAN.\<close>

definition render_routed ::
  "wording_of \<Rightarrow> registry \<Rightarrow> network \<Rightarrow> existing \<Rightarrow> uci_section list \<times> omission list \<times> zone_member" where
  "render_routed say r n ex =
     (case split_cidr (n_cidr n) of
        None \<Rightarrow> ([bridge_vlan_section r n],
                  [noted say (n_name n) KindUnclassified (Wire (NoUsableAddress (n_cidr n) (n_vlan n)))], no_member)
      | Some (ipaddr, dotted) \<Rightarrow>
          (let mode = v6_mode (effective_ipv6 n); (st, server) = managed_ipv6_state n ex;
               kept_state = (mode = ''preserve'' \<and> st); kept_server = (mode = ''preserve'' \<and> server);
               pool = (dhcp_enabled (effective_dhcp n) \<or> mode \<noteq> ''preserve'' \<or> kept_state)
           in ([bridge_vlan_section r n, static_interface r n ipaddr dotted] @ (if pool then [dhcp_section n] else []), [],
               \<lparr>zm_zone = zone_label n, zm_iface = net_iface_name (n_name n), zm_dhcp4 = dhcp_enabled (effective_dhcp n),
                zm_ipv6 = (mode = ''prefix-delegation'' \<or> kept_server), zm_dhcp_section = pool\<rparr>)))"

definition render_network ::
  "wording_of \<Rightarrow> network \<Rightarrow> device \<Rightarrow> caps \<Rightarrow> existing \<Rightarrow> uci_section list \<times> omission list \<times> zone_member" where
  "render_network say n dev c ex =
     (if \<not> n_enabled n then ([], [], no_member)
      else if n_vlan n \<le> 1 then ([], [noted say (n_name n) KindUnclassified (Wire ExistingLan)], no_member)
      else (case c of
        None \<Rightarrow> ([], [noted say (n_name n) KindUndetermined (Wire NothingKnown)], no_member)
      | Some r \<Rightarrow>
          if po_bridge (rg_ports r) = [] then ([], [noted say (n_name n) KindUndetermined (Wire PortsUnread)], no_member)
          else if po_lan (rg_ports r) = [] then ([], [noted say (n_name n) KindUnclassified (single_interface_why r)], no_member)
          else if \<not> bridge_is_vlan_aware c ex then
            ([], [noted say (n_name n) KindUnclassified (Wire (NotVlanAware (po_bridge (rg_ports r))))], no_member)
          else if \<not> functions_route (effective_functions dev) then
            ([bridge_vlan_section r n] @
               (if functions_wireless (effective_functions dev) then [unmanaged_interface r n] else []), [], no_member)
          else render_routed say r n ex))"

section \<open>The management network\<close>

definition static_ipv6_options :: "device_section \<Rightarrow> string list" where
  "static_ipv6_options vals = filter (\<lambda>k. trim_space (get_str vals k) \<noteq> []) [''ip6addr'', ''ip6prefix'', ''ip6gw'']"

definition ppp_protocol :: "string \<Rightarrow> bool" where
  "ppp_protocol p \<longleftrightarrow> to_lower (trim_space p) \<in> set [''ppp'', ''pppoe'', ''pppoa'', ''pptp'', ''l2tp'']"

text \<open>Explicit static IPv6 on a section that IPv6 is to be disabled on.\<close>

definition static_refusal :: "wording_of \<Rightarrow> ipv6_config \<Rightarrow> string \<Rightarrow> device_section \<Rightarrow> conflict list" where
  "static_refusal say pol section vals =
     (if v6_mode pol = ''disabled'' \<and> static_ipv6_options vals \<noteq> []
      then [clash say ''network'' section (Wire (StaticIPv6 section (static_ipv6_options vals)))] else [])"

definition lan_patches :: "wording_of \<Rightarrow> network \<Rightarrow> ipv6_config \<Rightarrow> existing \<Rightarrow> patch list \<times> conflict list" where
  "lan_patches say n pol ex =
     (case map_of (in_config ex ''network'') (n_name n) of
        None \<Rightarrow> ([], [clash say ''network'' (n_name n) (Wire (LanMissing (n_name n)))])
      | Some lan \<Rightarrow>
          if get_str lan ''.type'' \<noteq> ''interface''
          then ([], [clash say ''network'' (n_name n) (Wire (LanNotInterface (n_name n) (get_str lan ''.type'')))])
          else ([\<lparr>pt_config = ''network'', pt_section = n_name n,
                  pt_values = (if v6_mode pol = ''prefix-delegation'' then [(''ip6assign'', itoa (v6_len pol))] else []),
                  pt_deletes = (if v6_mode pol = ''disabled'' then [''ip6assign'', ''ip6hint'', ''ip6class''] else [])\<rparr>],
                static_refusal say pol (n_name n) lan))"

definition dhcp_patches :: "wording_of \<Rightarrow> network \<Rightarrow> ipv6_config \<Rightarrow> existing \<Rightarrow> patch list \<times> conflict list" where
  "dhcp_patches say n pol ex =
     (let names = sort (map fst (filter (\<lambda>(name, vals). get_str vals ''.type'' = ''dhcp'' \<and>
             get_str vals ''interface'' = n_name n) (in_config ex ''dhcp'')))
      in case names of
           [name] \<Rightarrow>
             ([\<lparr>pt_config = ''dhcp'', pt_section = name,
                pt_values = [(''ndp'', ''disabled'')] @
                  (if v6_mode pol = ''prefix-delegation'' then [(''ra'', ''server''), (''dhcpv6'', ''server'')]
                   else if v6_mode pol = ''disabled'' then [(''ra'', ''disabled''), (''dhcpv6'', ''disabled'')] else []),
                pt_deletes = [''ra_default'']\<rparr>], [])
         | _ \<Rightarrow> ([], [clash say ''dhcp'' (n_name n) (Wire (DhcpSectionCount (n_name n) (length names)))]))"

text \<open>The conventional \<open>wan6\<close>: patches, conflicts, and whether it is an interface.\<close>

definition wan6_patches :: "wording_of \<Rightarrow> ipv6_config \<Rightarrow> existing \<Rightarrow> patch list \<times> conflict list \<times> bool" where
  "wan6_patches say pol ex =
     (case map_of (in_config ex ''network'') ''wan6'' of
        None \<Rightarrow> ([], [], False)
      | Some wan6 \<Rightarrow>
          if get_str wan6 ''.type'' \<noteq> ''interface''
          then ([], [clash say ''network'' ''wan6'' (Wire (WanNotInterface ''wan6'' (get_str wan6 ''.type'')))], False)
          else if equal_fold (trim_space (get_str wan6 ''proto'')) ''dhcpv6''
          then ([\<lparr>pt_config = ''network'', pt_section = ''wan6'',
                  pt_values = [(''auto'', if v6_mode pol = ''disabled'' then ''0'' else ''1'')], pt_deletes = []\<rparr>],
                static_refusal say pol ''wan6'' wan6, True)
          else ([], [], True))"

definition wan_patches :: "wording_of \<Rightarrow> ipv6_config \<Rightarrow> bool \<Rightarrow> existing \<Rightarrow> patch list \<times> conflict list" where
  "wan_patches say pol has_wan6 ex =
     (case map_of (in_config ex ''network'') ''wan'' of
        None \<Rightarrow> ([], [])
      | Some wan \<Rightarrow>
          if get_str wan ''.type'' \<noteq> ''interface''
          then ([], [clash say ''network'' ''wan'' (Wire (WanNotInterface ''wan'' (get_str wan ''.type'')))])
          else if v6_mode pol = ''disabled''
          then ([\<lparr>pt_config = ''network'', pt_section = ''wan'', pt_values = [(''ipv6'', ''0'')], pt_deletes = []\<rparr>],
                static_refusal say pol ''wan'' wan)
          else if ppp_protocol (get_str wan ''proto'')
          then ([\<lparr>pt_config = ''network'', pt_section = ''wan'',
                  pt_values = [(''ipv6'', if has_wan6 then ''1'' else ''auto'')], pt_deletes = []\<rparr>], [])
          else ([], []))"

definition render_management_ipv6 :: "wording_of \<Rightarrow> network \<Rightarrow> existing \<Rightarrow> patch list \<times> conflict list" where
  "render_management_ipv6 say n ex =
     (let pol = effective_ipv6 n
      in if v6_mode pol = ''preserve'' then ([], [])
         else (let (p1, c1) = lan_patches say n pol ex; (p2, c2) = dhcp_patches say n pol ex;
                   (p3, c3, has_wan6) = wan6_patches say pol ex; (p4, c4) = wan_patches say pol has_wan6 ex
               in (p1 @ p2 @ p3 @ p4, c1 @ c2 @ c3 @ c4)))"

section \<open>Zones\<close>

definition zone_section :: "string \<Rightarrow> string \<Rightarrow> string list \<Rightarrow> uci_section" where
  "zone_section source fw ifaces =
     own_section ''firewall'' ''zone'' (NamePrefix @ ''_zone_'' @ safe source)
       [(''name'', fw), (''input'', ''REJECT''), (''output'', ''ACCEPT''), (''forward'', ''REJECT'')]
       [(''network'', ifaces)] [''enabled'', ''family'']"

definition input_rule :: "string \<Rightarrow> string \<Rightarrow> string \<Rightarrow> string \<Rightarrow> string gomap \<Rightarrow> string list gomap \<Rightarrow> uci_section" where
  "input_rule source fw tail label vals ls =
     own_section ''firewall'' ''rule'' (NamePrefix @ ''_in_'' @ safe source @ tail)
       ((''name'', ''oonfeeWRT '' @ source @ label) # (''src'', fw) # (''target'', ''ACCEPT'') # vals)
       ls [''enabled'']"

definition dhcp_rules :: "string \<Rightarrow> string \<Rightarrow> uci_section list" where
  "dhcp_rules source fw =
     [input_rule source fw ''_dhcp'' '' DHCP''
        [(''proto'', ''udp''), (''src_port'', ''68''), (''dest_port'', ''67''), (''family'', ''ipv4'')] [],
      input_rule source fw ''_dns'' '' DNS'' [(''dest_port'', ''53''), (''family'', ''ipv4'')] [(''proto'', [''tcp'', ''udp''])]]"

definition ipv6_rules :: "string \<Rightarrow> string \<Rightarrow> uci_section list" where
  "ipv6_rules source fw =
     [input_rule source fw ''_dhcpv6'' '' DHCPv6''
        [(''proto'', ''udp''), (''src_port'', ''546''), (''dest_port'', ''547''), (''family'', ''ipv6'')] [],
      input_rule source fw ''_dnsv6'' '' IPv6 DNS'' [(''dest_port'', ''53''), (''family'', ''ipv6'')] [(''proto'', [''tcp'', ''udp''])],
      input_rule source fw ''_icmpv6'' '' ICMPv6'' [(''proto'', ''icmp''), (''family'', ''ipv6''), (''limit'', ''1000/sec'')]
        [(''icmp_type'', [''echo-request'', ''echo-reply'', ''destination-unreachable'', ''packet-too-big'',
            ''time-exceeded'', ''bad-header'', ''unknown-header-type'', ''router-solicitation'',
            ''neighbour-solicitation'', ''router-advertisement'', ''neighbour-advertisement''])]]"

definition forwarding_section :: "string \<Rightarrow> string \<Rightarrow> string \<Rightarrow> uci_section" where
  "forwarding_section source fw dest =
     own_section ''firewall'' ''forwarding'' (NamePrefix @ ''_fwd_'' @ safe source @ ''_'' @ safe dest)
       [(''src'', fw), (''dest'', firewall_zone_name dest)] [] [''enabled'', ''family'']"

text \<open>One zone: the body of the loop over the firewall names, in the order they were first seen.\<close>

definition render_zone ::
  "wording_of \<Rightarrow> zone_policy list \<Rightarrow> existing \<Rightarrow> string \<Rightarrow> zone_member list \<Rightarrow> uci_section list \<times> conflict list" where
  "render_zone say policies ex fw ms =
     (let labels = nub (map zm_zone ms)
      in if length labels > 1 then ([], [clash say ''firewall'' fw (Zone (ZonesCollapse (sort labels) fw))])
         else
           (let source = hd labels;
                dhcp = list_ex zm_dhcp4 ms; v6 = list_ex zm_ipv6 ms;
                forward_to = (case map_of (rev (map (\<lambda>p. (zp_name p, canonical_zone_destinations (zp_forward_to p))) policies)) source of
                                None \<Rightarrow> [''wan''] | Some ds \<Rightarrow> ds);
                found = foreign_firewall_policy_conflicts say ex source forward_to
                        @ (if dhcp then foreign_router_service_conflicts say ex source else [])
                        @ (if v6 then foreign_ipv6_router_service_conflicts say ex source else [])
            in (case foreign_zone ex fw of
                  Some other \<Rightarrow> ([], found @ [clash say ''firewall'' other (Zone (ZoneIsForeign fw))])
                | None \<Rightarrow>
                    ([zone_section source fw (sort (map zm_iface ms))]
                     @ (if dhcp then dhcp_rules source fw else []) @ (if v6 then ipv6_rules source fw else [])
                     @ map (forwarding_section source fw) forward_to, found))))"

definition zone_key :: "zone_member \<Rightarrow> string" where
  "zone_key m = firewall_zone_name (zm_zone m)"

definition render_zones ::
  "wording_of \<Rightarrow> zone_member list \<Rightarrow> zone_policy list \<Rightarrow> existing \<Rightarrow> uci_section list \<times> conflict list" where
  "render_zones say members policies ex =
     (let parts = map (\<lambda>fw. render_zone say policies ex fw (filter (\<lambda>m. zone_key m = fw) members)) (nub (map zone_key members))
      in (concat (map fst parts), concat (map snd parts)))"

end
