(* ===== verification/RenderPolicy.thy ===== *)
theory RenderPolicy
  imports RenderNetwork
begin

text \<open>
  Rendering policies (\<open>internal/render/policy.go\<close>): firewall rules, port forwards, static
  routes, client blocks and fixed leases on a gateway, and the sections a human wrote that could
  contradict them. A nil payload, which the source dereferences, is \<open>None\<close>.
\<close>

section \<open>Options under management\<close>

definition policyRuleManagedOptions :: "string list" where
  "policyRuleManagedOptions =
     [''_name'', ''enabled'', ''family'', ''proto'', ''src'', ''src_ip'', ''src_port'', ''src_mac'',
      ''dest'', ''dest_ip'', ''dest_port'', ''dest_mac'', ''device'', ''direction'', ''target'',
      ''icmp_type'', ''weekdays'', ''monthdays'', ''start_date'', ''stop_date'', ''start_time'', ''stop_time'', ''utc_time'',
      ''limit'', ''limit_burst'', ''log'', ''log_limit'', ''ipset'', ''mark'', ''set_mark'', ''set_xmark'',
      ''dscp'', ''set_dscp'', ''helper'', ''set_helper'', ''extra'', ''counter'']"

definition policyRedirectManagedOptions :: "string list" where
  "policyRedirectManagedOptions =
     [''_name'', ''enabled'', ''family'', ''proto'', ''src'', ''src_ip'', ''src_dip'', ''src_port'', ''src_dport'', ''src_mac'',
      ''dest'', ''dest_ip'', ''dest_port'', ''dest_mac'', ''device'', ''direction'', ''target'',
      ''reflection'', ''reflection_src'', ''reflection_zone'', ''limit'', ''limit_burst'', ''log'', ''log_limit'',
      ''utc_time'', ''start_date'', ''stop_date'', ''start_time'', ''stop_time'', ''weekdays'', ''monthdays'',
      ''ipset'', ''mark'', ''helper'', ''set_helper'', ''extra'', ''counter'', ''snat_ip'', ''snat_port'']"

definition policy_section_kind :: "string \<Rightarrow> string" where
  "policy_section_kind kind =
     (if kind = PolicyFirewallRule then ''rule'' else if kind = PolicyPortForward then ''dnat''
      else if kind = PolicyStaticRoute then ''route'' else ''unknown'')"

definition policy_section_name :: "policy \<Rightarrow> string" where
  "policy_section_name p =
     NamePrefix @ ''_policy_'' @ policy_section_kind (p_kind p) @ ''_'' @ itoa_pad 10 (p_order p) @ ''_'' @ itoa (p_id p)"

definition policy_label :: "policy \<Rightarrow> string" where
  "policy_label p = ''oonfeeWRT policy '' @ itoa (p_id p) @ '' '' @ p_name p"

text \<open>\<open>setProtocols\<close>: one protocol is an option, any other number a list.\<close>

definition protocol_options :: "string list \<Rightarrow> string gomap \<times> string list gomap" where
  "protocol_options protocols =
     (let ps = canonical_protocols protocols
      in if length ps = 1 then ([(''proto'', hd ps)], []) else ([], [(''proto'', ps)]))"

definition copy_nonempty :: "string \<Rightarrow> string \<Rightarrow> string gomap" where
  "copy_nonempty key value = (if value \<noteq> [] then [(key, value)] else [])"

definition policy_zones_rendered :: "string \<Rightarrow> string \<Rightarrow> string list \<Rightarrow> bool" where
  "policy_zones_rendered source destination rendered \<longleftrightarrow>
     firewall_zone_name source \<in> set rendered \<and>
     (destination = [] \<or> firewall_zone_name destination \<in> set rendered)"

definition missing_policy_zone :: "wording_of \<Rightarrow> string \<Rightarrow> conflict" where
  "missing_policy_zone say name = clash say ''firewall'' (''policy-'' @ safe name) (Policy (ZoneNotRendered name))"

definition desired_section :: "doc \<Rightarrow> string \<Rightarrow> string \<Rightarrow> bool" where
  "desired_section d config name = list_ex (\<lambda>s. sc_config s = config \<and> sc_name s = name) (d_sections d)"

section \<open>Sections of one policy\<close>

type_synonym rendered = "uci_section list \<times> omission list \<times> conflict list"

definition firewall_rule_section :: "policy \<Rightarrow> firewall_rule \<Rightarrow> string list \<Rightarrow> uci_section" where
  "firewall_rule_section p r macs =
     (let (vals, ls) = protocol_options (fr_protocols r)
      in own_section ''firewall'' ''rule'' (policy_section_name p)
           ([(''name'', policy_label p), (''src'', firewall_zone_name (fr_source_zone r)),
             (''target'', to_upper (fr_action r)), (''family'', ''ipv4'')]
            @ copy_nonempty ''dest'' (if fr_destination_zone r = [] then [] else firewall_zone_name (fr_destination_zone r))
            @ copy_nonempty ''src_ip'' (fr_source_cidr r) @ copy_nonempty ''dest_ip'' (fr_destination_cidr r)
            @ copy_nonempty ''src_port'' (fr_source_port r) @ copy_nonempty ''dest_port'' (fr_destination_port r) @ vals)
           (ls @ (if macs = [] then [] else [(''src_mac'', macs)])) policyRuleManagedOptions)"

definition render_firewall_policy ::
  "wording_of \<Rightarrow> site \<Rightarrow> string list \<Rightarrow> policy \<Rightarrow> firewall_rule \<Rightarrow> rendered" where
  "render_firewall_policy say s zones p r =
     (case firewall_source_macs s r of
        None \<Rightarrow> ([], [], [clash say ''firewall'' (''policy-'' @ safe (p_name p)) (Policy (EmptySourceSet (p_name p)))])
      | Some macs \<Rightarrow>
          if macs = [] \<and> fr_source_set_id r > 0
          then ([], [], [clash say ''firewall'' (''policy-'' @ safe (p_name p)) (Policy (EmptySourceSet (p_name p)))])
          else if \<not> policy_zones_rendered (fr_source_zone r) (fr_destination_zone r) zones
          then ([], [], [missing_policy_zone say (p_name p)])
          else ([firewall_rule_section p r macs], [], []))"

definition port_forward_section :: "policy \<Rightarrow> port_forward \<Rightarrow> uci_section" where
  "port_forward_section p r =
     (let (vals, ls) = protocol_options (pf_protocols r)
      in own_section ''firewall'' ''redirect'' (policy_section_name p)
           ([(''name'', policy_label p), (''src'', ''wan''), (''dest'', firewall_zone_name (pf_destination_zone r)),
             (''src_dport'', itoa (pf_external_port r)), (''dest_ip'', pf_destination_ip r),
             (''dest_port'', itoa (pf_destination_port r)), (''target'', ''DNAT''), (''family'', ''ipv4'')]
            @ copy_nonempty ''src_ip'' (pf_source_cidr r) @ vals)
           ls policyRedirectManagedOptions)"

definition render_forward_policy :: "wording_of \<Rightarrow> string list \<Rightarrow> policy \<Rightarrow> port_forward \<Rightarrow> rendered" where
  "render_forward_policy say zones p r =
     (if firewall_zone_name (pf_destination_zone r) \<notin> set zones then ([], [], [missing_policy_zone say (p_name p)])
      else ([port_forward_section p r], [], []))"

definition route_interface :: "site \<Rightarrow> static_route \<Rightarrow> string" where
  "route_interface s r =
     (if sr_network_id r > 0
      then net_iface_name (case network_by_id s (sr_network_id r) of None \<Rightarrow> [] | Some n \<Rightarrow> n_name n)
      else ''wan'')"

definition static_route_section :: "policy \<Rightarrow> string \<Rightarrow> static_route \<Rightarrow> uci_section" where
  "static_route_section p iface r =
     own_section ''network'' ''route'' (policy_section_name p)
       ([(''interface'', iface), (''target'', sr_target r), (''gateway'', sr_gateway r), (''table'', ''main'')]
        @ (if sr_metric r > 0 then [(''metric'', itoa (sr_metric r))] else []))
       [] [''disabled'', ''enabled'', ''metric'', ''netmask'', ''mtu'', ''table'', ''valid'', ''source'', ''onlink'', ''type'', ''proto'']"

definition render_route_policy :: "wording_of \<Rightarrow> site \<Rightarrow> doc \<Rightarrow> policy \<Rightarrow> static_route \<Rightarrow> rendered" where
  "render_route_policy say s desired p r =
     (let iface = route_interface s r
      in if sr_network_id r > 0 \<and> \<not> desired_section desired ''network'' iface
         then ([], [noted say (p_name p) KindUndetermined (Policy RouteNotRenderable)], [])
         else ([static_route_section p iface r], [], []))"

definition render_policy :: "wording_of \<Rightarrow> site \<Rightarrow> string list \<Rightarrow> doc \<Rightarrow> policy \<Rightarrow> rendered option" where
  "render_policy say s zones desired p =
     (if \<not> p_enabled p then Some ([], [], [])
      else if p_kind p = PolicyFirewallRule then map_option (render_firewall_policy say s zones p) (p_firewall p)
      else if p_kind p = PolicyPortForward then map_option (render_forward_policy say zones p) (p_port_forward p)
      else if p_kind p = PolicyStaticRoute then map_option (render_route_policy say s desired p) (p_static_route p)
      else Some ([], [], []))"

section \<open>Clients\<close>

definition client_block_section :: "string \<Rightarrow> string \<Rightarrow> uci_section" where
  "client_block_section mac zone =
     own_section ''firewall'' ''rule'' (NamePrefix @ ''_client_block_'' @ safe mac @ ''_'' @ safe zone)
       [(''name'', ''oonfeeWRT client-block '' @ mac @ '' '' @ zone), (''src'', firewall_zone_name zone),
        (''dest'', ''*''), (''proto'', ''all''), (''target'', ''REJECT'')]
       [(''src_mac'', [mac])] policyRuleManagedOptions"

definition render_block :: "wording_of \<Rightarrow> string list \<Rightarrow> string list \<Rightarrow> string \<Rightarrow> rendered" where
  "render_block say zones active_zones mac =
     (if active_zones = [] then ([], [], [clash say ''firewall'' (''client-'' @ safe mac) (Policy (NoActiveZone mac))])
      else (map (client_block_section mac) (filter (\<lambda>z. firewall_zone_name z \<in> set zones) active_zones), [],
            map (\<lambda>z. missing_policy_zone say (''block '' @ mac)) (filter (\<lambda>z. firewall_zone_name z \<notin> set zones) active_zones)))"

definition fixed_ip_network :: "site \<Rightarrow> string \<Rightarrow> network option" where
  "fixed_ip_network s raw =
     (case parse_addr raw of
        None \<Rightarrow> None
      | Some a \<Rightarrow> (case networks_containing s a of [n] \<Rightarrow> Some n | _ \<Rightarrow> None))"

definition fixed_host_section :: "string \<Rightarrow> string \<Rightarrow> uci_section" where
  "fixed_host_section mac ip =
     own_section ''dhcp'' ''host'' (NamePrefix @ ''_fixed_'' @ safe mac) [(''mac'', mac), (''ip'', ip)] []
       [''enable'', ''enabled'', ''instance'', ''force'', ''networkid'', ''dhcp_option'', ''name'', ''hostid'',
        ''dns'', ''duid'', ''tag'', ''match_tag'', ''broadcast'', ''leasetime'']"

definition render_fixed :: "wording_of \<Rightarrow> site \<Rightarrow> string list \<Rightarrow> string \<Rightarrow> string \<Rightarrow> rendered" where
  "render_fixed say s dhcp_networks mac ip =
     (case fixed_ip_network s ip of
        None \<Rightarrow> ([], [noted say mac KindUndetermined (Policy LeaseNotRenderable)], [])
      | Some n \<Rightarrow>
          if net_iface_name (n_name n) \<in> set dhcp_networks then ([fixed_host_section mac ip], [], [])
          else ([], [noted say mac KindUndetermined (Policy LeaseNotRenderable)], []))"

definition plus :: "rendered \<Rightarrow> rendered \<Rightarrow> rendered" where
  "plus a b = (fst a @ fst b, fst (snd a) @ fst (snd b), snd (snd a) @ snd (snd b))"

definition nothing :: rendered where "nothing = ([], [], [])"

definition render_client ::
  "wording_of \<Rightarrow> site \<Rightarrow> string list \<Rightarrow> string list \<Rightarrow> string list \<Rightarrow> policy_client \<Rightarrow> rendered" where
  "render_client say s zones dhcp_networks active_zones cl =
     (case canonical_macs [pc_mac cl] of
        Inl e \<Rightarrow> nothing
      | Inr macs \<Rightarrow>
          plus (if pc_blocked cl then render_block say zones active_zones (hd macs) else nothing)
               (if pc_fixed_ip cl \<noteq> [] then render_fixed say s dhcp_networks (hd macs) (pc_fixed_ip cl) else nothing))"

section \<open>Foreign sections that contradict a policy\<close>

fun foreign_mac_fields :: "string \<Rightarrow> bool \<Rightarrow> string list \<Rightarrow> bool" where
  "foreign_mac_fields want parsed [] \<longleftrightarrow> \<not> parsed"
| "foreign_mac_fields want parsed (f # fs) \<longleftrightarrow>
     (if has_prefix f ''!'' then True
      else (case canonical_macs [f] of
              Inl e \<Rightarrow> True
            | Inr macs \<Rightarrow> if hd macs = want then True else foreign_mac_fields want True fs))"

definition foreign_mac_could_match :: "string \<Rightarrow> string \<Rightarrow> bool" where
  "foreign_mac_could_match raw want =
     (let v = trim_space raw
      in if v = [] then True
         else foreign_mac_fields want False (GoText.fields (replace_chars '',;'' (CHR '' '') v)))"

text \<open>A section a human wrote that is in force.\<close>

definition in_force :: "device_section \<Rightarrow> bool" where
  "in_force vals \<longleftrightarrow> foreign vals \<and> \<not> uci_option_false (get_str vals ''enabled'')"

definition allows_blocked :: "device_section \<Rightarrow> bool" where
  "allows_blocked vals =
     (let kind = get_str vals ''.type''
      in if kind = ''forwarding'' then trim_space (get_str vals ''dest'') \<noteq> []
         else if kind = ''rule'' then trim_space (get_str vals ''dest'') \<noteq> [] \<and> equal_fold (trim_space (get_str vals ''target'')) ''ACCEPT''
         else if kind = ''redirect'' then trim_space (get_str vals ''dest_ip'') \<noteq> [] \<and> equal_fold (trim_space (get_str vals ''target'')) ''DNAT''
         else False)"

definition foreign_client_block_conflicts :: "wording_of \<Rightarrow> policy_client \<Rightarrow> string \<Rightarrow> existing \<Rightarrow> conflict list" where
  "foreign_client_block_conflicts say cl zone ex =
     (case canonical_macs [pc_mac cl] of
        Inl e \<Rightarrow> []
      | Inr macs \<Rightarrow>
          concat (map (\<lambda>(name, vals).
            if \<not> in_force vals \<or> \<not> foreign_source_could_match (get_str vals ''src'') (firewall_zone_name zone) \<or>
               \<not> foreign_mac_could_match (get_str vals ''src_mac'') (hd macs) \<or> \<not> allows_blocked vals then []
            else [clash say ''firewall'' name (Policy (ForeignAllowsBlocked name (hd macs) (firewall_zone_name zone)))])
          (in_config ex ''firewall'')))"

definition display_destination :: "string \<Rightarrow> string" where
  "display_destination dest = (if dest = [] then ''the router'' else dest)"

definition contradicts_rule :: "firewall_rule \<Rightarrow> string \<Rightarrow> device_section \<Rightarrow> bool" where
  "contradicts_rule r dest vals =
     (let kind = get_str vals ''.type''; target = to_upper (trim_space (get_str vals ''target''));
          want_accept = (fr_action r = FirewallAccept)
      in if kind = ''forwarding'' then \<not> want_accept \<and> dest \<noteq> []
         else if kind = ''rule'' then target = ''ACCEPT'' \<and> \<not> want_accept \<or> (target = ''DROP'' \<or> target = ''REJECT'') \<and> want_accept
         else if kind = ''redirect'' then trim_space (get_str vals ''dest_ip'') \<noteq> [] \<and> \<not> want_accept
         else False)"

definition foreign_rule_conflicts :: "wording_of \<Rightarrow> policy \<Rightarrow> existing \<Rightarrow> conflict list" where
  "foreign_rule_conflicts say p ex =
     (case p_firewall p of
        None \<Rightarrow> []
      | Some r \<Rightarrow>
          (let src = firewall_zone_name (fr_source_zone r); dest = firewall_zone_name (fr_destination_zone r)
           in concat (map (\<lambda>(name, vals).
                let fd = get_str vals ''dest''
                in if \<not> in_force vals \<or> \<not> foreign_source_could_match (get_str vals ''src'') src then []
                   else if dest = [] \<and> fd \<noteq> [] \<and> fd \<noteq> ''*'' then []
                   else if dest \<noteq> [] \<and> fd \<noteq> dest \<and> fd \<noteq> ''*'' then []
                   else if contradicts_rule r dest vals
                   then [clash say ''firewall'' name (Policy (ForeignContradicts name (p_name p) src (display_destination dest)))]
                   else []) (in_config ex ''firewall''))))"

definition foreign_protocols_overlap :: "string \<Rightarrow> string list \<Rightarrow> bool" where
  "foreign_protocols_overlap raw protocols = list_ex (protocol_could_match raw) protocols"

definition foreign_destination_could_match :: "string \<Rightarrow> string \<Rightarrow> bool" where
  "foreign_destination_could_match raw want =
     (let v = trim_space raw
      in if v = [] then False else if v = ''*'' \<or> v = want then True
         else contains_any v odd_syntax \<or> length (GoText.fields v) \<noteq> 1)"

definition foreign_cidrs_could_overlap :: "string \<Rightarrow> string \<Rightarrow> bool" where
  "foreign_cidrs_could_overlap raw want =
     (let v = trim_space raw
      in if v = [] \<or> want = [] then True
         else (case (parse_prefix v, parse_prefix want) of (Some a, Some b) \<Rightarrow> overlaps a b | _ \<Rightarrow> True))"

definition foreign_cidr_contains :: "string \<Rightarrow> string \<Rightarrow> bool" where
  "foreign_cidr_contains raw want_ip =
     (let v = trim_space raw
      in if v = [] then True
         else (case (parse_prefix v, parse_addr want_ip) of
                 (Some p, Some a) \<Rightarrow> contains p a
               | (None, Some a) \<Rightarrow> (case parse_addr v of Some b \<Rightarrow> b = a | None \<Rightarrow> True)
               | _ \<Rightarrow> True))"

definition foreign_redirect_conflicts :: "wording_of \<Rightarrow> policy \<Rightarrow> existing \<Rightarrow> conflict list" where
  "foreign_redirect_conflicts say p ex =
     (case p_port_forward p of
        None \<Rightarrow> []
      | Some r \<Rightarrow>
          concat (map (\<lambda>(name, vals).
            let overlap = foreign_protocols_overlap (get_str vals ''proto'') (pf_protocols r);
                target = to_upper (trim_space (get_str vals ''target''))
            in if \<not> in_force vals \<or> \<not> foreign_source_could_match (get_str vals ''src'') ''wan'' then []
               else if get_str vals ''.type'' = ''redirect'' then
                 (if \<not> overlap \<or> \<not> port_could_match (get_str vals ''src_dport'') (pf_external_port r) then []
                  else [clash say ''firewall'' name (Policy (RedirectClaimsPort name (pf_external_port r) (p_name p)))])
               else if get_str vals ''.type'' = ''rule'' then
                 (if target \<noteq> ''DROP'' \<and> target \<noteq> ''REJECT'' \<or> \<not> family_could_match_ipv4 (get_str vals ''family'') \<or>
                     \<not> foreign_destination_could_match (get_str vals ''dest'') (firewall_zone_name (pf_destination_zone r)) \<or>
                     \<not> overlap \<or> \<not> foreign_cidrs_could_overlap (get_str vals ''src_ip'') (pf_source_cidr r) \<or>
                     \<not> foreign_cidr_contains (get_str vals ''dest_ip'') (pf_destination_ip r) \<or>
                     \<not> port_could_match (get_str vals ''dest_port'') (pf_destination_port r) then []
                  else [clash say ''firewall'' name (Policy (DenialMatchesForward name (p_name p)))])
               else []) (in_config ex ''firewall'')))"

text \<open>\<open>IPMask.Size\<close>: a mask with a hole counts as length zero.\<close>

definition mask_size :: "ipv4 \<Rightarrow> nat" where
  "mask_size a = (case find (\<lambda>n. netmask n = a) [0..<33] of None \<Rightarrow> 0 | Some n \<Rightarrow> n)"

definition route_prefix :: "device_section \<Rightarrow> prefix4 option" where
  "route_prefix vals =
     (let target = trim_space (get_str vals ''target''); raw = trim_space (get_str vals ''netmask'')
      in case parse_prefix target of
           Some p \<Rightarrow> Some (masked p)
         | None \<Rightarrow>
             (case parse_addr target of
                None \<Rightarrow> None
              | Some a \<Rightarrow>
                  if raw = [] then Some (masked \<lparr>p_addr = a, p_bits = 32\<rparr>)
                  else map_option (\<lambda>m. masked \<lparr>p_addr = a, p_bits = mask_size m\<rparr>) (parse_addr raw)))"

definition foreign_route_conflicts :: "wording_of \<Rightarrow> policy \<Rightarrow> existing \<Rightarrow> conflict list" where
  "foreign_route_conflicts say p ex =
     (case Option.bind (p_static_route p) (\<lambda>r. parse_prefix (sr_target r)) of
        None \<Rightarrow> []
      | Some want \<Rightarrow>
          concat (map (\<lambda>(name, vals).
            if \<not> foreign vals \<or> uci_option_true (get_str vals ''disabled'') then []
            else if get_str vals ''.type'' = ''rule'' then [clash say ''network'' name (Policy (RuleBypassesRoute name (p_name p)))]
            else if get_str vals ''.type'' = ''route'' then
              (if (case route_prefix vals of None \<Rightarrow> True | Some got \<Rightarrow> overlaps got want)
               then [clash say ''network'' name (Policy (RouteOverlapsForeign name (p_name p) (show_prefix want)))] else [])
            else []) (in_config ex ''network'')))"

definition foreign_host_conflicts :: "wording_of \<Rightarrow> policy_client \<Rightarrow> existing \<Rightarrow> conflict list" where
  "foreign_host_conflicts say cl ex =
     (case canonical_macs [pc_mac cl] of
        Inl e \<Rightarrow> []
      | Inr macs \<Rightarrow>
          concat (map (\<lambda>(name, vals).
            let raw = trim_space (get_str vals ''mac'');
                mac_conflict = (if raw \<noteq> [] then foreign_mac_could_match raw (hd macs)
                                else list_ex (\<lambda>k. trim_space (get_str vals k) \<noteq> []) [''duid'', ''hostid'', ''id'', ''name''])
            in if \<not> foreign vals \<or> get_str vals ''.type'' \<noteq> ''host'' \<or> uci_option_false (get_str vals ''enable'') then []
               else if mac_conflict \<or> trim_space (get_str vals ''ip'') = pc_fixed_ip cl
               then [clash say ''dhcp'' name (Policy (LeaseClaimed name (hd macs) (pc_fixed_ip cl)))] else [])
          (in_config ex ''dhcp'')))"

definition dedupe_conflicts :: "conflict list \<Rightarrow> conflict list" where
  "dedupe_conflicts cs = remdups_adj (sort_key (\<lambda>c. (cf_config c, cf_section c, cf_reason c)) cs)"

definition policy_conflicts_of :: "wording_of \<Rightarrow> existing \<Rightarrow> policy \<Rightarrow> conflict list" where
  "policy_conflicts_of say ex p =
     (if \<not> p_enabled p then []
      else if p_kind p = PolicyFirewallRule then foreign_rule_conflicts say p ex
      else if p_kind p = PolicyPortForward then foreign_redirect_conflicts say p ex
      else if p_kind p = PolicyStaticRoute then foreign_route_conflicts say p ex else [])"

definition client_conflicts_of :: "wording_of \<Rightarrow> site \<Rightarrow> existing \<Rightarrow> policy_client \<Rightarrow> conflict list" where
  "client_conflicts_of say s ex cl =
     (if pc_blocked cl then concat (map (\<lambda>z. foreign_client_block_conflicts say cl z ex) (active_zone_names s)) else [])
     @ (if pc_fixed_ip cl \<noteq> [] then foreign_host_conflicts say cl ex else [])"

definition foreign_expanded_policy_conflicts :: "wording_of \<Rightarrow> site \<Rightarrow> existing \<Rightarrow> conflict list" where
  "foreign_expanded_policy_conflicts say s ex =
     dedupe_conflicts (concat (map (policy_conflicts_of say ex) (s_policies s))
       @ concat (map (client_conflicts_of say s ex) (s_policy_clients s)))"

section \<open>All policies of a site\<close>

definition needs_fw4 :: "site \<Rightarrow> bool" where
  "needs_fw4 s \<longleftrightarrow>
     list_ex (\<lambda>p. p_enabled p \<and> (p_kind p = PolicyFirewallRule \<or> p_kind p = PolicyPortForward)) (s_policies s) \<or>
     list_ex pc_blocked (s_policy_clients s)"

definition sorted_policies :: "policy list \<Rightarrow> policy list" where
  "sorted_policies ps = sort_key (\<lambda>p. (p_order p, p_id p)) ps"

definition rendered_zones :: "doc \<Rightarrow> string list" where
  "rendered_zones d = ''wan'' # map (\<lambda>s. get_str (sc_values s) ''name'')
     (filter (\<lambda>s. sc_config s = ''firewall'' \<and> sc_type s = ''zone'') (d_sections d))"

definition rendered_pools :: "doc \<Rightarrow> string list" where
  "rendered_pools d = map (\<lambda>s. get_str (sc_values s) ''interface'')
     (filter (\<lambda>s. sc_config s = ''dhcp'' \<and> sc_type s = ''dhcp'') (d_sections d))"

definition render_policies :: "wording_of \<Rightarrow> site \<Rightarrow> device \<Rightarrow> caps \<Rightarrow> existing \<Rightarrow> doc \<Rightarrow> rendered option" where
  "render_policies say s dev c ex desired =
     (if \<not> functions_route (effective_functions dev) then Some nothing
      else if \<not> snd (policy_source_mac_expansion s)
      then Some ([], [], [clash say ''firewall'' ''policy-source-macs'' (Policy TooManySourceMACs)])
      else
        (let zones = rendered_zones desired;
             fw4 = (if needs_fw4 s \<and> caps_state c FeatFirewall4 \<noteq> Present
                    then [clash say ''firewall'' ''policy-capability'' (Policy (NoFirewall4 (caps_state c FeatFirewall4)))] else [])
         in case those (map (render_policy say s zones desired) (sorted_policies (s_policies s))) of
              None \<Rightarrow> None
            | Some parts \<Rightarrow>
                Some (foldr plus (([], [], fw4) # parts
                        @ map (render_client say s zones (rendered_pools desired) (active_zone_names s)) (s_policy_clients s)
                        @ [([], [], foreign_expanded_policy_conflicts say s ex)]) nothing)))"

end
