(* ===== verification/RenderWireless.thy ===== *)
theory RenderWireless
  imports RenderBase "HOL-Library.Word"
begin

text \<open>
  The wireless sections (\<open>renderWifiIface\<close> in \<open>render.go\<close>, \<open>mesh.go\<close>, \<open>uplink.go\<close>) and
  the mobility domain every access point of a WLAN derives on its own (\<open>mobility.go\<close>).
\<close>

unbundle bit_operations_syntax

section \<open>Mobility domain\<close>

text \<open>One byte of the checksum is eight shifts of a 16-bit register.\<close>

fun crc_shift :: "nat \<Rightarrow> 16 word \<Rightarrow> 16 word" where
  "crc_shift 0 crc = crc"
| "crc_shift (Suc n) crc =
     crc_shift n (if crc AND 0x8000 \<noteq> 0 then push_bit 1 crc XOR 0x1021 else push_bit 1 crc)"

definition crc_byte :: "16 word \<Rightarrow> char \<Rightarrow> 16 word" where
  "crc_byte crc b = crc_shift 8 (crc XOR push_bit 8 (of_nat (of_char b)))"

definition crc16_ccitt :: "string \<Rightarrow> 16 word" where
  "crc16_ccitt bytes = foldl crc_byte 0xFFFF bytes"

definition nibble_char :: "nat \<Rightarrow> char" where
  "nibble_char d = (if d < 10 then char_of (48 + d) else char_of (87 + d))"

text \<open>The verb \<open>%04x\<close> on 16 bits.\<close>

definition hex4 :: "16 word \<Rightarrow> string" where
  "hex4 x = map (\<lambda>i. nibble_char (unat x div 16 ^ i mod 16)) [3, 2, 1, 0]"

definition mobility_domain :: "string \<Rightarrow> int \<Rightarrow> string" where
  "mobility_domain site_uuid wlan_id = hex4 (crc16_ccitt (site_uuid @ '':'' @ itoa wlan_id))"

section \<open>Access points\<close>

definition wifiIfaceOptions :: "string list" where
  "wifiIfaceOptions =
     [''device'', ''mode'', ''ssid'', ''network'', ''encryption'', ''key'', ''ieee80211w'',
      ''ieee80211r'', ''ft_over_ds'', ''mobility_domain'', ''reassociation_deadline'',
      ''ieee80211k'', ''rrm_neighbor_report'', ''rrm_beacon_report'', ''bss_transition'',
      ''wnm_sleep_mode'', ''hidden'', ''isolate'', ''bridge_isolate'', ''maxassoc'', ''wds'']"

text \<open>The value of \<open>ieee80211w\<close> a security mode can carry.\<close>

definition pmf_value :: "security \<Rightarrow> string" where
  "pmf_value sec =
     (if sec_mode sec = ''none'' then ''0''
      else if sec_mode sec = ''sae'' \<or> sec_mode sec = ''owe'' then ''2''
      else if sec_mode sec = ''sae-mixed'' then
        (if sec_pmf sec = ''0'' \<or> sec_pmf sec = [] then ''1'' else sec_pmf sec)
      else (if sec_pmf sec \<noteq> [] then sec_pmf sec else ''0''))"

definition ft_refused :: "wlan \<Rightarrow> bool" where
  "ft_refused w \<longleftrightarrow> r_ft (w_roaming w) \<and> sec_mode (w_security w) = ''psk2'' \<and> \<not> r_ft_with_psk2 (w_roaming w)"

definition render_wifi_iface ::
  "wording_of \<Rightarrow> site \<Rightarrow> wlan \<Rightarrow> network \<Rightarrow> string \<Rightarrow> uci_section \<times> omission list" where
  "render_wifi_iface say st w net radio =
     (let sec = w_security w; ro = w_roaming w; op = w_options w;
          ft = r_ft ro \<and> \<not> ft_refused w;
          kv = bool_opt (r_kv ro)
      in (own_section ''wireless'' ''wifi-iface'' (iface_name (w_id w) radio)
            ([(''device'', radio), (''mode'', ''ap''), (''ssid'', w_ssid w), (''network'', network_attachment_name net),
              (''encryption'', sec_mode sec)]
             @ (if needs_key (sec_mode sec) then [(''key'', sec_key sec)] else [])
             @ [(''ieee80211w'', pmf_value sec), (''ieee80211r'', bool_opt ft), (''ft_over_ds'', bool_opt (r_ft_over_ds ro)),
                (''mobility_domain'', mobility_domain (s_uuid st) (w_id w)), (''reassociation_deadline'', ''20000''),
                (''ieee80211k'', kv), (''rrm_neighbor_report'', kv), (''rrm_beacon_report'', kv),
                (''bss_transition'', kv), (''wnm_sleep_mode'', kv),
                (''hidden'', bool_opt (opt_hidden op)), (''isolate'', bool_opt (opt_isolate op))]
             @ (if opt_isolate op then [(''bridge_isolate'', ''1'')] else [])
             @ (if opt_max_assoc op > 0 then [(''maxassoc'', itoa (opt_max_assoc op))] else [])
             @ [(''wds'', if opt_allow_uplink op then ''1'' else ''0'')])
            [] wifiIfaceOptions,
          if ft_refused w then [noted say (w_ssid w) KindUnclassified (Air FtNotAccepted)] else []))"

section \<open>Mesh points\<close>

text \<open>\<open>MeshGate\<close> and \<open>UplinkGate\<close>: nothing when the device may, else the reason.\<close>

definition mesh_gate :: "caps \<Rightarrow> gate_why option" where
  "mesh_gate c =
     (let s = caps_state c FeatMesh
      in if s = Present then None
         else if s = NotObservable then Some MeshNotObservable
         else if \<not> decided s then Some MeshUnanswered
         else if (case c of None \<Rightarrow> False | Some r \<Rightarrow> has_quirk r ''mac80211'' ''mesh-point'') then Some MeshDriverRefuses
         else Some MeshNoBuild)"

definition render_mesh ::
  "wording_of \<Rightarrow> mesh \<Rightarrow> network \<Rightarrow> string \<Rightarrow> caps \<Rightarrow> uci_section option \<times> omission list" where
  "render_mesh say m net radio c =
     (case mesh_gate c of
        Some why \<Rightarrow> (None, [noted say (m_mesh_id m) (gate_kind c FeatMesh) (Gate why)])
      | None \<Rightarrow>
          (Some (own_section ''wireless'' ''wifi-iface'' (mesh_iface_name (m_id m) radio)
             ([(''device'', radio), (''mode'', ''mesh''), (''mesh_id'', m_mesh_id m),
               (''network'', network_attachment_name net), (''mesh_fwding'', ''1'')]
              @ (if mesh_open m then [(''encryption'', ''none'')]
                 else [(''encryption'', ''sae''), (''key'', m_key m), (''ieee80211w'', ''2'')]))
             [] []),
           if mesh_open m then [noted say (m_mesh_id m) KindCaution (Air OpenMeshCaution)] else []))"

section \<open>Wireless uplinks\<close>

definition uplink_gate :: "caps \<Rightarrow> gate_why option" where
  "uplink_gate c =
     (let s = caps_state c FeatWirelessUplink
      in if s = Present then None
         else if s = NotObservable then Some UplinkNotObservable
         else if \<not> decided s then Some UplinkUnanswered
         else Some UplinkNoSupplicant)"

definition render_uplink ::
  "wording_of \<Rightarrow> uplink \<Rightarrow> wlan \<Rightarrow> network \<Rightarrow> string \<Rightarrow> caps \<Rightarrow> uci_section option \<times> omission list" where
  "render_uplink say u w net radio c =
     (case uplink_gate c of
        Some why \<Rightarrow> (None, [noted say (w_ssid w) (gate_kind c FeatWirelessUplink) (Gate why)])
      | None \<Rightarrow>
          (Some (own_section ''wireless'' ''wifi-iface'' (uplink_iface_name (u_id u) radio)
             ([(''device'', radio), (''mode'', ''sta''), (''ssid'', w_ssid w), (''network'', network_attachment_name net),
               (''wds'', ''1''), (''encryption'', sec_mode (w_security w)), (''disassoc_low_ack'', ''0'')]
              @ (if needs_key (sec_mode (w_security w)) then [(''key'', sec_key (w_security w))] else [])
              @ (if sec_pmf (w_security w) \<noteq> [] then [(''ieee80211w'', sec_pmf (w_security w))] else []))
             [] []),
           [noted say (w_ssid w) KindCaution (Air (LoopCaution (w_ssid w)))]))"

section \<open>Facts\<close>

text \<open>The check value of the checksum's standard, CRC-16/CCITT-FALSE.\<close>

lemma crc_check_value: "crc16_ccitt ''123456789'' = 0x29B1"
  by code_simp

lemma length_hex4: "length (hex4 x) = 4"
  by (simp add: hex4_def)

lemma wifi_iface_shape:
  "sc_config (fst (render_wifi_iface say st w net radio)) = ''wireless''"
  "sc_type (fst (render_wifi_iface say st w net radio)) = ''wifi-iface''"
  "sc_name (fst (render_wifi_iface say st w net radio)) = iface_name (w_id w) radio"
  "sc_lists (fst (render_wifi_iface say st w net radio)) = []"
  "sc_manages (fst (render_wifi_iface say st w net radio)) = wifiIfaceOptions"
  by (simp_all add: render_wifi_iface_def own_section_def Let_def)

lemma wifi_iface_options:
  "set (keys (sc_values (fst (render_wifi_iface say st w net radio)))) \<subseteq> set (OwnershipTag # wifiIfaceOptions)"
  by (auto simp: render_wifi_iface_def own_section_def wifiIfaceOptions_def Let_def)

lemma render_mesh_section:
  "render_mesh say m net radio c = (Some sec, oms) \<Longrightarrow>
     sc_config sec = ''wireless'' \<and> sc_type sec = ''wifi-iface'' \<and> sc_name sec = mesh_iface_name (m_id m) radio \<and>
     sc_lists sec = []"
  by (auto simp: render_mesh_def own_section_def split: option.splits)

lemma render_uplink_section:
  "render_uplink say u w net radio c = (Some sec, oms) \<Longrightarrow>
     sc_config sec = ''wireless'' \<and> sc_type sec = ''wifi-iface'' \<and> sc_name sec = uplink_iface_name (u_id u) radio \<and>
     sc_lists sec = []"
  by (auto simp: render_uplink_def own_section_def split: option.splits)

end
