(* ===== verification/Render.thy ===== *)
theory Render
  imports RenderPolicy RenderWireless Overrides
begin

text \<open>
  \<open>Render\<close> (\<open>internal/render/render.go\<close>): the UCI document of one device and the report that
  goes with it, from the site model, the device's capabilities and what the device holds.
\<close>

section \<open>Warnings\<close>

definition warn :: "wording_of \<Rightarrow> string \<Rightarrow> defect \<Rightarrow> warning" where
  "warn say ssid d =
     \<lparr>wn_wlan = ssid, wn_defect = df_id d, wn_summary = say (Warn (DefectText (df_id d) ''summary'')),
      wn_detail = say (Warn (DefectText (df_id d) ''detail'')), wn_confidence = df_confidence d,
      wn_severity = df_severity d, wn_mitigation = say (Warn (DefectText (df_id d) ''mitigation'')),
      wn_source = say (Warn (DefectText (df_id d) ''source''))\<rparr>"

definition radio_disabled_warning :: "wording_of \<Rightarrow> string \<Rightarrow> string \<Rightarrow> warning" where
  "radio_disabled_warning say ssid radio =
     \<lparr>wn_wlan = ssid, wn_defect = ''radio-disabled'', wn_summary = say (Warn (RadioSwitchedOff ''summary'' radio)),
      wn_detail = say (Warn (RadioSwitchedOff ''detail'' radio)), wn_confidence = ConfMeasuredHere,
      wn_severity = SevSilentlyIgnored, wn_mitigation = say (Warn (RadioSwitchedOff ''mitigation'' radio)), wn_source = []\<rparr>"

text \<open>The remedy differs between a radio list that is empty and radios without a name.\<close>

definition unidentified_warning :: "wording_of \<Rightarrow> caps \<Rightarrow> warning" where
  "unidentified_warning say c =
     \<lparr>wn_wlan = [], wn_defect = ''hardware-unidentified'', wn_summary = say (Warn (HardwareUnidentified ''summary'' False)),
      wn_detail = say (Warn (HardwareUnidentified ''detail'' False)), wn_confidence = ConfMeasuredHere,
      wn_severity = SevSilentlyIgnored,
      wn_mitigation = say (Warn (HardwareUnidentified ''mitigation'' (c \<noteq> None \<and> caps_radios c = []))), wn_source = []\<rparr>"

definition warn_all :: "warning list \<Rightarrow> draft \<Rightarrow> draft" where
  "warn_all ws dr = foldl (\<lambda>x w. on_report (add_warning w) x) dr ws"

section \<open>The wired half\<close>

definition add_network_section ::
  "wording_of \<Rightarrow> existing \<Rightarrow> network \<Rightarrow> zone_member \<Rightarrow> draft \<Rightarrow> uci_section \<Rightarrow> draft" where
  "add_network_section say ex n m dr sec =
     (let dr1 = (if sc_config sec = ''network'' \<and> sc_type sec = ''bridge-vlan''
                 then on_report (refuse (foreign_bridge_vlan_conflicts say sec ex)) dr else dr);
          dr2 = add_owned say ex sec dr1
      in if sc_config sec = ''network'' \<and> sc_type sec = ''interface''
         then on_report (refuse (foreign_dhcp_conflicts say n (sc_name sec) (zm_iface m \<noteq> [] \<and> zm_dhcp_section m) ex)) dr2
         else dr2)"

definition add_management :: "wording_of \<Rightarrow> device \<Rightarrow> existing \<Rightarrow> network \<Rightarrow> draft \<Rightarrow> draft" where
  "add_management say dev ex n dr =
     (if n_enabled n \<and> n_vlan n \<le> 1 \<and> functions_route (effective_functions dev)
      then (let (patches, conflicts) = render_management_ipv6 say n ex
            in foldl (\<lambda>x p. add_patch say p x) (on_report (refuse conflicts) dr) patches)
      else dr)"

definition add_network :: "wording_of \<Rightarrow> device \<Rightarrow> caps \<Rightarrow> existing \<Rightarrow> network \<Rightarrow> draft \<times> zone_member list \<Rightarrow> draft \<times> zone_member list" where
  "add_network say dev c ex n = (\<lambda>(dr, members).
     (let dr1 = add_management say dev ex n dr;
          (secs, oms, m) = render_network say n dev c ex;
          dr2 = foldl (add_network_section say ex n m) dr1 secs
      in (on_report (omit oms) dr2, if zm_iface m \<noteq> [] then members @ [m] else members)))"

definition add_networks :: "wording_of \<Rightarrow> device \<Rightarrow> caps \<Rightarrow> existing \<Rightarrow> network list \<Rightarrow> draft \<Rightarrow> draft \<times> zone_member list" where
  "add_networks say dev c ex ns dr = foldl (\<lambda>x n. add_network say dev c ex n x) (dr, []) ns"

definition add_all :: "wording_of \<Rightarrow> existing \<Rightarrow> uci_section list \<Rightarrow> draft \<Rightarrow> draft" where
  "add_all say ex secs dr = foldl (\<lambda>x s. add_owned say ex s x) dr secs"

definition start_doc :: "site \<Rightarrow> device \<Rightarrow> caps \<Rightarrow> doc" where
  "start_doc s dev c =
     \<lparr>d_device = d_id dev, d_sections = [], d_patches = [], d_retain = [],
      d_blind = (if wants_vlan s \<and> (case c of None \<Rightarrow> True | Some r \<Rightarrow> po_bridge (rg_ports r) = [])
                 then [''network'', ''dhcp'', ''firewall''] else [])\<rparr>"

text \<open>Networks, zones and policies; \<open>None\<close> is a policy without its payload.\<close>

definition render_wired :: "wording_of \<Rightarrow> site \<Rightarrow> device \<Rightarrow> caps \<Rightarrow> existing \<Rightarrow> draft option" where
  "render_wired say s dev c ex =
     (let (dr1, members) = add_networks say dev c ex (s_networks s) (start_doc s dev c, blank_report);
          (zone_secs, zone_conflicts) = render_zones say members (effective_zone_policies s) ex;
          dr2 = add_all say ex zone_secs (on_report (refuse zone_conflicts) dr1)
      in case render_policies say s dev c ex (fst dr2) of
           None \<Rightarrow> None
         | Some (secs, oms, conflicts) \<Rightarrow> Some (add_all say ex secs (on_report (refuse conflicts \<circ> omit oms) dr2)))"

section \<open>The wireless half\<close>

definition zero_network :: network where
  "zero_network = \<lparr>n_id = 0, n_name = [], n_vlan = 0, n_cidr = [], n_zone = [], n_dhcp = None, n_ipv6 = None,
     n_legacy_dhcp = False, n_enabled = False\<rparr>"

definition network_of :: "site \<Rightarrow> int \<Rightarrow> network" where
  "network_of s i = (case network_by_id s i of None \<Rightarrow> zero_network | Some n \<Rightarrow> n)"

text \<open>An empty radio list that nobody could read, as opposed to a device without radios.\<close>

definition radios_unknown :: "caps \<Rightarrow> bool" where
  "radios_unknown c \<longleftrightarrow>
     (case c of None \<Rightarrow> True | Some r \<Rightarrow> rg_radios r = [] \<and> \<not> decided (feature_state r FeatSurvey))"

definition no_radio :: "caps \<Rightarrow> string \<Rightarrow> why" where
  "no_radio c band = (if radios_unknown c then Air (RadioListUnread band) else Air (NoRadio band))"

text \<open>One WLAN on one band: a section when there is a radio, and nothing foreign in the way.\<close>

definition render_band ::
  "wording_of \<Rightarrow> site \<Rightarrow> caps \<Rightarrow> existing \<Rightarrow> wlan \<Rightarrow> draft \<times> nat \<Rightarrow> string \<Rightarrow> draft \<times> nat" where
  "render_band say s c ex w = (\<lambda>(dr, rendered) band.
     (case map_of (radios_by_band c) band of
        None \<Rightarrow> (on_report (omit [noted say (w_ssid w) (radio_kind (radios_unknown c)) (no_radio c band)]) dr, rendered)
      | Some radio \<Rightarrow>
          (let name = iface_name (w_id w) radio
           in if foreign_named ex ''wireless'' name
              then (on_report (refuse [clash say ''wireless'' name (Keep (ForeignNamed ''wireless'' name))]) dr, rendered)
              else (case foreign_ssid_on_radio ex radio (w_ssid w) name of
                      Some other \<Rightarrow>
                        (on_report (refuse [clash say ''wireless'' other (Air (ForeignSSID (w_ssid w) radio other))]) dr, rendered)
                    | None \<Rightarrow>
                        (let (sec, oms) = render_wifi_iface say s w (network_of s (w_network_id w)) radio;
                             warnings = map (warn say (w_ssid w)) (triggered_by_on c (sc_values sec) (radio_by_section c radio))
                               @ (if radio_is_disabled ex radio then [radio_disabled_warning say (w_ssid w) radio] else [])
                         in (on_report (omit oms) (put_section sec (warn_all warnings dr)), rendered + 1))))))"

definition render_wlan :: "wording_of \<Rightarrow> site \<Rightarrow> device \<Rightarrow> caps \<Rightarrow> existing \<Rightarrow> draft \<Rightarrow> wlan \<Rightarrow> draft" where
  "render_wlan say s dev c ex dr base =
     (let (w, published) = apply_overrides (s_overrides s) (d_id dev) base
      in if \<not> published then on_report (omit [noted say (w_ssid base) KindUnclassified (Air NotPublishedHere)]) dr
         else let net = network_of s (w_network_id w)
         in if \<not> network_attachment_available (fst dr) net then
              (let dr1 = on_report (omit [noted say (w_ssid w) KindUnclassified
                           (network_attachment_omission net ''broadcast this WLAN'')]) dr
               in if blind (fst dr) ''network''
                  then foldl (\<lambda>x band. case map_of (radios_by_band c) band of
                                None \<Rightarrow> x | Some radio \<Rightarrow> retain say ex (iface_name (w_id w) radio) (Keep KeptWlan) x)
                         dr1 (ordered_bands (w_bands w))
                  else dr1)
            else (let (dr1, rendered) = foldl (render_band say s c ex w) (dr, 0) (ordered_bands (w_bands w))
                  in if rendered = 0 \<and> rp_conflicts (snd dr1) = [] \<and> \<not> radios_unknown c
                     then on_report (omit [noted say (w_ssid w) KindUnclassified (Air NoBandMatches)]) dr1 else dr1))"

definition render_device_uplink :: "wording_of \<Rightarrow> site \<Rightarrow> device \<Rightarrow> caps \<Rightarrow> existing \<Rightarrow> draft \<Rightarrow> draft" where
  "render_device_uplink say s dev c ex dr =
     (case uplink_for s (d_id dev) of
        None \<Rightarrow> dr
      | Some u \<Rightarrow>
          (case wlan_by_id s (u_wlan_id u) of
             None \<Rightarrow> dr
           | Some w \<Rightarrow>
               (let net = network_of s (w_network_id w)
                in if \<not> network_attachment_available (fst dr) net then
                     (let dr1 = on_report (omit [noted say (w_ssid w) KindUnclassified
                                  (network_attachment_omission net ''join this wireless uplink'')]) dr
                      in if blind (fst dr) ''network''
                         then (case map_of (radios_by_band c) (u_band u) of
                                 None \<Rightarrow> dr1
                               | Some radio \<Rightarrow> retain say ex (uplink_iface_name (u_id u) radio) (Keep KeptUplinkAttachment) dr1)
                         else dr1)
                   else (case map_of (radios_by_band c) (u_band u) of
                           None \<Rightarrow> on_report (omit [noted say (w_ssid w) KindUnclassified (Air (UplinkNoRadio (u_band u) (w_ssid w)))]) dr
                         | Some radio \<Rightarrow>
                             (let (sec, oms) = render_uplink say u w net radio c; dr1 = on_report (omit oms) dr
                              in case sec of
                                   Some x \<Rightarrow> put_section x dr1
                                 | None \<Rightarrow>
                                     if undetermined c FeatWirelessUplink
                                     then retain say ex (uplink_iface_name (u_id u) radio) (Keep (KeptUplinkGate (w_ssid w))) dr1
                                     else dr1)))))"

definition render_one_mesh :: "wording_of \<Rightarrow> site \<Rightarrow> caps \<Rightarrow> existing \<Rightarrow> draft \<Rightarrow> mesh \<Rightarrow> draft" where
  "render_one_mesh say s c ex dr m =
     (let net = network_of s (m_network_id m)
      in if \<not> network_attachment_available (fst dr) net then
           (let dr1 = on_report (omit [noted say (m_mesh_id m) KindUnclassified
                        (network_attachment_omission net ''carry this mesh'')]) dr
            in if blind (fst dr) ''network''
               then (case map_of (radios_by_band c) (m_band m) of
                       None \<Rightarrow> dr1
                     | Some radio \<Rightarrow> retain say ex (mesh_iface_name (m_id m) radio) (Keep KeptMeshAttachment) dr1)
               else dr1)
         else (case map_of (radios_by_band c) (m_band m) of
                 None \<Rightarrow> on_report (omit [noted say (m_mesh_id m) KindUnclassified (Air (MeshNoRadio (m_band m)))]) dr
               | Some radio \<Rightarrow>
                   (let name = mesh_iface_name (m_id m) radio
                    in if foreign_named ex ''wireless'' name
                       then on_report (refuse [clash say ''wireless'' name (Keep (ForeignNamed ''wireless'' name))]) dr
                       else (let (sec, oms) = render_mesh say m net radio c; dr1 = on_report (omit oms) dr
                             in case sec of
                                  Some x \<Rightarrow> put_section x dr1
                                | None \<Rightarrow>
                                    if undetermined c FeatMesh
                                    then retain say ex name (Keep (KeptMeshGate (m_mesh_id m))) dr1 else dr1))))"

text \<open>Defects of the hardware, of the radios as they are now, and hardware nobody could name.\<close>

definition device_warnings :: "wording_of \<Rightarrow> caps \<Rightarrow> existing \<Rightarrow> warning list" where
  "device_warnings say c ex =
     map (warn say []) (filter (\<lambda>d. \<not> configured d) (defects_for c))
     @ map (warn say []) (triggered_by_radios (with_live_channels c ex))"

definition unreadable :: "caps \<Rightarrow> bool" where
  "unreadable c \<longleftrightarrow>
     (case c of
        None \<Rightarrow> False
      | Some r \<Rightarrow> (rg_radios r \<noteq> [] \<and> \<not> hardware_identified c) \<or>
                  (rg_radios r = [] \<and> \<not> decided (feature_state r FeatSurvey)))"

definition render_wireless :: "wording_of \<Rightarrow> site \<Rightarrow> device \<Rightarrow> caps \<Rightarrow> existing \<Rightarrow> draft \<Rightarrow> draft" where
  "render_wireless say s dev c ex dr =
     (let dr1 = (if s_wlans s \<noteq> [] \<and> wlans_for s (d_id dev) = []
                 then on_report (omit [noted say ''(none)'' KindUnclassified (Air NoWlanTargets)]) dr else dr);
          dr2 = (if radios_unknown c then ((fst dr1)\<lparr>d_blind := d_blind (fst dr1) @ [''wireless'']\<rparr>, snd dr1) else dr1);
          dr3 = foldl (render_wlan say s dev c ex) dr2 (wlans_for s (d_id dev));
          dr4 = render_device_uplink say s dev c ex dr3;
          dr5 = foldl (render_one_mesh say s c ex) dr4 (meshes_for s (d_id dev));
          dr6 = report_blind say ex (warn_all (device_warnings say c ex) dr5)
      in if unreadable c then on_report (add_warning (unidentified_warning say c)) dr6 else dr6)"

section \<open>The render\<close>

datatype render_error = BadFunctions | BadSite site_error | BadRadios radio_error | NilPayload

definition render :: "wording_of \<Rightarrow> site \<Rightarrow> device \<Rightarrow> caps \<Rightarrow> existing \<Rightarrow> render_error + draft" where
  "render say s0 dev c ex =
     (if d_functions dev = Some [] then Inl BadFunctions
      else (case validate_site s0 of
              (e # es, _) \<Rightarrow> Inl (BadSite e)
            | ([], s) \<Rightarrow>
                (case render_wired say s dev c ex of
                   None \<Rightarrow> Inl NilPayload
                 | Some dr \<Rightarrow>
                     if \<not> functions_wireless (effective_functions dev)
                     then Inr (on_report (omit (map (\<lambda>w. noted say (w_ssid w) KindUnclassified
                                 (Air (NotWirelessFunction (effective_functions dev)))) (wlans_for s (d_id dev)))) dr)
                     else (case validate_radio_targets c of
                             Some e \<Rightarrow> Inl (BadRadios e)
                           | None \<Rightarrow> Inr (render_wireless say s dev c ex dr)))))"

end
