(* ===== verification/RenderFacts.thy ===== *)
theory RenderFacts
  imports Render
begin

text \<open>
  How a draft grows while \<open>Render\<close> runs: every step only appends sections, of a known origin,
  and only appends conflicts. The origin of each section of a rendered document follows.
\<close>

section \<open>Growing drafts\<close>

locale growing =
  fixes le :: "'s \<Rightarrow> 's \<Rightarrow> bool"
  assumes le_refl: "le x x"
    and le_trans: "le x y \<Longrightarrow> le y z \<Longrightarrow> le x z"
begin

lemma foldl_le: "(\<And>s x. x \<in> set xs \<Longrightarrow> le s (f s x)) \<Longrightarrow> le s (foldl f s xs)"
  by (induction xs arbitrary: s) (auto intro: le_refl le_trans)

lemma if_le: "(b \<Longrightarrow> le x y) \<Longrightarrow> le x (if b then y else x)"
  by (simp add: le_refl)

end

text \<open>\<open>adds P\<close>: sections that satisfy \<open>P\<close> and conflicts may be appended.\<close>

definition adds :: "(uci_section \<Rightarrow> bool) \<Rightarrow> draft \<Rightarrow> draft \<Rightarrow> bool" where
  "adds P dr dr' \<longleftrightarrow>
     (\<exists>new. d_sections (fst dr') = d_sections (fst dr) @ new \<and> (\<forall>x\<in>set new. P x)) \<and>
     (\<exists>cs. rp_conflicts (snd dr') = rp_conflicts (snd dr) @ cs) \<and> d_device (fst dr') = d_device (fst dr)"

lemma adds_trans: "adds P x y \<Longrightarrow> adds P y z \<Longrightarrow> adds P x z"
  unfolding adds_def by (metis (no_types, lifting) UnE append.assoc set_append)

interpretation adding: growing "adds P"
  by unfold_locales (auto simp: adds_def intro: adds_trans [unfolded adds_def])

lemma adds_mono: "adds P dr dr' \<Longrightarrow> (\<And>x. P x \<Longrightarrow> Q x) \<Longrightarrow> adds Q dr dr'"
  unfolding adds_def by blast

lemma adds_trans_mono:
  "adds P x y \<Longrightarrow> adds Q y z \<Longrightarrow> (\<And>s. P s \<Longrightarrow> R s) \<Longrightarrow> (\<And>s. Q s \<Longrightarrow> R s) \<Longrightarrow> adds R x z"
  by (rule adding.le_trans) (erule adds_mono, blast)+

lemma add_warning_keeps [simp]:
  "rp_conflicts (add_warning w r) = rp_conflicts r" "rp_omissions (add_warning w r) = rp_omissions r"
  by (simp_all add: add_warning_def)

lemma omit_keeps [simp]: "rp_conflicts (omit oms r) = rp_conflicts r"
  by (simp add: omit_def)

lemma fst_on_report [simp]: "fst (on_report f dr) = fst dr"
  by (simp add: on_report_def split: prod.splits)

lemma snd_on_report [simp]: "snd (on_report f dr) = f (snd dr)"
  by (simp add: on_report_def split: prod.splits)

lemma adds_omit [simp]: "adds P dr (on_report (omit oms) dr)"
  by (simp add: adds_def)

lemma adds_refuse [simp]: "adds P dr (on_report (refuse cs) dr)"
  by (simp add: adds_def refuse_def)

lemma adds_warning [simp]: "adds P dr (on_report (add_warning w) dr)"
  by (simp add: adds_def)

lemma adds_warn_all [simp]: "adds P dr (warn_all ws dr)"
  unfolding warn_all_def by (rule adding.foldl_le) simp

lemma fst_warn_all [simp]: "fst (warn_all ws dr) = fst dr"
  unfolding warn_all_def by (induction ws arbitrary: dr) simp_all

lemma adds_retain [simp]: "adds P dr (retain say ex name w dr)"
  by (auto simp: adds_def retain_def split: prod.splits)

lemma adds_put: "P sec \<Longrightarrow> adds P dr (put_section sec dr)"
  by (auto simp: adds_def put_section_def split: prod.splits)

lemma adds_report_blind [simp]: "adds P dr (report_blind say ex dr)"
  by (auto simp: adds_def report_blind_def split: prod.splits)

lemma adds_owned:
  "(\<not> foreign_named ex (sc_config sec) (sc_name sec) \<Longrightarrow> P sec) \<Longrightarrow> adds P dr (add_owned say ex sec dr)"
  by (auto simp: adds_def add_owned_def refuse_def split: prod.splits)

lemma adds_patch [simp]: "adds P dr (add_patch say p dr)"
  by (auto simp: adds_def add_patch_def refuse_def split: prod.splits)

lemmas adds_intros = adding.le_refl adds_put adds_owned

section \<open>The wired half\<close>

text \<open>A section of the wired half: one of its candidates, and never in the place of a foreign one.\<close>

definition wired_from :: "existing \<Rightarrow> uci_section set \<Rightarrow> uci_section \<Rightarrow> bool" where
  "wired_from ex S x \<longleftrightarrow> x \<in> S \<and> \<not> foreign_named ex (sc_config x) (sc_name x)"

lemma adds_network_section: "adds (wired_from ex {sec}) dr (add_network_section say ex n m dr sec)"
proof -
  have own: "adds (wired_from ex {sec}) dr' (add_owned say ex sec dr')" for dr'
    by (rule adds_owned) (simp add: wired_from_def)
  show ?thesis
    unfolding add_network_section_def Let_def
    by (simp add: own adding.le_trans [OF adds_refuse own] adding.le_trans [OF own adds_refuse]
        adding.le_trans [OF adding.le_trans [OF adds_refuse own] adds_refuse])
qed

lemma adds_management: "adds P dr (add_management say dev ex n dr)"
  by (auto simp: add_management_def Let_def adding.le_refl split: prod.splits
      intro!: adding.le_trans [OF adds_refuse adding.foldl_le])

definition network_sections :: "wording_of \<Rightarrow> device \<Rightarrow> caps \<Rightarrow> existing \<Rightarrow> network list \<Rightarrow> uci_section set" where
  "network_sections say dev c ex ns = (\<Union>n\<in>set ns. set (fst (render_network say n dev c ex)))"

lemma adds_network:
  "adds (wired_from ex (set (fst (render_network say n dev c ex)))) (fst x) (fst (add_network say dev c ex n x))"
proof -
  obtain secs oms m where r: "render_network say n dev c ex = (secs, oms, m)" by (metis prod_cases3)
  have "adds (wired_from ex (set secs)) (add_management say dev ex n (fst x))
      (foldl (add_network_section say ex n m) (add_management say dev ex n (fst x)) secs)"
    by (rule adding.foldl_le) (rule adds_mono [OF adds_network_section], auto simp: wired_from_def)
  from adding.le_trans [OF adding.le_trans [OF adds_management this] adds_omit] r show ?thesis
    by (auto simp: add_network_def Let_def split: prod.splits)
qed

lemma adds_networks:
  "adds (wired_from ex (network_sections say dev c ex ns)) dr (fst (add_networks say dev c ex ns dr))"
  unfolding add_networks_def
proof (induction ns arbitrary: dr rule: rev_induct)
  case (snoc n ns)
  show ?case
    by (simp, rule adds_trans_mono [OF snoc adds_network])
      (auto simp: wired_from_def network_sections_def)
qed (simp add: adding.le_refl)

lemma adds_all: "adds (wired_from ex (set secs)) dr (add_all say ex secs dr)"
  unfolding add_all_def by (rule adding.foldl_le) (rule adds_owned, simp add: wired_from_def)

text \<open>The stages of the wired half, by name.\<close>

definition members_of :: "wording_of \<Rightarrow> site \<Rightarrow> device \<Rightarrow> caps \<Rightarrow> existing \<Rightarrow> zone_member list" where
  "members_of say s dev c ex = snd (add_networks say dev c ex (s_networks s) (start_doc s dev c, blank_report))"

definition network_draft :: "wording_of \<Rightarrow> site \<Rightarrow> device \<Rightarrow> caps \<Rightarrow> existing \<Rightarrow> draft" where
  "network_draft say s dev c ex = fst (add_networks say dev c ex (s_networks s) (start_doc s dev c, blank_report))"

definition zones_of :: "wording_of \<Rightarrow> site \<Rightarrow> device \<Rightarrow> caps \<Rightarrow> existing \<Rightarrow> uci_section list \<times> conflict list" where
  "zones_of say s dev c ex = render_zones say (members_of say s dev c ex) (effective_zone_policies s) ex"

definition zone_draft :: "wording_of \<Rightarrow> site \<Rightarrow> device \<Rightarrow> caps \<Rightarrow> existing \<Rightarrow> draft" where
  "zone_draft say s dev c ex =
     add_all say ex (fst (zones_of say s dev c ex)) (on_report (refuse (snd (zones_of say s dev c ex))) (network_draft say s dev c ex))"

lemma render_wired_stages:
  "render_wired say s dev c ex =
     map_option (\<lambda>(secs, oms, cs). add_all say ex secs (on_report (refuse cs \<circ> omit oms) (zone_draft say s dev c ex)))
       (render_policies say s dev c ex (fst (zone_draft say s dev c ex)))"
  by (simp add: render_wired_def zone_draft_def zones_of_def members_of_def network_draft_def Let_def
      split: prod.splits option.splits)

lemma add_networks_members:
  "snd (add_networks say dev c ex ns dr) =
     filter (\<lambda>m. zm_iface m \<noteq> []) (map (\<lambda>n. snd (snd (render_network say n dev c ex))) ns)"
  unfolding add_networks_def
  by (induction ns rule: rev_induct) (auto simp: add_network_def Let_def split: prod.splits)

lemma adds_refuse_then: "adds P (on_report f dr) dr' \<Longrightarrow> (\<exists>cs. rp_conflicts (f (snd dr)) = rp_conflicts (snd dr) @ cs) \<Longrightarrow> adds P dr dr'"
  by (auto simp: adds_def)

lemma adds_zone_draft:
  "adds (wired_from ex (network_sections say dev c ex (s_networks s) \<union> set (fst (zones_of say s dev c ex))))
     (start_doc s dev c, blank_report) (zone_draft say s dev c ex)"
proof -
  let ?P = "wired_from ex (network_sections say dev c ex (s_networks s) \<union> set (fst (zones_of say s dev c ex)))"
  have "adds ?P (start_doc s dev c, blank_report) (network_draft say s dev c ex)"
    unfolding network_draft_def by (rule adds_mono [OF adds_networks]) (auto simp: wired_from_def)
  moreover have "adds ?P (network_draft say s dev c ex) (zone_draft say s dev c ex)"
    unfolding zone_draft_def
    by (rule adding.le_trans [OF adds_refuse adds_mono [OF adds_all]]) (auto simp: wired_from_def)
  ultimately show ?thesis by (rule adding.le_trans)
qed

definition policy_parts :: "wording_of \<Rightarrow> site \<Rightarrow> device \<Rightarrow> caps \<Rightarrow> existing \<Rightarrow> rendered option" where
  "policy_parts say s dev c ex = render_policies say s dev c ex (fst (zone_draft say s dev c ex))"

definition wired_sections :: "wording_of \<Rightarrow> site \<Rightarrow> device \<Rightarrow> caps \<Rightarrow> existing \<Rightarrow> uci_section set" where
  "wired_sections say s dev c ex =
     network_sections say dev c ex (s_networks s) \<union> set (fst (zones_of say s dev c ex)) \<union>
     (case policy_parts say s dev c ex of None \<Rightarrow> {} | Some r \<Rightarrow> set (fst r))"

lemma adds_wired:
  assumes "render_wired say s dev c ex = Some dr"
  shows "adds (wired_from ex (wired_sections say s dev c ex)) (start_doc s dev c, blank_report) dr"
proof -
  let ?P = "wired_from ex (wired_sections say s dev c ex)"
  obtain secs oms cs where p: "policy_parts say s dev c ex = Some (secs, oms, cs)"
    and dr: "dr = add_all say ex secs (on_report (refuse cs \<circ> omit oms) (zone_draft say s dev c ex))"
    using assms by (auto simp: render_wired_stages policy_parts_def)
  have "adds ?P (start_doc s dev c, blank_report) (zone_draft say s dev c ex)"
    by (rule adds_mono [OF adds_zone_draft]) (auto simp: wired_from_def wired_sections_def)
  moreover have "adds ?P (on_report (refuse cs \<circ> omit oms) (zone_draft say s dev c ex)) dr"
    unfolding dr by (rule adds_mono [OF adds_all]) (auto simp: wired_from_def wired_sections_def p)
  then have "adds ?P (zone_draft say s dev c ex) dr"
    by (rule adds_refuse_then) (simp add: refuse_def)
  ultimately show ?thesis by (rule adding.le_trans)
qed

section \<open>The wireless half\<close>

text \<open>Where an access point, an uplink and a mesh section come from.\<close>

definition ap_from :: "wording_of \<Rightarrow> site \<Rightarrow> device \<Rightarrow> caps \<Rightarrow> existing \<Rightarrow> uci_section \<Rightarrow> bool" where
  "ap_from say s dev c ex x \<longleftrightarrow>
     (\<exists>base w band radio.
        base \<in> set (wlans_for s (d_id dev)) \<and> apply_overrides (s_overrides s) (d_id dev) base = (w, True) \<and>
        band \<in> set (w_bands w) \<and> map_of (radios_by_band c) band = Some radio \<and>
        n_enabled (network_of s (w_network_id w)) \<and>
        foreign_ssid_on_radio ex radio (w_ssid w) (iface_name (w_id w) radio) = None \<and>
        \<not> foreign_named ex ''wireless'' (iface_name (w_id w) radio) \<and>
        x = fst (render_wifi_iface say s w (network_of s (w_network_id w)) radio))"

definition uplink_from :: "wording_of \<Rightarrow> site \<Rightarrow> device \<Rightarrow> caps \<Rightarrow> uci_section \<Rightarrow> bool" where
  "uplink_from say s dev c x \<longleftrightarrow>
     (\<exists>u w radio oms.
        uplink_for s (d_id dev) = Some u \<and> wlan_by_id s (u_wlan_id u) = Some w \<and>
        map_of (radios_by_band c) (u_band u) = Some radio \<and> n_enabled (network_of s (w_network_id w)) \<and>
        render_uplink say u w (network_of s (w_network_id w)) radio c = (Some x, oms))"

definition mesh_from :: "wording_of \<Rightarrow> site \<Rightarrow> device \<Rightarrow> caps \<Rightarrow> existing \<Rightarrow> uci_section \<Rightarrow> bool" where
  "mesh_from say s dev c ex x \<longleftrightarrow>
     (\<exists>m radio oms.
        m \<in> set (meshes_for s (d_id dev)) \<and> map_of (radios_by_band c) (m_band m) = Some radio \<and>
        n_enabled (network_of s (m_network_id m)) \<and>
        \<not> foreign_named ex ''wireless'' (mesh_iface_name (m_id m) radio) \<and>
        render_mesh say m (network_of s (m_network_id m)) radio c = (Some x, oms))"

lemma attachment_enabled: "network_attachment_available d n \<Longrightarrow> n_enabled n"
  by (simp add: network_attachment_available_def split: if_splits)

lemma set_ordered_bands [simp]: "set (ordered_bands bs) = set bs"
  by (simp add: ordered_bands_def)

lemma adds_band:
  assumes "base \<in> set (wlans_for s (d_id dev))" "apply_overrides (s_overrides s) (d_id dev) base = (w, True)"
    "band \<in> set (w_bands w)" "n_enabled (network_of s (w_network_id w))"
  shows "adds (ap_from say s dev c ex) (fst x) (fst (render_band say s c ex w x band))"
proof (cases "map_of (radios_by_band c) band")
  case None
  then show ?thesis by (simp add: render_band_def split: prod.splits)
next
  case (Some radio)
  let ?sec = "fst (render_wifi_iface say s w (network_of s (w_network_id w)) radio)"
  show ?thesis
  proof (cases "foreign_named ex ''wireless'' (iface_name (w_id w) radio)
      \<or> foreign_ssid_on_radio ex radio (w_ssid w) (iface_name (w_id w) radio) \<noteq> None")
    case True
    with Some show ?thesis by (auto simp: render_band_def Let_def split: prod.splits option.splits)
  next
    case False
    with assms Some have ap: "ap_from say s dev c ex ?sec"
      unfolding ap_from_def by (intro exI [of _ base] exI [of _ w] exI [of _ band] exI [of _ radio]) simp
    have "adds (ap_from say s dev c ex) (fst x) (on_report (omit oms) (put_section ?sec (warn_all ws (fst x))))" for oms ws
      by (rule adding.le_trans [OF adds_warn_all adding.le_trans [OF adds_put adds_omit]]) (rule ap)
    moreover obtain sec oms dr k where "render_wifi_iface say s w (network_of s (w_network_id w)) radio = (sec, oms)" "x = (dr, k)"
      by fastforce
    ultimately show ?thesis
      using False Some by (simp add: render_band_def Let_def)
  qed
qed

lemma adds_bands:
  assumes "base \<in> set (wlans_for s (d_id dev))" "apply_overrides (s_overrides s) (d_id dev) base = (w, True)"
    "set bands \<subseteq> set (w_bands w)" "n_enabled (network_of s (w_network_id w))"
  shows "adds (ap_from say s dev c ex) (fst x) (fst (foldl (render_band say s c ex w) x bands))"
  using assms(3)
proof (induction bands arbitrary: x)
  case (Cons b bs)
  from adding.le_trans [OF adds_band [OF assms(1,2) _ assms(4)] Cons.IH] Cons.prems show ?case by simp
qed (simp add: adding.le_refl)

lemma adds_wlan:
  assumes "base \<in> set (wlans_for s (d_id dev))"
  shows "adds (ap_from say s dev c ex) dr (render_wlan say s dev c ex dr base)"
proof -
  obtain w published where ov: "apply_overrides (s_overrides s) (d_id dev) base = (w, published)" by fastforce
  let ?net = "network_of s (w_network_id w)"
  have keep: "adds (ap_from say s dev c ex) dr' (foldl (\<lambda>x band. case map_of (radios_by_band c) band of
       None \<Rightarrow> x | Some radio \<Rightarrow> retain say ex (iface_name (w_id w) radio) (Keep KeptWlan) x) dr' bands)" for dr' bands
    by (rule adding.foldl_le) (auto simp: adding.le_refl split: option.splits)
  show ?thesis
  proof (cases "published \<and> network_attachment_available (fst dr) ?net")
    case False
    then show ?thesis
      using ov keep by (auto simp: render_wlan_def Let_def adding.le_trans [OF adds_omit keep])
  next
    case True
    with adds_bands [OF assms, of w "ordered_bands (w_bands w)" say c ex "(dr, 0)"] attachment_enabled [of "fst dr" ?net] ov
    have "adds (ap_from say s dev c ex) dr (fst (foldl (render_band say s c ex w) (dr, 0) (ordered_bands (w_bands w))))"
      by simp
    then show ?thesis
      using True ov by (auto simp: render_wlan_def Let_def adding.le_trans [OF _ adds_omit] split: prod.splits)
  qed
qed

lemma adds_device_uplink: "adds (uplink_from say s dev c) dr (render_device_uplink say s dev c ex dr)"
proof -
  have put: "adds (uplink_from say s dev c) dr (put_section sec (on_report (omit oms') dr))" if "uplink_from say s dev c sec" for sec oms'
    by (rule adding.le_trans [OF adds_omit adds_put]) (rule that)
  have keep: "adds (uplink_from say s dev c) dr (retain say ex name w (on_report (omit oms') dr))" for name w oms'
    by (rule adding.le_trans [OF adds_omit adds_retain])
  show ?thesis
    unfolding render_device_uplink_def Let_def
    by (auto simp: adding.le_refl keep split: option.splits prod.splits
        intro!: put) (use attachment_enabled uplink_from_def in blast)
qed

lemma adds_mesh:
  assumes "m \<in> set (meshes_for s (d_id dev))"
  shows "adds (mesh_from say s dev c ex) dr (render_one_mesh say s c ex dr m)"
proof -
  have put: "adds (mesh_from say s dev c ex) dr (put_section sec (on_report (omit oms') dr))" if "mesh_from say s dev c ex sec" for sec oms'
    by (rule adding.le_trans [OF adds_omit adds_put]) (rule that)
  have keep: "adds (mesh_from say s dev c ex) dr (retain say ex name w (on_report (omit oms') dr))" for name w oms'
    by (rule adding.le_trans [OF adds_omit adds_retain])
  show ?thesis
    unfolding render_one_mesh_def Let_def
    by (auto simp: adding.le_refl keep split: option.splits prod.splits
        intro!: put) (use assms attachment_enabled mesh_from_def in blast)
qed

definition air_from :: "wording_of \<Rightarrow> site \<Rightarrow> device \<Rightarrow> caps \<Rightarrow> existing \<Rightarrow> uci_section \<Rightarrow> bool" where
  "air_from say s dev c ex x \<longleftrightarrow> ap_from say s dev c ex x \<or> uplink_from say s dev c x \<or> mesh_from say s dev c ex x"

lemma adds_wireless: "adds (air_from say s dev c ex) dr (render_wireless say s dev c ex dr)"
proof -
  let ?A = "air_from say s dev c ex"
  have wl: "adds ?A dr' (foldl (render_wlan say s dev c ex) dr' (wlans_for s (d_id dev)))" for dr'
    by (rule adding.foldl_le) (rule adds_mono [OF adds_wlan], auto simp: air_from_def)
  have up: "adds ?A dr' (render_device_uplink say s dev c ex dr')" for dr'
    by (rule adds_mono [OF adds_device_uplink]) (simp add: air_from_def)
  have me: "adds ?A dr' (foldl (render_one_mesh say s c ex) dr' (meshes_for s (d_id dev)))" for dr'
    by (rule adding.foldl_le) (rule adds_mono [OF adds_mesh], auto simp: air_from_def)
  define dr1 where "dr1 = (if s_wlans s \<noteq> [] \<and> wlans_for s (d_id dev) = []
     then on_report (omit [noted say ''(none)'' KindUnclassified (Air NoWlanTargets)]) dr else dr)"
  define dr2 where "dr2 = (if radios_unknown c then ((fst dr1)\<lparr>d_blind := d_blind (fst dr1) @ [''wireless'']\<rparr>, snd dr1) else dr1)"
  have "adds ?A dr dr2" by (simp add: dr1_def dr2_def adds_def)
  from adding.le_trans [OF adding.le_trans [OF adding.le_trans [OF this wl] up] me]
  have "adds ?A dr (foldl (render_one_mesh say s c ex) (render_device_uplink say s dev c ex
      (foldl (render_wlan say s dev c ex) dr2 (wlans_for s (d_id dev)))) (meshes_for s (d_id dev)))" .
  from adding.le_trans [OF adding.le_trans [OF this adds_warn_all] adds_report_blind] adding.le_trans [OF _ adds_warning]
  show ?thesis
    unfolding render_wireless_def Let_def dr1_def [symmetric] dr2_def [symmetric] by simp
qed

end
