(* ===== verification/RenderSample.thy ===== *)
theory RenderSample
  imports Render
begin

text \<open>
  A small installation for the witnesses: the site \<open>whole_site\<close>, an access point of its group and
  the device that joins it over a wireless uplink, with one radio and a VLAN-aware bridge.
\<close>

definition home_say :: wording_of where
  "home_say _ = ''x''"

definition home_radio :: radio where
  "home_radio =
     \<lparr>rd_section = ''radio0'', rd_device = ''phy0-ap0'', rd_phy = ''phy0'', rd_channel = 36, rd_frequency = 5180, rd_hwmodes = [],
      rd_hardware = ''MediaTek MT7986'', rd_band = [], rd_survey = Present, rd_noise = Present\<rparr>"

definition home_caps :: registry where
  "home_caps = new_registry\<lparr>
     rg_features := [(FeatMesh, Present), (FeatWirelessUplink, Present)], rg_radios := [home_radio],
     rg_ports := \<lparr>po_bridge = ''br-lan'', po_bridge_devices = [''br-lan''], po_lan = [''lan1''], po_wan = ''wan''\<rparr>\<rparr>"

definition home_existing :: existing where
  "home_existing = \<lparr>ex_configs =
     [(''network'', [(''bv1'', [(''.type'', ''bridge-vlan''), (''device'', ''br-lan''), (''vlan'', ''1'')])]),
      (''wireless'', [(''oon_old'', [(''.type'', ''wifi-iface''), (OwnershipTag, ''1'')]),
         (uplink_iface_name 1 ''radio0'', [(''.type'', ''wifi-iface''), (''ssid'', ''mine'')])])]\<rparr>"

definition home_device :: "int \<Rightarrow> device" where
  "home_device i = \<lparr>d_id = i, d_name = ''ap'', d_role = ''access-point'', d_functions = None\<rparr>"


text \<open>What either device is to hold.\<close>

definition home_net :: "string \<Rightarrow> string \<Rightarrow> uci_section list" where
  "home_net vid name =
     [\<lparr>sc_config = ''network'', sc_type = ''bridge-vlan'', sc_name = ''oowrt_bv'' @ vid,
       sc_values = [(''device'', ''br-lan''), (''vlan'', vid), (''local'', ''1''), (OwnershipTag, ''1'')],
       sc_lists = [(''ports'', [''lan1:t''])], sc_manages = []\<rparr>,
      \<lparr>sc_config = ''network'', sc_type = ''interface'', sc_name = ''oowrt_net_'' @ name,
       sc_values = [(''proto'', ''none''), (''device'', ''br-lan.'' @ vid), (OwnershipTag, ''1'')],
       sc_lists = [], sc_manages = [''ipaddr'', ''netmask'']\<rparr>]"

definition home_uplink :: uci_section where
  "home_uplink =
     \<lparr>sc_config = ''wireless'', sc_type = ''wifi-iface'', sc_name = ''oowrt_up1_radio0'',
      sc_values = [(''device'', ''radio0''), (''mode'', ''sta''), (''ssid'', ''guest''), (''network'', ''oowrt_net_guest''),
        (''wds'', ''1''), (''encryption'', ''psk2''), (''disassoc_low_ack'', ''0''), (''key'', ''secret123''),
        (''ieee80211w'', ''1''), (OwnershipTag, ''1'')],
      sc_lists = [], sc_manages = []\<rparr>"

definition home_ap :: uci_section where
  "home_ap =
     \<lparr>sc_config = ''wireless'', sc_type = ''wifi-iface'', sc_name = ''oowrt_wlan7_radio0'',
      sc_values = [(''device'', ''radio0''), (''mode'', ''ap''), (''ssid'', ''guest''), (''network'', ''oowrt_net_guest''),
        (''encryption'', ''psk2''), (''key'', ''secret123''), (''ieee80211w'', ''1''), (''ieee80211r'', ''0''),
        (''ft_over_ds'', ''0''), (''mobility_domain'', ''7f6a''), (''reassociation_deadline'', ''20000''),
        (''ieee80211k'', ''1''), (''rrm_neighbor_report'', ''1''), (''rrm_beacon_report'', ''1''), (''bss_transition'', ''1''),
        (''wnm_sleep_mode'', ''1''), (''hidden'', ''0''), (''isolate'', ''1''), (''bridge_isolate'', ''1''), (''wds'', ''1''),
        (OwnershipTag, ''1'')],
      sc_lists = [], sc_manages = wifiIfaceOptions\<rparr>"

definition home_mesh :: uci_section where
  "home_mesh =
     \<lparr>sc_config = ''wireless'', sc_type = ''wifi-iface'', sc_name = ''oowrt_mesh1_radio0'',
      sc_values = [(''device'', ''radio0''), (''mode'', ''mesh''), (''mesh_id'', ''backhaul''), (''network'', ''oowrt_net_iot''),
        (''mesh_fwding'', ''1''), (''encryption'', ''sae''), (''key'', ''long enough''), (''ieee80211w'', ''2''),
        (OwnershipTag, ''1'')],
      sc_lists = [], sc_manages = []\<rparr>"

definition home_doc :: "int \<Rightarrow> uci_section list \<Rightarrow> doc" where
  "home_doc i air =
     \<lparr>d_device = i, d_sections = home_net ''20'' ''iot'' @ home_net ''30'' ''guest'' @ air, d_patches = [],
      d_retain = [], d_blind = []\<rparr>"

definition home_report :: "omission list \<Rightarrow> report" where
  "home_report oms = blank_report\<lparr>rp_omissions := oms\<rparr>"

definition home_render :: "int \<Rightarrow> render_error + doc \<times> report" where
  "home_render i = render home_say whole_site (home_device i) (Some home_caps) home_existing"

lemma home_render_uplink:
  "home_render 5 = Inr (home_doc 5 [home_uplink],
     home_report [noted home_say ''(none)'' KindUnclassified (Air NoWlanTargets), noted home_say ''guest'' KindCaution (Air (LoopCaution ''guest''))])"
  unfolding home_render_def render_def whole_site_ok by code_simp

lemma home_render_ap:
  "home_render 1 = Inr (home_doc 1 [home_ap, home_mesh],
     home_report [noted home_say ''guest'' KindUnclassified (Air (NoRadio ''2g''))])"
  unfolding home_render_def render_def whole_site_ok by code_simp

abbreviation home_ap_doc :: doc where
  "home_ap_doc \<equiv> home_doc 1 [home_ap, home_mesh]"

abbreviation home_uplink_doc :: doc where
  "home_uplink_doc \<equiv> home_doc 5 [home_uplink]"

end
