(* ===== verification/RenderClaims.thy ===== *)
theory RenderClaims
  imports RenderFacts RenderSample PlanClaims Reconcile
begin

text \<open>What a rendered document guarantees, alone and together with the plan made from it.\<close>

section \<open>Where sections come from\<close>

lemma render_parts:
  assumes "render say s0 dev c ex = Inr (d, rep)"
  obtains s dr where "validate_site s0 = ([], s)" "render_wired say s dev c ex = Some dr"
    "functions_wireless (effective_functions dev) \<Longrightarrow>
       validate_radio_targets c = None \<and> (d, rep) = render_wireless say s dev c ex dr"
    "\<not> functions_wireless (effective_functions dev) \<Longrightarrow> d = fst dr \<and> rp_conflicts rep = rp_conflicts (snd dr)"
proof -
  obtain errs s where v: "validate_site s0 = (errs, s)" by fastforce
  with assms have e: "errs = []" by (auto simp: render_def split: if_splits list.splits)
  then obtain dr where dr: "render_wired say s dev c ex = Some dr"
    using assms v by (auto simp: render_def split: if_splits option.splits)
  show ?thesis
  proof (rule that)
    show "validate_site s0 = ([], s)" using v e by simp
    show "render_wired say s dev c ex = Some dr" by (rule dr)
    show "validate_radio_targets c = None \<and> (d, rep) = render_wireless say s dev c ex dr"
      if "functions_wireless (effective_functions dev)"
      using assms v e dr that by (auto simp: render_def split: if_splits option.splits)
    show "d = fst dr \<and> rp_conflicts rep = rp_conflicts (snd dr)" if "\<not> functions_wireless (effective_functions dev)"
      using assms v e dr that by (auto simp: render_def on_report_def split: if_splits prod.splits)
  qed
qed

lemma adds_subset: "adds P (d0, r0) dr \<Longrightarrow> d_sections d0 = [] \<Longrightarrow> x \<in> set (d_sections (fst dr)) \<Longrightarrow> P x"
  by (auto simp: adds_def)

lemma start_doc_empty [simp]: "d_sections (start_doc s dev c) = []" "d_patches (start_doc s dev c) = []"
  by (simp_all add: start_doc_def)

lemma render_origin:
  assumes "render say s0 dev c ex = Inr (d, rep)" and "x \<in> set (d_sections d)"
  obtains s where "validate_site s0 = ([], s)" "wired_from ex (wired_sections say s dev c ex) x"
  | s where "validate_site s0 = ([], s)" "functions_wireless (effective_functions dev)"
      "validate_radio_targets c = None" "air_from say s dev c ex x"
proof -
  from assms(1) obtain s dr where v: "validate_site s0 = ([], s)" and w: "render_wired say s dev c ex = Some dr"
    and air: "functions_wireless (effective_functions dev) \<Longrightarrow>
       validate_radio_targets c = None \<and> (d, rep) = render_wireless say s dev c ex dr"
    and wire: "\<not> functions_wireless (effective_functions dev) \<Longrightarrow> d = fst dr \<and> rp_conflicts rep = rp_conflicts (snd dr)"
    by (rule render_parts) blast
  show ?thesis
  proof (cases "functions_wireless (effective_functions dev)")
    case False
    with wire assms(2) adds_subset [OF adds_wired [OF w]] v show ?thesis by (intro that(1)) auto
  next
    case True
    from air [OF True] have "d = fst (render_wireless say s dev c ex dr)" by (metis fst_conv)
    with adds_wireless [of say s dev c ex dr] assms(2)
    have "x \<in> set (d_sections (fst dr)) \<or> air_from say s dev c ex x"
      by (auto simp: adds_def)
    then show ?thesis
      using adds_subset [OF adds_wired [OF w]] air [OF True] True v that by auto
  qed
qed

section \<open>Shapes\<close>

text \<open>A section that carries the marker, in a config the controller manages.\<close>

definition marked :: "string set \<Rightarrow> uci_section \<Rightarrow> bool" where
  "marked configs x \<longleftrightarrow> get_str (sc_values x) OwnershipTag = ''1'' \<and> sc_config x \<in> configs"

lemma own_section_simps [simp]:
  "sc_config (own_section cfg ty nm vals ls ms) = cfg" "sc_type (own_section cfg ty nm vals ls ms) = ty"
  "sc_name (own_section cfg ty nm vals ls ms) = nm" "sc_lists (own_section cfg ty nm vals ls ms) = ls"
  "sc_manages (own_section cfg ty nm vals ls ms) = ms"
  by (simp_all add: own_section_def)

lemma own_section_marked:
  "OwnershipTag \<notin> set (keys vals) \<Longrightarrow> cfg \<in> configs \<Longrightarrow> marked configs (own_section cfg ty nm vals ls ms)"
  by (force simp: marked_def own_section_def get_str_def map_add_def map_of_eq_None_iff split: option.splits
      dest!: map_of_SomeD)

lemma network_marked:
  "x \<in> set (fst (render_network say n dev c ex)) \<Longrightarrow> marked {''network'', ''dhcp''} x"
  by (auto simp: render_network_def render_routed_def bridge_vlan_section_def unmanaged_interface_def
      static_interface_def dhcp_section_def Let_def
      split: if_splits option.splits prod.splits intro!: own_section_marked)

lemma zone_marked: "x \<in> set (fst (render_zone say ps ex fw ms)) \<Longrightarrow> marked {''firewall''} x"
  by (auto simp: render_zone_def zone_section_def dhcp_rules_def ipv6_rules_def input_rule_def forwarding_section_def Let_def
      split: if_splits option.splits intro!: own_section_marked)

lemma zones_marked: "x \<in> set (fst (render_zones say ms ps ex)) \<Longrightarrow> marked {''firewall''} x"
  by (auto simp: render_zones_def Let_def dest!: zone_marked)

lemma protocol_keys [simp]: "(''oonfeewrt'', v) \<notin> set (fst (protocol_options ps))"
  by (auto simp: protocol_options_def Let_def)

lemma copy_keys [simp]: "k \<noteq> ''oonfeewrt'' \<Longrightarrow> (''oonfeewrt'', v) \<notin> set (copy_nonempty k w)"
  by (simp add: copy_nonempty_def)

lemma firewall_rule_marked: "marked {''firewall''} (firewall_rule_section p r macs)"
  unfolding firewall_rule_section_def case_prod_unfold Let_def by (rule own_section_marked) auto

lemma port_forward_marked: "marked {''firewall''} (port_forward_section p r)"
  unfolding port_forward_section_def case_prod_unfold Let_def by (rule own_section_marked) auto

lemma static_route_marked: "marked {''network''} (static_route_section p i r)"
  unfolding static_route_section_def by (rule own_section_marked) auto

lemma marked_mono: "marked A x \<Longrightarrow> A \<subseteq> B \<Longrightarrow> marked B x"
  by (auto simp: marked_def)

lemma firewall_policy_section:
  "x \<in> set (fst (render_firewall_policy say s zs p r)) \<Longrightarrow>
     \<exists>macs. firewall_source_macs s r = Some macs \<and> x = firewall_rule_section p r macs \<and>
       \<not> (macs = [] \<and> fr_source_set_id r > 0) \<and> policy_zones_rendered (fr_source_zone r) (fr_destination_zone r) zs"
  by (auto simp: render_firewall_policy_def split: option.splits if_splits)

lemma forward_policy_section:
  "x \<in> set (fst (render_forward_policy say zs p r)) \<Longrightarrow>
     x = port_forward_section p r \<and> firewall_zone_name (pf_destination_zone r) \<in> set zs"
  by (auto simp: render_forward_policy_def split: if_splits)

lemma route_policy_section:
  "x \<in> set (fst (render_route_policy say s d p r)) \<Longrightarrow> x = static_route_section p (route_interface s r) r"
  by (auto simp: render_route_policy_def Let_def split: if_splits)

lemma policy_section_cases:
  assumes "render_policy say s zs d p = Some res" and "x \<in> set (fst res)"
  obtains r where "p_firewall p = Some r" "p_kind p = PolicyFirewallRule" "x \<in> set (fst (render_firewall_policy say s zs p r))"
  | r where "p_port_forward p = Some r" "p_kind p = PolicyPortForward" "x \<in> set (fst (render_forward_policy say zs p r))"
  | r where "p_static_route p = Some r" "p_kind p = PolicyStaticRoute" "x \<in> set (fst (render_route_policy say s d p r))"
  using assms by (auto simp: render_policy_def split: if_splits)

lemma policy_section_marked:
  assumes "render_policy say s zs d p = Some r" and "x \<in> set (fst r)"
  shows "marked {''firewall'', ''network''} x"
  using assms
proof (rule policy_section_cases)
  fix r' assume "x \<in> set (fst (render_firewall_policy say s zs p r'))"
  with firewall_policy_section obtain macs where "x = firewall_rule_section p r' macs" by blast
  with firewall_rule_marked [of p r' macs] show ?thesis by (simp add: marked_def)
next
  fix r' assume "x \<in> set (fst (render_forward_policy say zs p r'))"
  with forward_policy_section port_forward_marked [of p r'] show ?thesis by (auto simp: marked_def)
next
  fix r' assume "x \<in> set (fst (render_route_policy say s d p r'))"
  then have "x = static_route_section p (route_interface s r') r'" by (rule route_policy_section)
  with static_route_marked [of p _ r'] show ?thesis by (auto simp: marked_def)
qed

lemma client_section_marked:
  "x \<in> set (fst (render_client say s zs pools azs cl)) \<Longrightarrow> marked {''firewall'', ''dhcp''} x"
  by (auto simp: render_client_def plus_def nothing_def render_block_def render_fixed_def client_block_section_def
      fixed_host_section_def split: sum.splits if_splits option.splits intro!: own_section_marked)

lemma foldr_plus: "fst (foldr plus rs nothing) = concat (map fst rs)"
  "snd (snd (foldr plus rs nothing)) = concat (map (snd \<circ> snd) rs)"
  by (induction rs) (simp_all add: plus_def nothing_def)

lemma those_Some: "those xs = Some ys \<longleftrightarrow> xs = map Some ys"
  by (induction xs arbitrary: ys) (auto split: option.splits simp: Cons_eq_map_conv)

text \<open>What the policies of a site render to, and what they refuse.\<close>

lemma render_policies_parts:
  assumes "render_policies say s dev c ex desired = Some r" and "functions_route (effective_functions dev)"
    and "snd (policy_source_mac_expansion s)"
  obtains parts where
    "map (render_policy say s (rendered_zones desired) desired) (sorted_policies (s_policies s)) = map Some parts"
    "fst r = concat (map fst parts) @ concat (map (fst \<circ>
       render_client say s (rendered_zones desired) (rendered_pools desired) (active_zone_names s)) (s_policy_clients s))"
    "\<And>p x. p \<in> set parts \<Longrightarrow> x \<in> set (snd (snd p)) \<Longrightarrow> x \<in> set (snd (snd r))"
    "\<And>cl x. cl \<in> set (s_policy_clients s) \<Longrightarrow> x \<in> set (snd (snd (render_client say s (rendered_zones desired)
        (rendered_pools desired) (active_zone_names s) cl))) \<Longrightarrow> x \<in> set (snd (snd r))"
    "set (foreign_expanded_policy_conflicts say s ex) \<subseteq> set (snd (snd r))"
    "needs_fw4 s \<Longrightarrow> caps_state c FeatFirewall4 \<noteq> Present \<Longrightarrow> snd (snd r) \<noteq> []"
proof -
  let ?cl = "render_client say s (rendered_zones desired) (rendered_pools desired) (active_zone_names s)"
  define first where "first = (if needs_fw4 s \<and> caps_state c FeatFirewall4 \<noteq> Present
    then [clash say ''firewall'' ''policy-capability'' (Policy (NoFirewall4 (caps_state c FeatFirewall4)))] else [])"
  from assms obtain parts where
    m: "map (render_policy say s (rendered_zones desired) desired) (sorted_policies (s_policies s)) = map Some parts"
    and r: "r = foldr plus (([], [], first) # parts @ map ?cl (s_policy_clients s)
        @ [([], [], foreign_expanded_policy_conflicts say s ex)]) nothing"
    by (auto simp: render_policies_def Let_def those_Some first_def split: option.splits)
  have sec: "fst r = concat (map fst parts) @ concat (map (fst \<circ> ?cl) (s_policy_clients s))"
    unfolding r foldr_plus by simp
  have conf: "set (snd (snd r)) = set first \<union> (\<Union>q\<in>set parts. set (snd (snd q))) \<union>
      (\<Union>cl\<in>set (s_policy_clients s). set (snd (snd (?cl cl)))) \<union> set (foreign_expanded_policy_conflicts say s ex)"
    unfolding r foldr_plus by auto
  show ?thesis
    by (rule that [OF m sec]) (use conf in \<open>auto simp: first_def\<close>)
qed

lemma policies_marked:
  assumes "render_policies say s dev c ex desired = Some r" and "x \<in> set (fst r)"
  shows "marked {''firewall'', ''network'', ''dhcp''} x \<and> functions_route (effective_functions dev)"
proof (cases "functions_route (effective_functions dev) \<and> snd (policy_source_mac_expansion s)")
  case False
  then have "fst r = []" using assms(1) by (auto simp: render_policies_def nothing_def split: if_splits)
  with assms(2) show ?thesis by simp
next
  case True
  then obtain parts where m: "map (render_policy say s (rendered_zones desired) desired) (sorted_policies (s_policies s)) = map Some parts"
    and f: "fst r = concat (map fst parts) @ concat (map (fst \<circ>
       render_client say s (rendered_zones desired) (rendered_pools desired) (active_zone_names s)) (s_policy_clients s))"
    using render_policies_parts [OF assms(1)] by metis
  have "marked {''firewall'', ''network''} x" if "x \<in> set (fst q)" "q \<in> set parts" for q
  proof -
    from that(2) m obtain p where "render_policy say s (rendered_zones desired) desired p = Some q"
      by (metis (no_types, lifting) image_iff list.set_map)
    then show ?thesis by (rule policy_section_marked) (rule that(1))
  qed
  with f assms(2) client_section_marked True show ?thesis by (fastforce simp: marked_def)
qed

lemma wired_marked:
  "x \<in> wired_sections say s dev c ex \<Longrightarrow> marked {''network'', ''dhcp'', ''firewall''} x"
  using network_marked zones_marked policies_marked
  by (fastforce simp: wired_sections_def network_sections_def zones_of_def policy_parts_def marked_def split: option.splits)

lemma wifi_iface_marked: "marked {''wireless''} (fst (render_wifi_iface say st w net radio))"
  by (auto simp: render_wifi_iface_def Let_def intro!: own_section_marked)

lemma air_marked:
  assumes "air_from say s dev c ex x"
  shows "marked {''wireless''} x"
  using assms wifi_iface_marked
  by (auto simp: air_from_def ap_from_def uplink_from_def mesh_from_def render_uplink_def render_mesh_def
      split: option.splits if_splits intro!: own_section_marked)

lemma uplink_from_name: "uplink_from say s dev c x \<Longrightarrow> sc_config x = ''wireless'' \<and> (\<exists>i radio. sc_name x = uplink_iface_name i radio)"
  unfolding uplink_from_def using render_uplink_section by blast

lemma air_not_foreign:
  "air_from say s dev c ex x \<Longrightarrow> foreign_named ex (sc_config x) (sc_name x) \<Longrightarrow> uplink_from say s dev c x"
  by (auto simp: air_from_def ap_from_def mesh_from_def wifi_iface_shape dest!: render_mesh_section)

section \<open>Properties\<close>

text \<open>
  C26. A rendered document is the wired half followed by the wireless half. Every section of it
  carries the ownership marker; those of the wired half lie in \<open>network\<close>, \<open>dhcp\<close> or
  \<open>firewall\<close>, those of the wireless half in \<open>wireless\<close>; and there is a wireless half only on a
  device whose functions publish WLANs and whose radios have names to address them by.
\<close>

theorem rendered_sections_owned:
  assumes "render say s0 dev c ex = Inr (d, rep)"
  shows "\<exists>s dr air. validate_site s0 = ([], s) \<and> render_wired say s dev c ex = Some dr \<and>
    d_sections d = d_sections (fst dr) @ air \<and>
    (\<forall>x\<in>set (d_sections (fst dr)). get_str (sc_values x) OwnershipTag = ''1'' \<and>
       sc_config x \<in> {''network'', ''dhcp'', ''firewall''}) \<and>
    (\<forall>x\<in>set air. get_str (sc_values x) OwnershipTag = ''1'' \<and> sc_config x = ''wireless'') \<and>
    (air \<noteq> [] \<longrightarrow> functions_wireless (effective_functions dev) \<and> validate_radio_targets c = None)"
proof -
  from assms obtain s dr where v: "validate_site s0 = ([], s)" and w: "render_wired say s dev c ex = Some dr"
    and air: "functions_wireless (effective_functions dev) \<Longrightarrow>
       validate_radio_targets c = None \<and> (d, rep) = render_wireless say s dev c ex dr"
    and wire: "\<not> functions_wireless (effective_functions dev) \<Longrightarrow> d = fst dr \<and> rp_conflicts rep = rp_conflicts (snd dr)"
    by (rule render_parts) blast
  have "marked {''network'', ''dhcp'', ''firewall''} x" if "x \<in> set (d_sections (fst dr))" for x
    using adds_subset [OF adds_wired [OF w] _ that] wired_marked by (auto simp: wired_from_def)
  note wired = this
  show ?thesis
  proof (cases "functions_wireless (effective_functions dev)")
    case False
    with v w wire wired show ?thesis by (intro exI [of _ s] exI [of _ dr] exI [of _ "[]"]) (auto simp: marked_def)
  next
    case True
    from air [OF True] have "d = fst (render_wireless say s dev c ex dr)" by (metis fst_conv)
    then obtain new where "d_sections d = d_sections (fst dr) @ new" "\<forall>x\<in>set new. air_from say s dev c ex x"
      using adds_wireless [of say s dev c ex dr] by (auto simp: adds_def)
    with v w air [OF True] True wired air_marked [of say s dev c ex] show ?thesis
      by (intro exI [of _ s] exI [of _ dr] exI [of _ new]) (fastforce simp: marked_def)
  qed
qed

theorem rendered_sections_owned_witness:
  "\<exists>s dr air. render_wired home_say s (home_device 1) (Some home_caps) home_existing = Some dr \<and>
     d_sections (home_doc 1 [home_ap, home_mesh]) = d_sections (fst dr) @ air"
  using rendered_sections_owned [OF home_render_ap [unfolded home_render_def]] by blast

end
