(* ===== verification/RenderValid.thy ===== *)
theory RenderValid
  imports RenderClaims
begin

text \<open>A rendered document names every section once, so the reconciler never has to reject it.\<close>

section \<open>Names\<close>

lemma itoa_no_bar: "CHR ''_'' \<notin> set (itoa i)"
proof -
  have "CHR ''_'' \<notin> set (show_nat n)" for n
    using show_nat_digits [of n] by (auto simp: list.pred_set is_digit_def)
  then show ?thesis by (simp add: itoa_def)
qed

lemma id_radio_inj: "itoa i @ CHR ''_'' # r = itoa j @ CHR ''_'' # q \<longleftrightarrow> i = j \<and> r = q"
  using split_at_sep [OF itoa_no_bar itoa_no_bar] by (simp add: itoa_inj)

lemma iface_names:
  "iface_name i r = iface_name j q \<longleftrightarrow> i = j \<and> r = q"
  "uplink_iface_name i r = uplink_iface_name j q \<longleftrightarrow> i = j \<and> r = q"
  "mesh_iface_name i r = mesh_iface_name j q \<longleftrightarrow> i = j \<and> r = q"
  "iface_name i r \<noteq> uplink_iface_name j q" "iface_name i r \<noteq> mesh_iface_name j q"
  "uplink_iface_name i r \<noteq> mesh_iface_name j q"
  by (simp_all add: iface_name_def uplink_iface_name_def mesh_iface_name_def NamePrefix_def id_radio_inj)

section \<open>Radios\<close>

lemma check_targets_distinct:
  "check_targets i seen rs = None \<Longrightarrow>
     distinct (map radio_section rs) \<and> (\<forall>r\<in>set rs. map_of seen (radio_section r) = None)"
proof (induction i seen rs rule: check_targets.induct)
  case (2 i seen r rs)
  from "2.prems" have n: "map_of seen (radio_section r) = None"
    by (auto simp: Let_def split: if_splits option.splits)
  with 2 have "distinct (map radio_section rs) \<and>
      (\<forall>x\<in>set rs. map_of (put (radio_section r) i seen) (radio_section x) = None)"
    by (auto simp: Let_def split: if_splits)
  with n show ?case by (auto split: if_splits)
qed simp

lemma distinct_map_sort_key: "distinct (map f (sort_key k xs)) \<longleftrightarrow> distinct (map f xs)"
  by (simp add: distinct_map)

lemma band_map_values:
  "distinct (map snd out) \<Longrightarrow> distinct (map fst out) \<Longrightarrow> distinct (map radio_section rs) \<Longrightarrow>
   set (map snd out) \<inter> set (map radio_section rs) = {} \<Longrightarrow>
     distinct (map snd (band_map out rs)) \<and> distinct (map fst (band_map out rs))"
proof (induction out rs rule: band_map.induct)
  case (2 out r rs)
  then show ?case by (cases "radio_band r") (auto simp: has_key_iff)
qed simp

lemma map_of_snd_inj: "distinct (map snd m) \<Longrightarrow> map_of m a = Some v \<Longrightarrow> map_of m b = Some v \<Longrightarrow> a = b"
  unfolding distinct_map by (metis Pair_inject inj_onD map_of_SomeD snd_conv)

lemma radios_inj:
  assumes "validate_radio_targets c = None"
    and "map_of (radios_by_band c) a = Some r" and "map_of (radios_by_band c) b = Some r"
  shows "a = b"
proof -
  have "distinct (map radio_section (caps_radios c))"
    using check_targets_distinct assms(1) by (simp add: validate_radio_targets_def)
  then have "distinct (map snd (radios_by_band c))"
    using band_map_values [of "[]"] by (simp add: radios_by_band_def distinct_map_sort_key)
  from map_of_snd_inj [OF this assms(2,3)] show ?thesis .
qed

section \<open>Named growth\<close>

text \<open>Sections with distinct references from a set are appended.\<close>

definition adds_named :: "sec_ref set \<Rightarrow> draft \<Rightarrow> draft \<Rightarrow> bool" where
  "adds_named N dr dr' \<longleftrightarrow>
     (\<exists>new. d_sections (fst dr') = d_sections (fst dr) @ new \<and> distinct (map section_ref new) \<and>
       section_ref ` set new \<subseteq> N)"

lemma adds_named_same: "d_sections (fst dr') = d_sections (fst dr) \<Longrightarrow> adds_named N dr dr'"
  by (simp add: adds_named_def)

lemma adds_named_mono: "adds_named M dr dr' \<Longrightarrow> M \<subseteq> N \<Longrightarrow> adds_named N dr dr'"
  unfolding adds_named_def by blast

lemma adds_named_trans:
  assumes "adds_named M x y" and "adds_named N y z" and "M \<inter> N = {}"
  shows "adds_named (M \<union> N) x z"
proof -
  from assms(1,2) obtain a b where "d_sections (fst y) = d_sections (fst x) @ a" "d_sections (fst z) = d_sections (fst y) @ b"
    "distinct (map section_ref a)" "distinct (map section_ref b)" "section_ref ` set a \<subseteq> M" "section_ref ` set b \<subseteq> N"
    unfolding adds_named_def by blast
  with assms(3) show ?thesis
    unfolding adds_named_def by (intro exI [of _ "a @ b"]) auto
qed

lemma adds_named_foldl:
  assumes "\<And>x i. i \<in> set is \<Longrightarrow> adds_named (N i) (g x) (g (f x i))"
    and "distinct is" and "\<And>i j. i \<in> set is \<Longrightarrow> j \<in> set is \<Longrightarrow> i \<noteq> j \<Longrightarrow> N i \<inter> N j = {}"
  shows "adds_named (\<Union>i\<in>set is. N i) (g x) (g (foldl f x is))"
  using assms
proof (induction "is" arbitrary: x)
  case (Cons i "is")
  have "N i \<inter> (\<Union>j\<in>set is. N j) = {}" using Cons.prems(2,3) by fastforce
  with adds_named_trans [OF Cons.prems(1) Cons.IH] Cons.prems show ?case by simp
qed (simp add: adds_named_same)

lemma adds_named_report [simp]: "adds_named N dr (on_report f dr)"
  by (simp add: adds_named_same)

lemma adds_named_retain [simp]: "adds_named N dr (retain say ex name w dr)"
  by (auto simp: adds_named_def retain_def split: prod.splits)

lemma adds_named_put: "section_ref sec \<in> N \<Longrightarrow> adds_named N dr (put_section sec dr)"
  by (auto simp: adds_named_def put_section_def split: prod.splits)

lemma retain_sections [simp]: "d_sections (fst (retain say ex name w dr)) = d_sections (fst dr)"
  by (simp add: retain_def split: prod.splits)

lemma put_sections [simp]: "d_sections (fst (put_section sec dr)) = d_sections (fst dr) @ [sec]"
  by (simp add: put_section_def split: prod.splits)

lemma report_blind_fst [simp]: "fst (report_blind say ex dr) = fst dr"
  by (simp add: report_blind_def split: prod.splits)

section \<open>The wireless half names sections once\<close>

definition ap_names :: "int \<Rightarrow> sec_ref set" where
  "ap_names i = {(''wireless'', iface_name i r) |r. True}"

lemma band_named:
  "adds_named {(''wireless'', iface_name (w_id w) r) |r. map_of (radios_by_band c) band = Some r}
     (fst x) (fst (render_band say s c ex w x band))"
proof -
  obtain dr k where x: "x = (dr, k)" by fastforce
  obtain sec oms where r: "render_wifi_iface say s w (network_of s (w_network_id w)) (the (map_of (radios_by_band c) band)) = (sec, oms)"
    by fastforce
  have ref: "section_ref (fst (render_wifi_iface say s w net radio)) = (''wireless'', iface_name (w_id w) radio)" for net radio
    by (simp add: section_ref_def wifi_iface_shape)
  show ?thesis
    using r ref [of "network_of s (w_network_id w)" "the (map_of (radios_by_band c) band)"]
    by (auto simp: x render_band_def Let_def adds_named_same adds_named_def split: option.splits)
qed

lemma wlan_named:
  assumes "validate_radio_targets c = None" and "distinct (w_bands base)"
  shows "adds_named (ap_names (w_id base)) dr (render_wlan say s dev c ex dr base)"
proof -
  obtain w published where ov: "apply_overrides (s_overrides s) (d_id dev) base = (w, published)" by fastforce
  have sh: "w_id w = w_id base" "w_bands w = w_bands base"
    using fold_apply_one_shared [of "overrides_for (s_overrides s) (d_id dev) (w_id base)" "(base, w_enabled base)"] ov
    by (simp_all add: apply_overrides_def shared_part_def)
  let ?N = "\<lambda>band. {(''wireless'', iface_name (w_id w) r) |r. map_of (radios_by_band c) band = Some r}"
  have "adds_named (\<Union>b\<in>set (ordered_bands (w_bands w)). ?N b) (fst (dr, 0 :: nat))
      (fst (foldl (render_band say s c ex w) (dr, 0) (ordered_bands (w_bands w))))"
  proof (rule adds_named_foldl [where g = "fst :: draft \<times> nat \<Rightarrow> draft" and N = ?N and f = "render_band say s c ex w"])
    show "adds_named (?N b) (fst x) (fst (render_band say s c ex w x b))" for x b by (rule band_named)
    show "distinct (ordered_bands (w_bands w))" by (simp add: ordered_bands_def sh assms(2))
    show "?N a \<inter> ?N b = {}" if "a \<noteq> b" for a b
      using that radios_inj [OF assms(1)] by (auto simp: iface_names)
  qed
  then have on: "adds_named (ap_names (w_id base)) dr (fst (foldl (render_band say s c ex w) (dr, 0) (ordered_bands (w_bands w))))"
    unfolding fst_conv by (rule adds_named_mono) (auto simp: ap_names_def sh)
  have keep: "d_sections (fst (foldl (\<lambda>x band. case map_of (radios_by_band c) band of
       None \<Rightarrow> x | Some radio \<Rightarrow> retain say ex (iface_name (w_id w) radio) (Keep KeptWlan) x) dr' bands)) = d_sections (fst dr')" for dr' bands
    by (induction bands arbitrary: dr') (auto split: option.splits)
  show ?thesis
  proof (cases "published \<and> network_attachment_available (fst dr) (network_of s (w_network_id w))")
    case True
    obtain dr1 k where f: "foldl (render_band say s c ex w) (dr, 0) (ordered_bands (w_bands w)) = (dr1, k)" by fastforce
    from on f have "adds_named (ap_names (w_id base)) dr dr1" by simp
    then show ?thesis
      using True by (simp add: render_wlan_def ov f Let_def) (auto simp: adds_named_def)
  next
    case False
    then show ?thesis by (auto simp: render_wlan_def ov Let_def keep intro!: adds_named_same)
  qed
qed

definition uplink_names :: "sec_ref set" where
  "uplink_names = {(''wireless'', uplink_iface_name i r) |i r. True}"

lemma uplink_named: "adds_named uplink_names dr (render_device_uplink say s dev c ex dr)"
  by (auto simp: render_device_uplink_def Let_def adds_named_same adds_named_def section_ref_def uplink_names_def
      split: option.splits prod.splits dest!: render_uplink_section)

definition mesh_names :: "int \<Rightarrow> sec_ref set" where
  "mesh_names i = {(''wireless'', mesh_iface_name i r) |r. True}"

lemma mesh_named: "adds_named (mesh_names (m_id m)) dr (render_one_mesh say s c ex dr m)"
  by (auto simp: render_one_mesh_def Let_def adds_named_same adds_named_def section_ref_def mesh_names_def
      split: option.splits prod.splits dest!: render_mesh_section)

lemma wireless_named:
  assumes "validate_radio_targets c = None" and "distinct (map w_id (s_wlans s))"
    and "\<forall>w\<in>set (s_wlans s). distinct (w_bands w)" and "distinct (map m_id (s_meshes s))"
  shows "adds_named {r. fst r = ''wireless''} dr (render_wireless say s dev c ex dr)"
proof -
  define dr1 where "dr1 = (if s_wlans s \<noteq> [] \<and> wlans_for s (d_id dev) = []
     then on_report (omit [noted say ''(none)'' KindUnclassified (Air NoWlanTargets)]) dr else dr)"
  define dr2 where "dr2 = (if radios_unknown c then ((fst dr1)\<lparr>d_blind := d_blind (fst dr1) @ [''wireless'']\<rparr>, snd dr1) else dr1)"
  let ?W = "\<Union>w\<in>set (wlans_for s (d_id dev)). ap_names (w_id w)"
  let ?M = "\<Union>m\<in>set (meshes_for s (d_id dev)). mesh_names (m_id m)"
  have inj: "distinct xs \<Longrightarrow> inj_on f (set ys) \<Longrightarrow> set xs \<subseteq> set ys \<Longrightarrow> inj_on f (set xs)" for f :: "'x \<Rightarrow> int" and xs ys
    by (rule inj_on_subset)
  have wsub: "set (wlans_for s (d_id dev)) \<subseteq> set (s_wlans s)" "distinct (wlans_for s (d_id dev))"
    using assms(2) by (auto simp: wlans_for_def distinct_map)
  have msub: "set (meshes_for s (d_id dev)) \<subseteq> set (s_meshes s)" "distinct (meshes_for s (d_id dev))"
    using assms(4) by (auto simp: meshes_for_def distinct_map)
  have "adds_named ?W dr2 (foldl (render_wlan say s dev c ex) dr2 (wlans_for s (d_id dev)))"
  proof (rule adds_named_foldl [where g = id, simplified])
    show "adds_named (ap_names (w_id w)) x (render_wlan say s dev c ex x w)" if "w \<in> set (wlans_for s (d_id dev))" for x w
      using that wsub assms(3) by (intro wlan_named [OF assms(1)]) blast
    show "ap_names (w_id v) \<inter> ap_names (w_id w) = {}"
      if "v \<in> set (wlans_for s (d_id dev))" "w \<in> set (wlans_for s (d_id dev))" "v \<noteq> w" for v w
      using that wsub assms(2) by (auto simp: ap_names_def iface_names distinct_map inj_on_def subset_iff)
  qed (rule wsub)
  moreover have "?W \<inter> uplink_names = {}"
    by (auto simp: ap_names_def uplink_names_def iface_names)
  ultimately have u: "adds_named (?W \<union> uplink_names) dr2 (render_device_uplink say s dev c ex (foldl (render_wlan say s dev c ex) dr2 (wlans_for s (d_id dev))))"
    by (rule adds_named_trans [OF _ uplink_named])
  have m: "adds_named ?M x (foldl (render_one_mesh say s c ex) x (meshes_for s (d_id dev)))" for x
  proof (rule adds_named_foldl [where g = id, simplified])
    show "adds_named (mesh_names (m_id m)) x (render_one_mesh say s c ex x m)" for x m by (rule mesh_named)
    show "mesh_names (m_id v) \<inter> mesh_names (m_id w) = {}"
      if "v \<in> set (meshes_for s (d_id dev))" "w \<in> set (meshes_for s (d_id dev))" "v \<noteq> w" for v w
      using that msub assms(4) by (auto simp: mesh_names_def iface_names distinct_map inj_on_def subset_iff)
  qed (rule msub)
  have "(?W \<union> uplink_names) \<inter> ?M = {}"
    by (auto simp: ap_names_def uplink_names_def mesh_names_def iface_names iface_names(5,6) [symmetric])
  with adds_named_trans [OF u m]
  have all: "adds_named (?W \<union> uplink_names \<union> ?M) dr2 (foldl (render_one_mesh say s c ex)
      (render_device_uplink say s dev c ex (foldl (render_wlan say s dev c ex) dr2 (wlans_for s (d_id dev)))) (meshes_for s (d_id dev)))"
    by blast
  have "d_sections (fst dr2) = d_sections (fst dr)" by (simp add: dr1_def dr2_def)
  moreover have "adds_named {r. fst r = ''wireless''} dr2 (foldl (render_one_mesh say s c ex)
      (render_device_uplink say s dev c ex (foldl (render_wlan say s dev c ex) dr2 (wlans_for s (d_id dev)))) (meshes_for s (d_id dev)))"
    by (rule adds_named_mono [OF all]) (auto simp: ap_names_def uplink_names_def mesh_names_def)
  ultimately show ?thesis
    unfolding render_wireless_def Let_def dr1_def [symmetric] dr2_def [symmetric]
    by (simp add: adds_named_def)
qed

section \<open>The wired half names sections once\<close>

definition named_once :: "draft \<Rightarrow> bool" where
  "named_once dr \<longleftrightarrow> distinct (map section_ref (d_sections (fst dr)))"

lemma once_owned: "named_once dr \<Longrightarrow> named_once (add_owned say ex sec dr)"
  by (force simp: named_once_def add_owned_def list_ex_iff section_ref_def split: prod.splits)

lemma once_report [simp]: "named_once (on_report f dr) = named_once dr"
  by (simp add: named_once_def)

lemma once_patch [simp]: "named_once (add_patch say p dr) = named_once dr"
  by (simp add: named_once_def add_patch_def split: prod.splits)

lemma once_foldl: "(\<And>x i. named_once x \<Longrightarrow> named_once (f x i)) \<Longrightarrow> named_once x \<Longrightarrow> named_once (foldl f x is)"
  by (induction "is" arbitrary: x) auto

lemma once_all: "named_once dr \<Longrightarrow> named_once (add_all say ex secs dr)"
  unfolding add_all_def by (rule once_foldl) (rule once_owned)

lemma once_network_section: "named_once dr \<Longrightarrow> named_once (add_network_section say ex n m dr sec)"
  by (simp add: add_network_section_def Let_def once_owned)

lemma once_management: "named_once dr \<Longrightarrow> named_once (add_management say dev ex n dr)"
  by (auto simp: add_management_def Let_def split: prod.splits intro!: once_foldl)

lemma once_networks: "named_once dr \<Longrightarrow> named_once (fst (add_networks say dev c ex ns dr))"
proof (induction ns arbitrary: dr rule: rev_induct)
  case (snoc n ns)
  then have *: "named_once (fst (add_networks say dev c ex ns dr))" .
  obtain d ms where d: "add_networks say dev c ex ns dr = (d, ms)" by fastforce
  with * show ?case
    by (auto simp: add_networks_def add_network_def Let_def split: prod.splits
        intro!: once_foldl once_network_section once_management)
qed (simp add: add_networks_def)

lemma once_wired: "render_wired say s dev c ex = Some dr \<Longrightarrow> named_once dr"
  by (auto simp: render_wired_stages zone_draft_def network_draft_def
      intro!: once_all once_networks) (simp add: named_once_def)

text \<open>The parts of the site the wireless half reads are not changed by validation.\<close>

lemma validate_site_frame:
  assumes "validate_site s0 = ([], s)"
  shows "s_wlans s = s_wlans s0" "s_meshes s = s_meshes s0" "s_uplinks s = s_uplinks s0" "s_networks s = s_networks s0"
    "s_groups s = s_groups s0" "s_overrides s = s_overrides s0" "s_policy_clients s = s_policy_clients s0" "s_zones s = s_zones s0"
    "s_uuid s = s_uuid s0" "validate_policies s0 = ([], s)"
proof -
  from assms show v: "validate_policies s0 = ([], s)" by (auto simp: validate_site_def Let_def split: prod.splits)
  from v obtain sets ps where "s = s0\<lparr>s_policy_sets := sets, s_policies := ps\<rparr>" by (rule validate_policies_ok)
  then show "s_wlans s = s_wlans s0" "s_meshes s = s_meshes s0" "s_uplinks s = s_uplinks s0" "s_networks s = s_networks s0"
    "s_groups s = s_groups s0" "s_overrides s = s_overrides s0" "s_policy_clients s = s_policy_clients s0" "s_zones s = s_zones s0"
    "s_uuid s = s_uuid s0"
    by simp_all
qed

section \<open>Properties\<close>

text \<open>
  C24. A render that succeeds produces a document the reconciler accepts: no section is named
  twice, whatever the networks, zones, policies and clients of the site are called, because the
  wired half refuses a second section of the same name and the wireless names keep WLAN, uplink,
  mesh and radio apart. WLAN and mesh ids are database keys; a WLAN lists a band once.
\<close>

theorem rendered_document_valid:
  assumes "render say s0 dev c ex = Inr (d, rep)"
    and "distinct (map w_id (s_wlans s0))" and "\<forall>w\<in>set (s_wlans s0). distinct (w_bands w)"
    and "distinct (map m_id (s_meshes s0))"
  shows "doc_validate d = None"
proof -
  from assms(1) obtain s dr where v: "validate_site s0 = ([], s)" and w: "render_wired say s dev c ex = Some dr"
    and air: "functions_wireless (effective_functions dev) \<Longrightarrow>
       validate_radio_targets c = None \<and> (d, rep) = render_wireless say s dev c ex dr"
    and wire: "\<not> functions_wireless (effective_functions dev) \<Longrightarrow> d = fst dr \<and> rp_conflicts rep = rp_conflicts (snd dr)"
    by (rule render_parts) blast
  note once = once_wired [OF w, unfolded named_once_def]
  show ?thesis
  proof (cases "functions_wireless (effective_functions dev)")
    case False
    with wire once show ?thesis by (simp add: doc_validate_None)
  next
    case True
    from air [OF True] have t: "validate_radio_targets c = None" and d: "d = fst (render_wireless say s dev c ex dr)"
      by (auto dest: arg_cong [where f = fst])
    have "adds_named {r. fst r = ''wireless''} dr (render_wireless say s dev c ex dr)"
      using assms(2-4) validate_site_frame [OF v] by (intro wireless_named [OF t]) auto
    then obtain new where new: "d_sections d = d_sections (fst dr) @ new" "distinct (map section_ref new)"
      "section_ref ` set new \<subseteq> {r. fst r = ''wireless''}" by (auto simp: adds_named_def d)
    have "fst (section_ref x) \<noteq> ''wireless''" if "x \<in> set (d_sections (fst dr))" for x
      using adds_subset [OF adds_wired [OF w]] that wired_marked [of x say s dev c ex]
      by (auto simp: wired_from_def marked_def section_ref_def)
    with new once show ?thesis by (auto simp: doc_validate_None)
  qed
qed


theorem rendered_document_valid_witness: "doc_validate home_ap_doc = None"
proof (rule rendered_document_valid [OF home_render_ap [unfolded home_render_def]])
  show "distinct (map w_id (s_wlans whole_site))" "\<forall>w\<in>set (s_wlans whole_site). distinct (w_bands w)"
    "distinct (map m_id (s_meshes whole_site))" by code_simp+
qed

end
