(* ===== verification/RenderSafety.thy ===== *)
theory RenderSafety
  imports RenderValid
begin

text \<open>
  What a render never does to a device: switch VLAN filtering on, let an access point serve
  addresses, publish what an override took off, or make pruning delete what it could not see.
\<close>

section \<open>Types of sections\<close>

lemma network_types:
  "x \<in> set (fst (render_network say n dev c ex)) \<Longrightarrow>
     \<exists>r. c = Some r \<and> active n \<and> po_bridge (rg_ports r) \<noteq> [] \<and> bridge_is_vlan_aware c ex \<and>
       (x = bridge_vlan_section r n \<or>
        \<not> functions_route (effective_functions dev) \<and> x = unmanaged_interface r n \<or>
        functions_route (effective_functions dev) \<and>
          ((\<exists>ip m. x = static_interface r n ip m) \<or> x = dhcp_section n))"
  by (auto simp: render_network_def render_routed_def active_def Let_def split: if_splits option.splits prod.splits)

lemma zone_parts_types:
  "sc_type (zone_section src fw ifs) = ''zone''" "sc_type (forwarding_section src fw dest) = ''forwarding''"
  "x \<in> set (dhcp_rules src fw) \<Longrightarrow> sc_type x = ''rule''" "x \<in> set (ipv6_rules src fw) \<Longrightarrow> sc_type x = ''rule''"
  by (auto simp: zone_section_def forwarding_section_def dhcp_rules_def ipv6_rules_def input_rule_def)

lemma zone_cases:
  assumes "x \<in> set (fst (render_zone say ps ex fw ms))"
  obtains source ifs where "x = zone_section source fw ifs"
  | source where "x \<in> set (dhcp_rules source fw)"
  | source where "x \<in> set (ipv6_rules source fw)"
  | source dest where "x = forwarding_section source fw dest"
  using assms by (auto simp: render_zone_def Let_def split: if_splits option.splits)

lemma zone_types:
  assumes "x \<in> set (fst (render_zones say ms ps ex))"
  shows "sc_type x \<in> {''zone'', ''rule'', ''forwarding''}"
proof -
  from assms obtain fw ms' where "x \<in> set (fst (render_zone say ps ex fw ms'))"
    by (auto simp: render_zones_def Let_def)
  then show ?thesis by (rule zone_cases) (simp_all add: zone_parts_types)
qed

lemma policy_types:
  assumes "render_policies say s dev c ex desired = Some r" and "x \<in> set (fst r)"
  shows "sc_type x \<in> {''rule'', ''redirect'', ''route'', ''host''}"
proof (cases "functions_route (effective_functions dev) \<and> snd (policy_source_mac_expansion s)")
  case False
  then have "fst r = []" using assms(1) by (auto simp: render_policies_def nothing_def split: if_splits)
  with assms(2) show ?thesis by simp
next
  case True
  then obtain parts where m: "map (render_policy say s (rendered_zones desired) desired) (sorted_policies (s_policies s)) = map Some parts"
    and f: "fst r = concat (map fst parts) @ concat (map (fst \<circ>
       render_client say s (rendered_zones desired) (rendered_pools desired) (active_zone_names s)) (s_policy_clients s))"
    using render_policies_parts [OF assms(1)] by metis
  from f assms(2) consider q where "q \<in> set parts" "x \<in> set (fst q)"
    | cl where "x \<in> set (fst (render_client say s (rendered_zones desired) (rendered_pools desired) (active_zone_names s) cl))"
    by auto
  then show ?thesis
  proof cases
    case 1
    from 1(1) m obtain p where "render_policy say s (rendered_zones desired) desired p = Some q"
      by (metis (no_types, lifting) image_iff list.set_map)
    then show ?thesis
      by (rule policy_section_cases [OF _ 1(2)])
        (auto dest!: firewall_policy_section forward_policy_section route_policy_section
          simp: firewall_rule_section_def port_forward_section_def static_route_section_def case_prod_unfold Let_def)
  next
    case 2
    then show ?thesis
      by (auto simp: render_client_def plus_def nothing_def render_block_def render_fixed_def client_block_section_def
          fixed_host_section_def split: sum.splits if_splits option.splits)
  qed
qed

lemma air_types: "air_from say s dev c ex x \<Longrightarrow> sc_type x = ''wifi-iface''"
  unfolding air_from_def ap_from_def uplink_from_def mesh_from_def
  using wifi_iface_shape(2) render_uplink_section render_mesh_section by blast

lemma wired_bridge_vlan:
  assumes "x \<in> wired_sections say s dev c ex" and "sc_type x = ''bridge-vlan'' \<or> sc_type x = ''interface'' \<or> sc_type x = ''dhcp''"
  shows "\<exists>n\<in>set (s_networks s). x \<in> set (fst (render_network say n dev c ex))"
  using assms zone_types [of x say] policy_types
  by (fastforce simp: wired_sections_def zones_of_def policy_parts_def network_sections_def split: option.splits)

section \<open>Folds that keep a part of the draft\<close>

lemma foldl_keeps: "(\<And>s x. g (f s x) = g s) \<Longrightarrow> g (foldl f s xs) = g s"
  by (induction xs arbitrary: s) simp_all

definition patches_of :: "draft \<Rightarrow> patch list" where
  "patches_of dr = d_patches (fst dr)"

lemma patches_steps [simp]:
  "patches_of (on_report f dr) = patches_of dr" "patches_of (retain say ex name w dr) = patches_of dr"
  "patches_of (put_section sec dr) = patches_of dr" "patches_of (add_owned say ex sec dr) = patches_of dr"
  "patches_of (report_blind say ex dr) = patches_of dr" "patches_of (warn_all ws dr) = patches_of dr"
  "patches_of (d\<lparr>d_blind := bs\<rparr>, rep) = d_patches d"
  by (simp_all add: patches_of_def retain_def put_section_def add_owned_def split: prod.splits)

lemma patches_band: "patches_of (fst (render_band say s c ex w x b)) = patches_of (fst x)"
  by (auto simp: render_band_def Let_def split: prod.splits option.splits)

lemma patches_wlan: "patches_of (render_wlan say s dev c ex dr base) = patches_of dr"
proof -
  have f: "patches_of (fst (foldl (render_band say s c ex w) x bs)) = patches_of (fst x)" for w x bs
    by (rule foldl_keeps [where g = "\<lambda>x. patches_of (fst x)"]) (rule patches_band)
  have k: "patches_of (foldl (\<lambda>x band. case map_of (radios_by_band c) band of None \<Rightarrow> x
      | Some radio \<Rightarrow> retain say ex (nm radio) why x) dr' bs) = patches_of dr'" for nm why dr' bs
    by (rule foldl_keeps) (simp split: option.splits)
  obtain w p where o: "apply_overrides (s_overrides s) (d_id dev) base = (w, p)" by fastforce
  obtain d1 k1 where b: "foldl (render_band say s c ex w) (dr, 0) (ordered_bands (w_bands w)) = (d1, k1)" by fastforce
  from f [of w "(dr, 0)" "ordered_bands (w_bands w)"] b have "patches_of d1 = patches_of dr" by simp
  then show ?thesis by (simp add: render_wlan_def o b k Let_def)
qed

lemma patches_wireless: "patches_of (render_wireless say s dev c ex dr) = patches_of dr"
proof -
  have w: "patches_of (foldl (render_wlan say s dev c ex) dr' ws) = patches_of dr'" for dr' ws
    by (rule foldl_keeps) (rule patches_wlan)
  have u: "patches_of (render_device_uplink say s dev c ex dr') = patches_of dr'" for dr'
    by (simp add: render_device_uplink_def Let_def split: option.splits prod.splits)
  have m: "patches_of (foldl (render_one_mesh say s c ex) dr' ms) = patches_of dr'" for dr' ms
    by (rule foldl_keeps) (simp add: render_one_mesh_def Let_def split: option.splits prod.splits)
  show ?thesis by (simp add: render_wireless_def w u m Let_def) (simp add: patches_of_def)
qed

lemma patches_all: "patches_of (add_all say ex secs dr) = patches_of dr"
  unfolding add_all_def by (rule foldl_keeps) simp

lemma patches_networks:
  assumes "\<not> functions_route (effective_functions dev)"
  shows "patches_of (fst (add_networks say dev c ex ns dr)) = patches_of dr"
proof -
  have "patches_of (fst (add_network say dev c ex n x)) = patches_of (fst x)" for n x
    using assms by (auto simp: add_network_def add_management_def add_network_section_def Let_def
        intro!: foldl_keeps split: prod.splits)
  then show ?thesis
    unfolding add_networks_def by (subst foldl_keeps [where g = "\<lambda>x. patches_of (fst x)"]) simp_all
qed

section \<open>What a render could not see\<close>

text \<open>Blind configs and retained sections only accumulate.\<close>

definition unseen_le :: "draft \<Rightarrow> draft \<Rightarrow> bool" where
  "unseen_le x y \<longleftrightarrow> set (d_blind (fst x)) \<subseteq> set (d_blind (fst y)) \<and> set (d_retain (fst x)) \<subseteq> set (d_retain (fst y))"

interpretation unseen: growing unseen_le
  by unfold_locales (auto simp: unseen_le_def)

lemma unseen_report [simp]: "unseen_le x (on_report f y) = unseen_le x y" "unseen_le (on_report f x) y = unseen_le x y"
  by (simp_all add: unseen_le_def)

lemma unseen_after:
  "unseen_le x y \<Longrightarrow> unseen_le x (retain say ex name w y)" "unseen_le x y \<Longrightarrow> unseen_le x (put_section sec y)"
  "unseen_le x y \<Longrightarrow> unseen_le x (add_owned say ex sec y)" "unseen_le x y \<Longrightarrow> unseen_le x (add_patch say p y)"
  "unseen_le x y \<Longrightarrow> unseen_le x (report_blind say ex y)" "unseen_le x y \<Longrightarrow> unseen_le x (warn_all ws y)"
  by (auto simp: unseen_le_def retain_def put_section_def add_owned_def add_patch_def split: prod.splits)

lemmas unseen_intros = unseen_after unseen.le_refl

lemma unseen_fold: "(\<And>z i. unseen_le z (f z i)) \<Longrightarrow> unseen_le x y \<Longrightarrow> unseen_le x (foldl f y is)"
  by (rule unseen.le_trans [OF _ unseen.foldl_le])

lemma unseen_all: "unseen_le x y \<Longrightarrow> unseen_le x (add_all say ex secs y)"
  unfolding add_all_def by (rule unseen_fold) (intro unseen_intros)

lemma unseen_network: "unseen_le (fst x) (fst (add_network say dev c ex n x))"
proof -
  have s: "unseen_le dr (add_network_section say ex n m dr sec)" for m dr sec
    by (auto simp: add_network_section_def Let_def intro!: unseen_intros)
  have m: "unseen_le dr (add_management say dev ex n dr)" for dr
    by (auto simp: add_management_def Let_def split: prod.splits intro!: unseen_fold unseen_intros)
  obtain dr ms secs oms mem where "x = (dr, ms)" "render_network say n dev c ex = (secs, oms, mem)" by (metis prod_cases3 surj_pair)
  then show ?thesis
    by (simp add: add_network_def Let_def) (rule unseen_fold [OF s m])
qed

lemma unseen_wired:
  assumes "render_wired say s dev c ex = Some dr"
  shows "unseen_le (start_doc s dev c, blank_report) dr"
proof -
  have "unseen_le dr' (fst (add_networks say dev c ex ns dr'))" for ns dr'
    unfolding add_networks_def
    by (induction ns rule: rev_induct) (auto intro: unseen.le_refl unseen.le_trans [OF _ unseen_network])
  then have "unseen_le (start_doc s dev c, blank_report) (zone_draft say s dev c ex)"
    unfolding zone_draft_def network_draft_def by (intro unseen_all) simp
  then show ?thesis
    using assms by (auto simp: render_wired_stages intro!: unseen_all)
qed

lemma unseen_wlan: "unseen_le dr (render_wlan say s dev c ex dr base)"
proof -
  have b: "unseen_le (fst x) (fst (render_band say s c ex w x b))" for w x b
    by (auto simp: render_band_def Let_def split: prod.splits option.splits intro!: unseen_intros)
  have f: "unseen_le (fst x) (fst (foldl (render_band say s c ex w) x bs))" for w x bs
  proof (induction bs arbitrary: x)
    case (Cons a bs)
    from unseen.le_trans [OF b Cons] show ?case by simp
  qed (simp add: unseen.le_refl)
  obtain w p where o: "apply_overrides (s_overrides s) (d_id dev) base = (w, p)" by fastforce
  obtain d1 k1 where b: "foldl (render_band say s c ex w) (dr, 0) (ordered_bands (w_bands w)) = (d1, k1)" by fastforce
  from f [of "(dr, 0)" w "ordered_bands (w_bands w)"] b have "unseen_le dr d1" by simp
  then show ?thesis
    by (auto simp: render_wlan_def o b Let_def intro!: unseen_fold unseen_intros split: option.splits)
qed

lemma unseen_uplink: "unseen_le dr (render_device_uplink say s dev c ex dr)"
  by (auto simp: render_device_uplink_def Let_def split: option.splits prod.splits intro!: unseen_intros)

lemma unseen_mesh: "unseen_le dr (render_one_mesh say s c ex dr m)"
  by (auto simp: render_one_mesh_def Let_def split: option.splits prod.splits intro!: unseen_intros)

text \<open>The last steps of the wireless half, after the uplink and the meshes.\<close>

lemma wireless_stages:
  obtains dr2 where "set (d_blind (fst dr)) \<subseteq> set (d_blind (fst dr2))" "set (d_retain (fst dr)) \<subseteq> set (d_retain (fst dr2))"
    "radios_unknown c \<Longrightarrow> ''wireless'' \<in> set (d_blind (fst dr2))"
    "d_sections (fst dr2) = d_sections (fst dr)"
    "unseen_le (foldl (render_one_mesh say s c ex) (render_device_uplink say s dev c ex
       (foldl (render_wlan say s dev c ex) dr2 (wlans_for s (d_id dev)))) (meshes_for s (d_id dev)))
       (render_wireless say s dev c ex dr)"
proof -
  define dr1 where "dr1 = (if s_wlans s \<noteq> [] \<and> wlans_for s (d_id dev) = []
     then on_report (omit [noted say ''(none)'' KindUnclassified (Air NoWlanTargets)]) dr else dr)"
  define dr2 where "dr2 = (if radios_unknown c then ((fst dr1)\<lparr>d_blind := d_blind (fst dr1) @ [''wireless'']\<rparr>, snd dr1) else dr1)"
  show ?thesis
  proof (rule that [of dr2])
    show "set (d_blind (fst dr)) \<subseteq> set (d_blind (fst dr2))" "set (d_retain (fst dr)) \<subseteq> set (d_retain (fst dr2))"
      "d_sections (fst dr2) = d_sections (fst dr)" "radios_unknown c \<Longrightarrow> ''wireless'' \<in> set (d_blind (fst dr2))"
      by (auto simp: dr1_def dr2_def)
    show "unseen_le (foldl (render_one_mesh say s c ex) (render_device_uplink say s dev c ex
       (foldl (render_wlan say s dev c ex) dr2 (wlans_for s (d_id dev)))) (meshes_for s (d_id dev)))
       (render_wireless say s dev c ex dr)"
      unfolding render_wireless_def Let_def dr1_def [symmetric] dr2_def [symmetric]
      by (auto intro!: unseen_intros)
  qed
qed

lemma unseen_retain: "unseen_le x y \<Longrightarrow> r \<in> set (d_retain (fst x)) \<Longrightarrow> r \<in> set (d_retain (fst y))"
  by (auto simp: unseen_le_def)

lemma retain_keeps: "(''wireless'', name) \<in> set (d_retain (fst (retain say ex name w dr)))"
  by (simp add: retain_def split: prod.splits)

lemma same_site:
  assumes "validate_site s0 = ([], s)"
  shows "network_of s i = network_of s0 i" "uplink_for s i = uplink_for s0 i" "wlan_by_id s i = wlan_by_id s0 i"
    "meshes_for s i = meshes_for s0 i" "wants_vlan s = wants_vlan s0"
  by (simp_all add: network_of_def network_by_id_def uplink_for_def wlan_by_id_def meshes_for_def group_by_id_def
      wants_vlan_def validate_site_frame [OF assms])


text \<open>
  Whether a network is there to attach to is settled by the wired half; when it is not there, the
  section on the air is kept if the wired half was blind, and otherwise if its own check gave no
  answer.
\<close>

definition kept_unseen :: "doc \<Rightarrow> caps \<Rightarrow> string \<Rightarrow> network \<Rightarrow> bool" where
  "kept_unseen d c feature n \<longleftrightarrow>
     (if network_attachment_available d n then undetermined c feature else blind d ''network'')"

lemma uplink_retained:
  assumes "uplink_for s (d_id dev) = Some u" "wlan_by_id s (u_wlan_id u) = Some w"
    "map_of (radios_by_band c) (u_band u) = Some radio"
    and k: "kept_unseen (fst dr) c FeatWirelessUplink (network_of s (w_network_id w))"
  shows "(''wireless'', uplink_iface_name (u_id u) radio) \<in> set (d_retain (fst (render_device_uplink say s dev c ex dr)))"
proof (cases "network_attachment_available (fst dr) (network_of s (w_network_id w))")
  case True
  then have "uplink_gate c \<noteq> None"
    using k by (auto simp: kept_unseen_def undetermined_def uplink_gate_def caps_state_def decided_def Let_def split: option.splits)
  then obtain why where "render_uplink say u w net radio c = (None, [noted say (w_ssid w) (gate_kind c FeatWirelessUplink) (Gate why)])" for net
    by (auto simp: render_uplink_def)
  then show ?thesis
    using assms True retain_keeps by (simp add: render_device_uplink_def kept_unseen_def Let_def)
next
  case False
  then show ?thesis using assms retain_keeps by (simp add: render_device_uplink_def kept_unseen_def Let_def)
qed

lemma mesh_retained:
  assumes "map_of (radios_by_band c) (m_band m) = Some radio"
    and k: "kept_unseen (fst dr) c FeatMesh (network_of s (m_network_id m))"
    and "\<not> foreign_named ex ''wireless'' (mesh_iface_name (m_id m) radio)"
  shows "(''wireless'', mesh_iface_name (m_id m) radio) \<in> set (d_retain (fst (render_one_mesh say s c ex dr m)))"
proof (cases "network_attachment_available (fst dr) (network_of s (m_network_id m))")
  case True
  then have "mesh_gate c \<noteq> None"
    using k by (auto simp: kept_unseen_def undetermined_def mesh_gate_def caps_state_def decided_def Let_def split: option.splits)
  then obtain why where "render_mesh say m net radio c = (None, [noted say (m_mesh_id m) (gate_kind c FeatMesh) (Gate why)])" for net
    by (auto simp: render_mesh_def)
  then show ?thesis
    using assms True retain_keeps by (simp add: render_one_mesh_def kept_unseen_def Let_def)
next
  case False
  then show ?thesis using assms retain_keeps by (simp add: render_one_mesh_def kept_unseen_def Let_def)
qed

text \<open>The steps on the air add no wired section, so they do not change what is there to attach to.\<close>

lemma attachable_adds:
  assumes "adds (air_from say s dev c ex) x y"
  shows "network_attachment_available (fst y) n = network_attachment_available (fst x) n"
proof -
  from assms obtain new where "d_sections (fst y) = d_sections (fst x) @ new" "\<forall>z\<in>set new. air_from say s dev c ex z"
    by (auto simp: adds_def)
  moreover from this(2) have "\<forall>z\<in>set new. sc_config z = ''wireless''"
    using air_marked [of say s dev c ex] by (auto simp: marked_def)
  ultimately show ?thesis by (auto simp: network_attachment_available_def list_ex_iff)
qed

lemma air_steps:
  "set ws \<subseteq> set (wlans_for s (d_id dev)) \<Longrightarrow> adds (air_from say s dev c ex) dr (foldl (render_wlan say s dev c ex) dr ws)"
  "adds (air_from say s dev c ex) dr (render_device_uplink say s dev c ex dr)"
  "set ms \<subseteq> set (meshes_for s (d_id dev)) \<Longrightarrow> adds (air_from say s dev c ex) dr (foldl (render_one_mesh say s c ex) dr ms)"
proof -
  show "set ws \<subseteq> set (wlans_for s (d_id dev)) \<Longrightarrow> adds (air_from say s dev c ex) dr (foldl (render_wlan say s dev c ex) dr ws)"
    by (rule adding.foldl_le, rule adds_mono [OF adds_wlan]) (auto simp: air_from_def)
  show "adds (air_from say s dev c ex) dr (render_device_uplink say s dev c ex dr)"
    by (rule adds_mono [OF adds_device_uplink]) (simp add: air_from_def)
  show "set ms \<subseteq> set (meshes_for s (d_id dev)) \<Longrightarrow> adds (air_from say s dev c ex) dr (foldl (render_one_mesh say s c ex) dr ms)"
    by (rule adding.foldl_le, rule adds_mono [OF adds_mesh]) (auto simp: air_from_def)
qed

lemma adds_same_sections: "adds P x y \<Longrightarrow> d_sections (fst z) = d_sections (fst x) \<Longrightarrow>
    network_attachment_available (fst z) n = network_attachment_available (fst x) n"
  by (simp add: network_attachment_available_def)

text \<open>The port layout of the device is not known, so the wired half is blind when a VLAN is wanted.\<close>

definition ports_unread :: "caps \<Rightarrow> bool" where
  "ports_unread c \<longleftrightarrow> (case c of None \<Rightarrow> True | Some r \<Rightarrow> po_bridge (rg_ports r) = [])"

section \<open>Properties\<close>

text \<open>
  C28. VLAN filtering is never switched on by a render. A bridge VLAN is rendered only for an
  active network, only when the device reported its bridge and ports, and only on a bridge that
  already has a VLAN section of its own; every LAN port carries it tagged, as list members.
\<close>

theorem vlan_only_on_aware_bridge:
  assumes "render say s0 dev c ex = Inr (d, rep)" and "x \<in> set (d_sections d)" and "sc_type x = ''bridge-vlan''"
  shows "\<exists>r n. c = Some r \<and> n \<in> set (s_networks s0) \<and> active n \<and> po_bridge (rg_ports r) \<noteq> [] \<and> po_lan (rg_ports r) \<noteq> [] \<and>
    get_str (sc_values x) ''device'' = po_bridge (rg_ports r) \<and> get_str (sc_values x) ''vlan'' = itoa (n_vlan n) \<and>
    map_of (sc_lists x) ''ports'' = Some (map (\<lambda>p. p @ '':t'') (po_lan (rg_ports r))) \<and>
    (\<exists>name vals. (name, vals) \<in> set (in_config ex ''network'') \<and> get_str vals ''.type'' = ''bridge-vlan'' \<and>
       get_str vals ''device'' = po_bridge (rg_ports r))"
  using assms(1,2)
proof (rule render_origin)
  fix s assume v: "validate_site s0 = ([], s)" and "wired_from ex (wired_sections say s dev c ex) x"
  then obtain n where n: "n \<in> set (s_networks s0)" "x \<in> set (fst (render_network say n dev c ex))"
    using wired_bridge_vlan [of x say s dev c ex] assms(3) by (auto simp: wired_from_def validate_site_frame(4) [OF v])
  from network_types [OF n(2)] assms(3) obtain r where r: "c = Some r" "active n" "po_bridge (rg_ports r) \<noteq> []"
    "bridge_is_vlan_aware c ex" "x = bridge_vlan_section r n"
    by (auto simp: unmanaged_interface_def static_interface_def dhcp_section_def Let_def)
  moreover have "po_lan (rg_ports r) \<noteq> []" using n(2) r(1) by (auto simp: render_network_def split: if_splits)
  ultimately show ?thesis using n(1)
    by (force simp: bridge_vlan_section_def own_section_def get_str_def bridge_is_vlan_aware_def list_ex_iff)
next
  fix s assume "air_from say s dev c ex x"
  then show ?thesis using air_types [of say s dev c ex x] assms(3) by simp
qed

theorem vlan_only_on_aware_bridge_witness:
  "\<exists>n\<in>set (s_networks whole_site). active n \<and> get_str (sc_values (hd (home_net ''20'' ''iot''))) ''vlan'' = itoa (n_vlan n)"
proof -
  have "hd (home_net ''20'' ''iot'') \<in> set (d_sections home_ap_doc)" "sc_type (hd (home_net ''20'' ''iot'')) = ''bridge-vlan''"
    by (simp_all add: home_doc_def home_net_def)
  from vlan_only_on_aware_bridge [OF home_render_ap [unfolded home_render_def] this] show ?thesis by auto
qed

text \<open>
  C27. A device that does not route never serves. Its document has no DHCP, firewall or patch, and
  every interface in it is unmanaged: it attaches wireless clients to the VLAN and nothing else.
\<close>

theorem access_point_never_serves:
  assumes "render say s0 dev c ex = Inr (d, rep)" and "\<not> functions_route (effective_functions dev)"
  shows "d_patches d = [] \<and>
    (\<forall>x\<in>set (d_sections d). sc_config x \<in> {''network'', ''wireless''} \<and>
      (sc_type x = ''interface'' \<longrightarrow> get_str (sc_values x) ''proto'' = ''none'' \<and> \<not> has_key (sc_values x) ''ipaddr''))"
proof
  from assms(1) obtain s dr where v: "validate_site s0 = ([], s)" and w: "render_wired say s dev c ex = Some dr"
    and air: "functions_wireless (effective_functions dev) \<Longrightarrow>
       validate_radio_targets c = None \<and> (d, rep) = render_wireless say s dev c ex dr"
    and wire: "\<not> functions_wireless (effective_functions dev) \<Longrightarrow> d = fst dr \<and> rp_conflicts rep = rp_conflicts (snd dr)"
    by (rule render_parts) blast
  have "patches_of dr = []"
    using w assms(2) by (auto simp: render_wired_stages zone_draft_def network_draft_def patches_all patches_networks)
      (simp add: patches_of_def)
  moreover have "d_patches d = patches_of dr"
  proof (cases "functions_wireless (effective_functions dev)")
    case True
    with air have "d = fst (render_wireless say s dev c ex dr)" by (auto dest: arg_cong [where f = fst])
    then show ?thesis using patches_wireless [of say s dev c ex dr] by (simp add: patches_of_def)
  qed (use wire in \<open>simp add: patches_of_def\<close>)
  ultimately show "d_patches d = []" by simp
  have none: "zones_of say s dev c ex = ([], [])" for s
  proof -
    have "snd (snd (render_network say n dev c ex)) = no_member" for n
      using assms(2) by (simp add: render_network_def split: option.splits)
    then have "members_of say s dev c ex = []" by (simp add: members_of_def add_networks_members no_member_def)
    then show ?thesis by (simp add: zones_of_def render_zones_def nub_def)
  qed
  have nopol: "policy_parts say s dev c ex = Some nothing" for s
    using assms(2) by (simp add: policy_parts_def render_policies_def)
  show "\<forall>x\<in>set (d_sections d). sc_config x \<in> {''network'', ''wireless''} \<and>
      (sc_type x = ''interface'' \<longrightarrow> get_str (sc_values x) ''proto'' = ''none'' \<and> \<not> has_key (sc_values x) ''ipaddr'')"
  proof
    fix x assume "x \<in> set (d_sections d)"
    from assms(1) this show "sc_config x \<in> {''network'', ''wireless''} \<and>
      (sc_type x = ''interface'' \<longrightarrow> get_str (sc_values x) ''proto'' = ''none'' \<and> \<not> has_key (sc_values x) ''ipaddr'')"
    proof (rule render_origin)
      fix s assume "wired_from ex (wired_sections say s dev c ex) x"
      then obtain n where "x \<in> set (fst (render_network say n dev c ex))"
        by (auto simp: wired_from_def wired_sections_def none nopol nothing_def network_sections_def)
      from network_types [OF this] assms(2) obtain r where "x = bridge_vlan_section r n \<or> x = unmanaged_interface r n" by blast
      then show ?thesis
        by (auto simp: bridge_vlan_section_def unmanaged_interface_def own_section_def get_str_def has_key_def)
    next
      fix s assume "air_from say s dev c ex x"
      then show ?thesis using air_types [of say s dev c ex x] air_marked [of say s dev c ex x] by (simp add: marked_def)
    qed
  qed
qed

theorem access_point_never_serves_witness: "d_patches home_ap_doc = []"
proof -
  have "\<not> functions_route (effective_functions (home_device 1))" by code_simp
  from access_point_never_serves [OF home_render_ap [unfolded home_render_def] this] show ?thesis by blast
qed

text \<open>
  C25. Every access point section of a document publishes a WLAN of the device's groups that no
  override took off it, on a radio of one of the WLAN's bands, attached to an enabled network, with
  the security the site asked for: protected management frames are required for WPA3 and OWE, off
  for an open network, and a passphrase is present exactly when the mode needs one. Every option it
  writes is under management, so a later render can take it away again.
\<close>

theorem access_points_sound:
  assumes "render say s0 dev c ex = Inr (d, rep)" and "x \<in> set (d_sections d)"
    and "sc_config x = ''wireless''" and "get_str (sc_values x) ''mode'' = ''ap''"
  shows "\<exists>base w band radio. base \<in> set (wlans_for s0 (d_id dev)) \<and>
    apply_overrides (s_overrides s0) (d_id dev) base = (w, True) \<and> band \<in> set (w_bands w) \<and>
    map_of (radios_by_band c) band = Some radio \<and> n_enabled (network_of s0 (w_network_id w)) \<and>
    sc_name x = iface_name (w_id w) radio \<and> get_str (sc_values x) ''device'' = radio \<and>
    get_str (sc_values x) ''ssid'' = w_ssid w \<and>
    get_str (sc_values x) ''network'' = network_attachment_name (network_of s0 (w_network_id w)) \<and>
    (let mode = sec_mode (w_security w); pmf = get_str (sc_values x) ''ieee80211w''
     in get_str (sc_values x) ''encryption'' = mode \<and> has_key (sc_values x) ''key'' = needs_key mode \<and>
        (mode \<in> {''sae'', ''owe''} \<longrightarrow> pmf = ''2'') \<and> (mode = ''none'' \<longrightarrow> pmf = ''0'') \<and> (mode = ''sae-mixed'' \<longrightarrow> pmf \<noteq> ''0'')) \<and>
    set (keys (sc_values x)) \<subseteq> set (OwnershipTag # sc_manages x) \<and>
    foreign_ssid_on_radio ex radio (w_ssid w) (sc_name x) = None"
  using assms(1,2)
proof (rule render_origin)
  fix s assume "wired_from ex (wired_sections say s dev c ex) x"
  then show ?thesis using wired_marked [of x say s dev c ex] assms(3) by (auto simp: wired_from_def marked_def)
next
  fix s assume v: "validate_site s0 = ([], s)" and "air_from say s dev c ex x"
  note fr = validate_site_frame [OF v]
  have "wlans_for s (d_id dev) = wlans_for s0 (d_id dev)" by (simp add: wlans_for_def group_by_id_def fr)
  moreover have "network_of s i = network_of s0 i" for i by (simp add: network_of_def network_by_id_def fr)
  moreover have "\<not> uplink_from say s dev c x" "\<not> mesh_from say s dev c ex x"
    using assms(4) by (auto simp: uplink_from_def mesh_from_def render_uplink_def render_mesh_def own_section_def get_str_def
        split: option.splits)
  ultimately obtain base w band radio where b: "base \<in> set (wlans_for s0 (d_id dev))"
    "apply_overrides (s_overrides s0) (d_id dev) base = (w, True)" "band \<in> set (w_bands w)"
    "map_of (radios_by_band c) band = Some radio" "n_enabled (network_of s0 (w_network_id w))"
    "foreign_ssid_on_radio ex radio (w_ssid w) (iface_name (w_id w) radio) = None"
    and x: "x = fst (render_wifi_iface say s w (network_of s0 (w_network_id w)) radio)"
    using \<open>air_from say s dev c ex x\<close> by (auto simp: air_from_def ap_from_def fr)
  have "get_str (sc_values x) ''device'' = radio \<and> get_str (sc_values x) ''ssid'' = w_ssid w \<and>
    get_str (sc_values x) ''network'' = network_attachment_name (network_of s0 (w_network_id w)) \<and>
    get_str (sc_values x) ''encryption'' = sec_mode (w_security w) \<and>
    has_key (sc_values x) ''key'' = needs_key (sec_mode (w_security w)) \<and>
    get_str (sc_values x) ''ieee80211w'' = pmf_value (w_security w)"
    unfolding x by (simp add: render_wifi_iface_def own_section_def get_str_def has_key_def Let_def)
  moreover have "set (keys (sc_values x)) \<subseteq> set (OwnershipTag # sc_manages x)"
    unfolding x wifi_iface_shape by (rule wifi_iface_options)
  ultimately show ?thesis
    using b by (intro exI [of _ base] exI [of _ w] exI [of _ band] exI [of _ radio])
      (simp add: x wifi_iface_shape pmf_value_def Let_def)
qed

theorem access_points_sound_witness:
  "\<exists>base\<in>set (wlans_for whole_site 1). \<exists>w radio. apply_overrides (s_overrides whole_site) 1 base = (w, True) \<and>
     sc_name home_ap = iface_name (w_id w) radio"
proof -
  have "home_ap \<in> set (d_sections home_ap_doc)" by (simp add: home_doc_def)
  moreover have "sc_config home_ap = ''wireless''" "get_str (sc_values home_ap) ''mode'' = ''ap''" by code_simp+
  ultimately have "\<exists>base w band radio. base \<in> set (wlans_for whole_site (d_id (home_device 1))) \<and>
      apply_overrides (s_overrides whole_site) (d_id (home_device 1)) base = (w, True) \<and> sc_name home_ap = iface_name (w_id w) radio"
    using access_points_sound [OF home_render_ap [unfolded home_render_def], of home_ap] by blast
  then show ?thesis by (auto simp: home_device_def)
qed

text \<open>
  C23. What a render could not see is never deleted. Pruning a rendered document removes no
  wireless section when the radio list could not be read, on a device that publishes WLANs, and no
  network, DHCP or firewall section when a VLAN is wanted and the port layout could not be read.
  On a device that publishes WLANs it removes neither the section of the device's wireless uplink
  nor that of one of its meshes, on a radio the device has for the band, while it is not known
  whether the device can have it: because the check that gates it gave no answer, when the network
  it attaches to is there, or because a VLAN is wanted and the port layout could not be read,
  when that network is not there.
\<close>

theorem undetermined_never_pruned:
  assumes "render say s0 dev c ex = Inr (d, rep)" and "op \<in> set (prune d ex)"
  shows "(functions_wireless (effective_functions dev) \<and> radios_unknown c \<longrightarrow> op_config op \<noteq> ''wireless'') \<and>
    (wants_vlan s0 \<and> ports_unread c \<longrightarrow> op_config op \<notin> {''network'', ''dhcp'', ''firewall''}) \<and>
    (\<forall>u w radio. functions_wireless (effective_functions dev) \<and> uplink_for s0 (d_id dev) = Some u \<and>
       wlan_by_id s0 (u_wlan_id u) = Some w \<and> map_of (radios_by_band c) (u_band u) = Some radio \<and>
       (if network_attachment_available d (network_of s0 (w_network_id w)) then undetermined c FeatWirelessUplink
        else wants_vlan s0 \<and> ports_unread c) \<longrightarrow>
       (op_config op, op_section op) \<noteq> (''wireless'', uplink_iface_name (u_id u) radio)) \<and>
    (\<forall>m radio. functions_wireless (effective_functions dev) \<and> m \<in> set (meshes_for s0 (d_id dev)) \<and>
       map_of (radios_by_band c) (m_band m) = Some radio \<and>
       (if network_attachment_available d (network_of s0 (m_network_id m)) then undetermined c FeatMesh
        else wants_vlan s0 \<and> ports_unread c) \<longrightarrow>
       (op_config op, op_section op) \<noteq> (''wireless'', mesh_iface_name (m_id m) radio))"
proof -
  from assms(1) obtain s dr where v: "validate_site s0 = ([], s)" and w: "render_wired say s dev c ex = Some dr"
    and air: "functions_wireless (effective_functions dev) \<Longrightarrow>
       validate_radio_targets c = None \<and> (d, rep) = render_wireless say s dev c ex dr"
    and wire: "\<not> functions_wireless (effective_functions dev) \<Longrightarrow> d = fst dr \<and> rp_conflicts rep = rp_conflicts (snd dr)"
    by (rule render_parts) blast
  note same = same_site [OF v]
  from assms(2) have pr: "op_config op \<notin> set (d_blind d)" "(op_config op, op_section op) \<notin> set (d_retain d)"
    "owned_in ex (op_config op) (op_section op)"
    unfolding set_prune decided_stale_def
    by (auto simp: blank_op_def blind_def retained_def list_ex_iff)
  obtain dr2 where g2: "set (d_blind (fst dr)) \<subseteq> set (d_blind (fst dr2))" "radios_unknown c \<Longrightarrow> ''wireless'' \<in> set (d_blind (fst dr2))"
    and secs2: "d_sections (fst dr2) = d_sections (fst dr)"
    and g3: "unseen_le (foldl (render_one_mesh say s c ex) (render_device_uplink say s dev c ex
       (foldl (render_wlan say s dev c ex) dr2 (wlans_for s (d_id dev)))) (meshes_for s (d_id dev)))
       (render_wireless say s dev c ex dr)"
    by (rule wireless_stages [where dr = dr and c = c and s = s and say = say and dev = dev and ex = ex]) blast
  let ?w = "foldl (render_wlan say s dev c ex) dr2 (wlans_for s (d_id dev))"
  let ?u = "render_device_uplink say s dev c ex ?w"
  let ?m = "foldl (render_one_mesh say s c ex) ?u (meshes_for s (d_id dev))"
  have up: "unseen_le dr2 ?w" by (rule unseen.foldl_le) (rule unseen_wlan)
  have um: "unseen_le z (foldl (render_one_mesh say s c ex) z ms)" for z ms by (rule unseen.foldl_le) (rule unseen_mesh)
  have end2: "unseen_le dr2 (render_wireless say s dev c ex dr)"
    by (rule unseen.le_trans [OF unseen.le_trans [OF unseen.le_trans [OF up unseen_uplink] um] g3])
  have d: "d = fst (render_wireless say s dev c ex dr)" if "functions_wireless (effective_functions dev)"
    using air [OF that] by (auto dest: arg_cong [where f = fst])
  have wired_blind: "{''network'', ''dhcp'', ''firewall''} \<subseteq> set (d_blind (fst dr))" if "wants_vlan s0 \<and> ports_unread c"
  proof -
    have "d_blind (start_doc s dev c) = [''network'', ''dhcp'', ''firewall'']"
      using that same(5) by (simp add: start_doc_def ports_unread_def)
    then show ?thesis using unseen_wired [OF w] by (simp add: unseen_le_def)
  qed
  have a: "op_config op \<noteq> ''wireless''" if "functions_wireless (effective_functions dev) \<and> radios_unknown c"
    using that d end2 g2(2) pr(1) by (auto simp: unseen_le_def)
  have b: "op_config op \<notin> {''network'', ''dhcp'', ''firewall''}" if "wants_vlan s0 \<and> ports_unread c"
  proof -
    have "set (d_blind (fst dr)) \<subseteq> set (d_blind d)"
      using d wire end2 g2(1) by (cases "functions_wireless (effective_functions dev)") (auto simp: unseen_le_def)
    with wired_blind [OF that] pr(1) show ?thesis by blast
  qed
  have unseen: "kept_unseen (fst z) c f (network_of s i)"
    if "functions_wireless (effective_functions dev)" and "adds (air_from say s dev c ex) dr2 z" and "unseen_le dr2 z"
      and "if network_attachment_available d (network_of s0 i) then undetermined c f else wants_vlan s0 \<and> ports_unread c"
    for z f i
  proof -
    have "network_attachment_available (fst z) n = network_attachment_available (fst dr) n" for n
      using attachable_adds [OF that(2)] adds_same_sections [OF adds_wireless secs2] by metis
    moreover have "network_attachment_available d n = network_attachment_available (fst dr) n" for n
      using attachable_adds [OF adds_wireless] d [OF that(1)] by metis
    ultimately show ?thesis
      using that(3,4) wired_blind g2(1) by (auto simp: kept_unseen_def same blind_def list_ex_iff unseen_le_def split: if_splits)
  qed
  have c1: "(op_config op, op_section op) \<noteq> (''wireless'', uplink_iface_name (u_id u) radio)"
    if "functions_wireless (effective_functions dev) \<and> uplink_for s0 (d_id dev) = Some u \<and>
       wlan_by_id s0 (u_wlan_id u) = Some w \<and> map_of (radios_by_band c) (u_band u) = Some radio \<and>
       (if network_attachment_available d (network_of s0 (w_network_id w)) then undetermined c FeatWirelessUplink
        else wants_vlan s0 \<and> ports_unread c)" for u w radio
  proof -
    have "kept_unseen (fst ?w) c FeatWirelessUplink (network_of s (w_network_id w))"
      by (rule unseen [OF _ air_steps(1) up]) (use that in auto)
    then have "(''wireless'', uplink_iface_name (u_id u) radio) \<in> set (d_retain (fst ?u))"
      using that by (intro uplink_retained) (simp_all add: same)
    then have "(''wireless'', uplink_iface_name (u_id u) radio) \<in> set (d_retain d)"
      using unseen_retain [OF unseen.le_trans [OF um g3]] d that by simp
    with pr(2) show ?thesis by metis
  qed
  have c2: "(op_config op, op_section op) \<noteq> (''wireless'', mesh_iface_name (m_id m) radio)"
    if m: "functions_wireless (effective_functions dev) \<and> m \<in> set (meshes_for s0 (d_id dev)) \<and>
       map_of (radios_by_band c) (m_band m) = Some radio \<and>
       (if network_attachment_available d (network_of s0 (m_network_id m)) then undetermined c FeatMesh
        else wants_vlan s0 \<and> ports_unread c)" for m radio
  proof
    assume eq: "(op_config op, op_section op) = (''wireless'', mesh_iface_name (m_id m) radio)"
    with pr(3) have nf: "\<not> foreign_named ex ''wireless'' (mesh_iface_name (m_id m) radio)"
      by (auto simp: owned_in_def section_values_def foreign_named_def foreign_def split: option.splits)
    from m obtain as bs where ms: "meshes_for s (d_id dev) = as @ m # bs" by (auto simp: same dest: split_list)
    let ?r = "(''wireless'', mesh_iface_name (m_id m) radio)" and ?z = "foldl (render_one_mesh say s c ex) ?u as"
    have "adds (air_from say s dev c ex) dr2 ?z"
      by (intro adding.le_trans [OF adding.le_trans [OF air_steps(1) air_steps(2)] air_steps(3)]) (auto simp: ms)
    moreover have "unseen_le dr2 ?z" by (rule unseen.le_trans [OF unseen.le_trans [OF up unseen_uplink] um])
    ultimately have "kept_unseen (fst ?z) c FeatMesh (network_of s (m_network_id m))"
      using m by (intro unseen) auto
    then have "?r \<in> set (d_retain (fst (render_one_mesh say s c ex ?z m)))"
      using m nf by (intro mesh_retained) simp_all
    then have "?r \<in> set (d_retain (fst ?m))" unfolding ms foldl_append foldl.simps using um by (metis unseen_retain)
    then have "?r \<in> set (d_retain d)" using unseen_retain [OF g3] d m by simp
    with pr(2) eq show False by metis
  qed
  show ?thesis using a b c1 c2 by blast
qed

text \<open>
  Four devices of the sample on which something could not be seen: the uplink device and the access
  point before their wireless features were probed, the access point without a readable radio list,
  and the access point without a readable port layout. Each still holds sections no document
  contains, and those of the others that were seen are pruned.
\<close>

definition stale_existing :: existing where
  "stale_existing = \<lparr>ex_configs =
     [(''network'', [(''bv1'', [(''.type'', ''bridge-vlan''), (''device'', ''br-lan''), (''vlan'', ''1'')]),
         (''oowrt_net_old'', [(''.type'', ''interface''), (OwnershipTag, ''1'')])]),
      (''wireless'', map (\<lambda>name. (name, [(''.type'', ''wifi-iface''), (OwnershipTag, ''1'')]))
         [''oowrt_old'', ''oowrt_up1_radio0'', ''oowrt_mesh1_radio0''])]\<rparr>"

definition stale_prune :: "int \<Rightarrow> registry \<Rightarrow> (string \<times> string) list option" where
  "stale_prune i r = (case render home_say whole_site (home_device i) (Some r) stale_existing of
     Inl e \<Rightarrow> None | Inr (d, rep) \<Rightarrow> Some (map (\<lambda>op. (op_config op, op_section op)) (prune d stale_existing)))"

abbreviation unprobed :: registry where
  "unprobed \<equiv> home_caps\<lparr>rg_features := []\<rparr>"

lemma stale_prunes:
  "stale_prune 5 unprobed = Some [(''network'', ''oowrt_net_old''), (''wireless'', ''oowrt_mesh1_radio0''), (''wireless'', ''oowrt_old'')]"
  "stale_prune 1 unprobed = Some [(''network'', ''oowrt_net_old''), (''wireless'', ''oowrt_old''), (''wireless'', ''oowrt_up1_radio0'')]"
  "stale_prune 1 (unprobed\<lparr>rg_radios := []\<rparr>) = Some [(''network'', ''oowrt_net_old'')]"
  "stale_prune 1 (unprobed\<lparr>rg_ports := po_bridge_update (\<lambda>_. []) (rg_ports unprobed)\<rparr>) =
     Some [(''wireless'', ''oowrt_old''), (''wireless'', ''oowrt_up1_radio0'')]"
  unfolding stale_prune_def render_def whole_site_ok by code_simp+

lemma stale_pruneD:
  assumes "stale_prune i r = Some xs"
  obtains d rep where "render home_say whole_site (home_device i) (Some r) stale_existing = Inr (d, rep)"
    "set (the (stale_prune i r)) = (\<lambda>op. (op_config op, op_section op)) ` set (prune d stale_existing)"
  using assms by (auto simp: stale_prune_def split: sum.splits prod.splits)

lemma stale_gates:
  "case uplink_for whole_site 5 of None \<Rightarrow> False | Some u \<Rightarrow> uplink_iface_name (u_id u) ''radio0'' = ''oowrt_up1_radio0'' \<and>
     (case wlan_by_id whole_site (u_wlan_id u) of None \<Rightarrow> False | Some w \<Rightarrow> w_network_id w = 2) \<and>
     map_of (radios_by_band (Some unprobed)) (u_band u) = Some ''radio0''"
  "case meshes_for whole_site 1 of [m] \<Rightarrow> mesh_iface_name (m_id m) ''radio0'' = ''oowrt_mesh1_radio0'' \<and>
     m_network_id m = 1 \<and> map_of (radios_by_band (Some unprobed)) (m_band m) = Some ''radio0'' | _ \<Rightarrow> False"
  "case render home_say whole_site (home_device 5) (Some unprobed) stale_existing of Inl e \<Rightarrow> False
    | Inr (d, rep) \<Rightarrow> network_attachment_available d (network_of whole_site 2)"
  "case render home_say whole_site (home_device 1) (Some unprobed) stale_existing of Inl e \<Rightarrow> False
    | Inr (d, rep) \<Rightarrow> network_attachment_available d (network_of whole_site 1)"
  "undetermined (Some unprobed) FeatWirelessUplink" "undetermined (Some unprobed) FeatMesh"
  "radios_unknown (Some (unprobed\<lparr>rg_radios := []\<rparr>))" "wants_vlan whole_site"
  "ports_unread (Some (unprobed\<lparr>rg_ports := po_bridge_update (\<lambda>_. []) (rg_ports unprobed)\<rparr>))"
  "functions_wireless (effective_functions (home_device i))" "d_id (home_device i) = i"
          apply code_simp
         apply code_simp
        apply (unfold render_def whole_site_ok) [2]
        apply code_simp
       apply code_simp
      apply code_simp
     apply code_simp
    apply code_simp
   apply code_simp
  apply code_simp
  by (simp add: home_device_def effective_functions_def, code_simp, simp add: home_device_def)

theorem undetermined_never_pruned_witness:
  "(''wireless'', ''oowrt_up1_radio0'') \<notin> set (the (stale_prune 5 unprobed)) \<and>
   (''wireless'', ''oowrt_mesh1_radio0'') \<notin> set (the (stale_prune 1 unprobed)) \<and>
   ''wireless'' \<notin> fst ` set (the (stale_prune 1 (unprobed\<lparr>rg_radios := []\<rparr>))) \<and>
   ''network'' \<notin> fst ` set (the (stale_prune 1 (unprobed\<lparr>rg_ports := po_bridge_update (\<lambda>_. []) (rg_ports unprobed)\<rparr>)))"
proof (intro conjI)
  from stale_gates(1) obtain u w where u: "uplink_for whole_site 5 = Some u" "wlan_by_id whole_site (u_wlan_id u) = Some w"
    "uplink_iface_name (u_id u) ''radio0'' = ''oowrt_up1_radio0''" "w_network_id w = 2"
    "map_of (radios_by_band (Some unprobed)) (u_band u) = Some ''radio0''"
    by (auto split: option.splits)
  from stale_gates(2) obtain m where m: "m \<in> set (meshes_for whole_site 1)" "m_network_id m = 1"
    "mesh_iface_name (m_id m) ''radio0'' = ''oowrt_mesh1_radio0''" "map_of (radios_by_band (Some unprobed)) (m_band m) = Some ''radio0''"
    by (auto split: list.splits)
  show "(''wireless'', ''oowrt_up1_radio0'') \<notin> set (the (stale_prune 5 unprobed))"
  proof (rule stale_pruneD [OF stale_prunes(1)])
    fix d rep assume r: "render home_say whole_site (home_device 5) (Some unprobed) stale_existing = Inr (d, rep)"
      and xs: "set (the (stale_prune 5 unprobed)) = (\<lambda>op. (op_config op, op_section op)) ` set (prune d stale_existing)"
    have "network_attachment_available d (network_of whole_site (w_network_id w))" using stale_gates(3) r u(4) by simp
    then have "(op_config op, op_section op) \<noteq> (''wireless'', ''oowrt_up1_radio0'')" if "op \<in> set (prune d stale_existing)" for op
      using undetermined_never_pruned [OF r that] u(1,2,5) stale_gates(5,10,11)
      unfolding u(3) [symmetric] by auto
    then show ?thesis unfolding xs image_iff by metis
  qed
  show "(''wireless'', ''oowrt_mesh1_radio0'') \<notin> set (the (stale_prune 1 unprobed))"
  proof (rule stale_pruneD [OF stale_prunes(2)])
    fix d rep assume r: "render home_say whole_site (home_device 1) (Some unprobed) stale_existing = Inr (d, rep)"
      and xs: "set (the (stale_prune 1 unprobed)) = (\<lambda>op. (op_config op, op_section op)) ` set (prune d stale_existing)"
    have "network_attachment_available d (network_of whole_site (m_network_id m))" using stale_gates(4) r m(2) by simp
    then have "(op_config op, op_section op) \<noteq> (''wireless'', ''oowrt_mesh1_radio0'')" if "op \<in> set (prune d stale_existing)" for op
      using undetermined_never_pruned [OF r that] m(1,4) stale_gates(6,10,11)
      unfolding m(3) [symmetric] by auto
    then show ?thesis unfolding xs image_iff by metis
  qed
  show "''wireless'' \<notin> fst ` set (the (stale_prune 1 (unprobed\<lparr>rg_radios := []\<rparr>)))"
    by (rule stale_pruneD [OF stale_prunes(3)]) (use undetermined_never_pruned stale_gates(7,10) in fastforce)
  show "''network'' \<notin> fst ` set (the (stale_prune 1 (unprobed\<lparr>rg_ports := po_bridge_update (\<lambda>_. []) (rg_ports unprobed)\<rparr>)))"
    by (rule stale_pruneD [OF stale_prunes(4)]) (use undetermined_never_pruned stale_gates(8,9) in fastforce)
qed

end
