(* ===== verification/RenderForeign.thy ===== *)
theory RenderForeign
  imports RenderSafety
begin

text \<open>
  What the plan of a rendered document may do to sections of the device that do not carry the
  ownership marker: the option patches of the management network, and the wireless uplink.
\<close>

section \<open>Patches of a document\<close>

text \<open>Every patch of a document is one of the management network's.\<close>

definition management_patch :: "wording_of \<Rightarrow> site \<Rightarrow> device \<Rightarrow> existing \<Rightarrow> patch \<Rightarrow> bool" where
  "management_patch say s dev ex p \<longleftrightarrow> functions_route (effective_functions dev) \<and>
     (\<exists>n\<in>set (s_networks s). n_enabled n \<and> n_vlan n \<le> 1 \<and> p \<in> set (fst (render_management_ipv6 say n ex)))"

lemma patches_add: "set (patches_of (add_patch say p dr)) \<subseteq> insert p (set (patches_of dr))"
  by (auto simp: patches_of_def add_patch_def split: prod.splits)

lemma patches_add_fold: "set (patches_of (foldl (\<lambda>x p. add_patch say p x) dr ps)) \<subseteq> set (patches_of dr) \<union> set ps"
proof (induction ps arbitrary: dr)
  case (Cons p ps)
  from Cons [of "add_patch say p dr"] patches_add [of say p dr] show ?case by auto
qed simp

lemma patches_management:
  "set (patches_of (add_management say dev ex n dr)) \<subseteq> set (patches_of dr) \<union>
     (if functions_route (effective_functions dev) \<and> n_enabled n \<and> n_vlan n \<le> 1
      then set (fst (render_management_ipv6 say n ex)) else {})"
  using patches_add_fold [of say "on_report (refuse (snd (render_management_ipv6 say n ex))) dr" "fst (render_management_ipv6 say n ex)"]
  by (auto simp: add_management_def Let_def split: prod.splits)

lemma patches_network:
  "patches_of (fst (add_network say dev c ex n x)) = patches_of (add_management say dev ex n (fst x))"
proof -
  have s: "patches_of (add_network_section say ex n m dr sec) = patches_of dr" for m dr sec
    by (simp add: add_network_section_def Let_def)
  then have "patches_of (foldl (add_network_section say ex n m) dr secs) = patches_of dr" for m dr secs
    by (rule foldl_keeps)
  then show ?thesis by (simp add: add_network_def Let_def split: prod.splits)
qed

lemma patches_networks_from:
  "set (patches_of (fst (add_networks say dev c ex ns dr))) \<subseteq> set (patches_of dr) \<union>
     {p. \<exists>n\<in>set ns. functions_route (effective_functions dev) \<and> n_enabled n \<and> n_vlan n \<le> 1 \<and>
        p \<in> set (fst (render_management_ipv6 say n ex))}"
  unfolding add_networks_def
proof (induction ns rule: rev_induct)
  case (snoc n ns)
  then show ?case
    using patches_management [of say dev ex n "fst (foldl (\<lambda>x n. add_network say dev c ex n x) (dr, []) ns)"]
    by (auto simp: patches_network split: if_splits)
qed simp

lemma render_patches:
  assumes "render say s0 dev c ex = Inr (d, rep)" and "p \<in> set (d_patches d)"
  shows "management_patch say s0 dev ex p"
proof -
  from assms(1) obtain s dr where v: "validate_site s0 = ([], s)" and w: "render_wired say s dev c ex = Some dr"
    and air: "functions_wireless (effective_functions dev) \<Longrightarrow>
       validate_radio_targets c = None \<and> (d, rep) = render_wireless say s dev c ex dr"
    and wire: "\<not> functions_wireless (effective_functions dev) \<Longrightarrow> d = fst dr \<and> rp_conflicts rep = rp_conflicts (snd dr)"
    by (rule render_parts) blast
  have "p \<in> set (patches_of dr)"
  proof (cases "functions_wireless (effective_functions dev)")
    case True
    then have "patches_of (d, rep) = patches_of dr" using air patches_wireless by metis
    with assms(2) show ?thesis by (simp add: patches_of_def)
  qed (use wire assms(2) in \<open>simp add: patches_of_def\<close>)
  then have "p \<in> set (patches_of (network_draft say s dev c ex))"
    using w by (auto simp: render_wired_stages zone_draft_def patches_all)
  then show ?thesis
    using patches_networks_from [of say dev c ex "s_networks s" "(start_doc s dev c, blank_report)"]
    by (auto simp: network_draft_def management_patch_def patches_of_def validate_site_frame(4) [OF v])
qed

lemma management_deletes:
  "p \<in> set (fst (lan_patches say n pol ex)) \<Longrightarrow> [] \<notin> set (pt_deletes p)"
  "p \<in> set (fst (dhcp_patches say n pol ex)) \<Longrightarrow> [] \<notin> set (pt_deletes p)"
  "p \<in> set (fst (wan6_patches say pol ex)) \<Longrightarrow> [] \<notin> set (pt_deletes p)"
  "p \<in> set (fst (wan_patches say pol b ex)) \<Longrightarrow> [] \<notin> set (pt_deletes p)"
  by (auto simp: lan_patches_def dhcp_patches_def wan6_patches_def wan_patches_def Let_def
      split: if_splits option.splits list.splits)

lemma management_parts:
  assumes "p \<in> set (fst (render_management_ipv6 say n ex))"
  shows "[] \<notin> set (pt_deletes p)"
proof -
  let ?pol = "effective_ipv6 n"
  obtain p3 c3 b where w: "wan6_patches say ?pol ex = (p3, c3, b)" by (metis prod_cases3)
  with assms have "p \<in> set (fst (lan_patches say n ?pol ex)) \<union> set (fst (dhcp_patches say n ?pol ex)) \<union>
      set (fst (wan6_patches say ?pol ex)) \<union> set (fst (wan_patches say ?pol b ex))"
    by (simp add: render_management_ipv6_def Let_def case_prod_unfold split: if_splits)
  then show ?thesis using management_deletes by blast
qed

text \<open>An operation on options that leaves the ownership marker of the section alone.\<close>

definition option_patch :: "op \<Rightarrow> bool" where
  "option_patch op \<longleftrightarrow>
     op_kind op = OpSet \<and> op_patch op \<and> op_lists op = [] \<and> OwnershipTag \<notin> set (keys (op_values op)) \<or>
     op_kind op = OpDelete \<and> op_option op \<noteq> [] \<and> op_option op \<noteq> OwnershipTag"

lemma management_patch_op:
  assumes "op \<in> set (patch_ops ex p)" and "management_patch say s dev ex p"
  shows "option_patch op"
proof -
  from patch_ops_cases [OF assms(1)] obtain m where "patch_delete p m op \<or> patch_set p op" by blast
  moreover have "[] \<notin> set (pt_deletes p)"
    using assms(2) management_parts by (auto simp: management_patch_def)
  ultimately show ?thesis
    by (force simp: patch_delete_def patch_set_def option_patch_def forbidden_patch_option_def uci_simps)
qed

lemma uplink_section_ops:
  assumes "render_uplink say u w net radio c = (Some x, oms)" and "op \<in> set (section_ops ex x)"
    and "foreign_named ex (sc_config x) (sc_name x)"
  shows "op = write_op OpSet x"
proof -
  have "sc_lists x = []" "sc_manages x = []" using assms(1) by (auto simp: render_uplink_def split: option.splits)
  moreover obtain vals where "map_of (in_config ex (sc_config x)) (sc_name x) = Some vals"
    using assms(3) by (auto simp: foreign_named_def split: option.splits)
  ultimately show ?thesis
    using assms(2) by (auto simp: section_ops_def sorted_keys_def managed_but_unwritten_def split: if_splits)
qed

text \<open>
  C22. The plan of a rendered document leaves foreign sections alone. An operation on a section of
  the device without the ownership marker either is an option patch of the IPv6 settings of an
  enabled management network, on a device that routes, and leaves the section's marker as it
  is; or it rewrites the section that has the name of the station interface of the device's own
  wireless uplink on the radio of its band, the one section the render adds without looking for a
  foreign section of its name. No foreign section is ever deleted.
\<close>

theorem render_spares_foreign:
  assumes "render say s0 dev c ex = Inr (d, rep)"
    and "op \<in> set (pl_ops (doc_plan d ex) @ prune d ex)"
    and "foreign_named ex (op_config op) (op_section op)"
  shows "(\<exists>p\<in>set (d_patches d). op \<in> set (patch_ops ex p) \<and> management_patch say s0 dev ex p \<and> option_patch op) \<or>
    (\<exists>u w radio x oms. uplink_for s0 (d_id dev) = Some u \<and> wlan_by_id s0 (u_wlan_id u) = Some w \<and>
       map_of (radios_by_band c) (u_band u) = Some radio \<and>
       (op_config op, op_section op) = (''wireless'', uplink_iface_name (u_id u) radio) \<and>
       render_uplink say u w (network_of s0 (w_network_id w)) radio c = (Some x, oms) \<and> op = write_op OpSet x)"
proof -
  have not_owned: "\<not> owned_in ex (op_config op) (op_section op)"
    using assms(3) by (auto simp: foreign_named_def foreign_def owned_in_def section_values_def split: option.splits)
  have "op \<notin> set (prune d ex)"
    using not_owned by (auto simp: set_prune decided_stale_def blank_op_def)
  with assms(2) consider (sec) x where "x \<in> set (d_sections d)" "op \<in> set (section_ops ex x)"
    | (patch) p where "p \<in> set (d_patches d)" "op \<in> set (patch_ops ex p)"
    unfolding set_append Un_iff doc_plan_ops by blast
  then show ?thesis
  proof cases
    case sec
    have at: "op_config op = sc_config x" "op_section op = sc_name x"
      using section_ops_cases [OF sec(2)] by (auto simp: write_op_def delete_option_op_def blank_op_def)
    from assms(1) sec(1) show ?thesis
    proof (rule render_origin)
      fix s assume "wired_from ex (wired_sections say s dev c ex) x"
      with assms(3) at show ?thesis by (simp add: wired_from_def)
    next
      fix s assume v: "validate_site s0 = ([], s)" and "air_from say s dev c ex x"
      with air_not_foreign [of say s dev c ex x] assms(3) at have "uplink_from say s dev c x" by simp
      then obtain u w radio oms where u: "uplink_for s0 (d_id dev) = Some u" "wlan_by_id s0 (u_wlan_id u) = Some w"
        "map_of (radios_by_band c) (u_band u) = Some radio"
        "render_uplink say u w (network_of s0 (w_network_id w)) radio c = (Some x, oms)"
        by (auto simp: uplink_from_def same_site [OF v])
      moreover have "op = write_op OpSet x"
        using uplink_section_ops [OF u(4) sec(2)] assms(3) at by simp
      moreover have "(op_config op, op_section op) = (''wireless'', uplink_iface_name (u_id u) radio)"
        using at render_uplink_section [OF u(4)] by simp
      ultimately show ?thesis by blast
    qed
  next
    case patch
    with render_patches [OF assms(1) patch(1)] management_patch_op show ?thesis by blast
  qed
qed

text \<open>The uplink device of the sample holds a hand-made section under the name of its station interface.\<close>

definition home_uplink_op :: op where
  "home_uplink_op = pl_ops (doc_plan home_uplink_doc home_existing) ! 4"

lemma home_uplink_op:
  "home_uplink_op \<in> set (pl_ops (doc_plan home_uplink_doc home_existing))"
  "foreign_named home_existing (op_config home_uplink_op) (op_section home_uplink_op)"
  "map_of (op_values home_uplink_op) ''ssid'' = Some ''guest''"
  by code_simp+

theorem render_spares_foreign_witness:
  "(\<exists>p\<in>set (d_patches home_uplink_doc). home_uplink_op \<in> set (patch_ops home_existing p)) \<or>
   (\<exists>x. home_uplink_op = write_op OpSet x)"
  using render_spares_foreign [OF home_render_uplink [unfolded home_render_def], of home_uplink_op] home_uplink_op by auto

text \<open>
  The check for a foreign section of the same name that every other generated section goes through
  is missing for the uplink: the plan rewrites the hand-made section and the report names no conflict.
\<close>

theorem uplink_replaces_foreign:
  "\<exists>d rep op. render home_say whole_site (home_device 5) (Some home_caps) home_existing = Inr (d, rep) \<and>
     rp_conflicts rep = [] \<and> op \<in> set (pl_ops (doc_plan d home_existing)) \<and>
     foreign_named home_existing (op_config op) (op_section op) \<and> map_of (op_values op) ''ssid'' = Some ''guest''"
  using home_render_uplink home_uplink_op unfolding home_render_def
  by (intro exI [of _ home_uplink_doc] exI exI [of _ home_uplink_op]) (auto simp: home_report_def blank_report_def)

end
