(* ===== verification/SwapMarker.thy ===== *)
theory SwapMarker
  imports AuditText GoText
begin

text \<open>
  The durable marker of a controller restore (\<open>internal/restoreswap/marker.go\<close>): its states, its
  validation and the additional data that binds the sealed passphrase to it. Strings are byte
  strings. Two functions of the standard library are parameters, the fields of \<open>texts\<close>: the base64
  codec, and whether \<open>time.Parse\<close> reads a text as an RFC 3339 time in UTC.
\<close>

record texts =
  tx_encode64 :: "string \<Rightarrow> string"
  tx_decode64 :: "string \<Rightarrow> string option"
  tx_utc :: "string \<Rightarrow> bool"

section \<open>Texts\<close>

text \<open>The characters of a valid UTF-8 text, each as its bytes.\<close>

function runes :: "string \<Rightarrow> string list" where
  "runes [] = []"
| "runes (c # cs) =
     (let n = rune_len (c # cs)
      in if n = 0 then [c] # runes cs else take n (c # cs) # runes (drop n (c # cs)))"
  by pat_completeness auto
termination
  by (relation "measure length") (auto simp del: rune_len.simps)

text \<open>\<open>unicode.IsControl\<close>: U+0000 to U+001F and U+007F to U+009F.\<close>

fun control_rune :: "string \<Rightarrow> bool" where
  "control_rune [c] = is_control c"
| "control_rune [a, b] = (byte a = 0xC2 \<and> between 0x80 0x9F b)"
| "control_rune r = False"

text \<open>\<open>unicode.IsSpace\<close>.\<close>

fun space_rune :: "string \<Rightarrow> bool" where
  "space_rune [c] = is_space c"
| "space_rune [a, b] = (byte a = 0xC2 \<and> (byte b = 0x85 \<or> byte b = 0xA0))"
| "space_rune [a, b, c] =
     (byte a = 0xE1 \<and> byte b = 0x9A \<and> byte c = 0x80 \<or>
      byte a = 0xE2 \<and> byte b = 0x80 \<and> (between 0x80 0x8A c \<or> byte c = 0xA8 \<or> byte c = 0xA9 \<or> byte c = 0xAF) \<or>
      byte a = 0xE2 \<and> byte b = 0x81 \<and> byte c = 0x9F \<or>
      byte a = 0xE3 \<and> byte b = 0x80 \<and> byte c = 0x80)"
| "space_rune r = False"

definition valid_bounded_text :: "string \<Rightarrow> nat \<Rightarrow> nat \<Rightarrow> bool" where
  "valid_bounded_text v lo hi \<longleftrightarrow>
     lo \<le> length v \<and> length v \<le> hi \<and> valid_utf8 v \<and> \<not> list_all space_rune (runes v) \<and>
     \<not> list_ex control_rune (runes v)"

definition safe_base_name :: "string \<Rightarrow> bool" where
  "safe_base_name name \<longleftrightarrow>
     name \<noteq> [] \<and> name \<noteq> ''.'' \<and> name \<noteq> ''..'' \<and> length name \<le> 255 \<and> valid_utf8 name \<and>
     CHR ''/'' \<notin> set name \<and> CHR 0x5C \<notin> set name \<and> \<not> list_ex control_rune (runes name)"

definition hex_digit :: "char \<Rightarrow> bool" where
  "hex_digit c \<longleftrightarrow> is_digit c \<or> between 97 102 c"

text \<open>Hexadecimal text that decodes and is in lower case already.\<close>

definition lower_hex :: "nat \<Rightarrow> string \<Rightarrow> bool" where
  "lower_hex n v \<longleftrightarrow> length v = n \<and> list_all hex_digit v"

definition valid_restore_id :: "string \<Rightarrow> bool" where
  "valid_restore_id v \<longleftrightarrow> lower_hex 32 v \<and> list_ex (\<lambda>c. c \<noteq> CHR ''0'') v"

section \<open>The marker\<close>

datatype swap_state =
    StIntent | StReady | StSafety | StOldDBParked | StOldPairParked | StNewDBPublished
  | StNewPairPublished | StValidated | StSuppressed | StCleanup | StUnknown string

record file_record =
  fr_size :: nat
  fr_sha :: string

definition no_file :: file_record where
  "no_file = \<lparr>fr_size = 0, fr_sha = []\<rparr>"

record inventory =
  iv_schema :: int
  iv_devices :: int
  iv_credentials :: int
  iv_sections :: int
  iv_wlans :: int
  iv_meshes :: int

definition no_inventory :: inventory where
  "no_inventory = \<lparr>iv_schema = 0, iv_devices = 0, iv_credentials = 0, iv_sections = 0, iv_wlans = 0, iv_meshes = 0\<rparr>"

record marker =
  k_format :: string
  k_version :: int
  k_id :: string
  k_state :: swap_state
  k_owner :: string
  k_created :: string
  k_dir :: string
  k_db_name :: string
  k_key_name :: string
  k_new_db :: file_record
  k_new_key :: file_record
  k_admin :: int
  k_user :: string
  k_preview :: string
  k_plan :: string
  k_sealed :: string
  k_old_db :: file_record
  k_old_key :: file_record
  k_safety :: file_record
  k_safety_at :: string
  k_counts :: inventory

definition markerFormat :: string where "markerFormat = ''oonfeewrt-restore-swap''"
definition markerVersion :: int where "markerVersion = 1"
definition keyringMaxBytes :: nat where "keyringMaxBytes = 4096"
definition passphraseMaxBytes :: nat where "passphraseMaxBytes = 4096"
definition instanceMaxBytes :: nat where "instanceMaxBytes = 128"
definition controllerMaxBytes :: nat where "controllerMaxBytes = 128"
definition MaxDatabaseBytes :: nat where "MaxDatabaseBytes = 8 * 2 ^ 30"
definition safetyMaxBytes :: nat where "safetyMaxBytes = MaxDatabaseBytes + 16 * 2 ^ 20"

definition recoveryDirName :: string where "recoveryDirName = ''.oonfeewrt-recovery''"

definition safety_name :: "marker \<Rightarrow> string" where
  "safety_name m = ''safety-'' @ k_id m @ ''.oowrtbak''"

definition rollback_name :: "marker \<Rightarrow> string" where
  "rollback_name m = ''rollback-'' @ k_id m"

definition ordered_states :: "swap_state list" where
  "ordered_states =
     [StIntent, StReady, StSafety, StOldDBParked, StOldPairParked, StNewDBPublished, StNewPairPublished,
      StValidated, StSuppressed, StCleanup]"

fun state_index :: "swap_state list \<Rightarrow> swap_state \<Rightarrow> int \<Rightarrow> int" where
  "state_index [] s i = -1"
| "state_index (x # xs) s i = (if x = s then i else state_index xs s (i + 1))"

definition state_at_least :: "swap_state \<Rightarrow> swap_state \<Rightarrow> bool" where
  "state_at_least s t \<longleftrightarrow>
     (let l = state_index ordered_states s 0; r = state_index ordered_states t 0 in r \<le> l \<and> 0 \<le> r)"

definition valid_state :: "swap_state \<Rightarrow> bool" where
  "valid_state s \<longleftrightarrow> s \<in> set ordered_states"

definition valid_file_record :: "file_record \<Rightarrow> nat \<Rightarrow> nat \<Rightarrow> bool" where
  "valid_file_record r lo hi \<longleftrightarrow> lo \<le> fr_size r \<and> fr_size r \<le> hi \<and> lower_hex 64 (fr_sha r)"

definition valid_counts :: "inventory \<Rightarrow> bool" where
  "valid_counts v \<longleftrightarrow>
     0 < iv_schema v \<and> 0 \<le> iv_devices v \<and> 0 \<le> iv_credentials v \<and> 0 \<le> iv_sections v \<and> 0 \<le> iv_wlans v \<and>
     0 \<le> iv_meshes v"

text \<open>The refusals of \<open>validateMarker\<close>, in its order; \<open>schema\<close> is the schema version of this build.\<close>

datatype marker_error =
    BadFormat | BadRestoreID | BadInstance | BadCreated | BadPaths | BadPreparedHashes | BadActor
  | BadBinding | BadSealed | BadState | BadOldHashes | PrematureOldPair | BadSafety | BadSafetyTime
  | PrematureSafety | BadCounts | PrematureCounts

definition sealed_ok :: "'a texts_scheme \<Rightarrow> string \<Rightarrow> bool" where
  "sealed_ok tx v =
     (case tx_decode64 tx v of
        None \<Rightarrow> False
      | Some b \<Rightarrow> 1 + 24 + 16 \<le> length b \<and> length b \<le> passphraseMaxBytes + 1 + 24 + 16)"

definition validate_marker :: "'a texts_scheme \<Rightarrow> int \<Rightarrow> marker \<Rightarrow> marker_error option" where
  "validate_marker tx schema m =
     (if k_format m \<noteq> markerFormat \<or> k_version m \<noteq> markerVersion then Some BadFormat
      else if \<not> valid_restore_id (k_id m) then Some BadRestoreID
      else if \<not> valid_bounded_text (k_owner m) 1 instanceMaxBytes then Some BadInstance
      else if \<not> tx_utc tx (k_created m) then Some BadCreated
      else if \<not> safe_base_name (k_dir m) \<or> \<not> safe_base_name (k_db_name m) \<or> \<not> safe_base_name (k_key_name m) \<or>
              k_db_name m = k_key_name m \<or> k_dir m = recoveryDirName then Some BadPaths
      else if \<not> valid_file_record (k_new_db m) 1 MaxDatabaseBytes \<or> \<not> valid_file_record (k_new_key m) 1 keyringMaxBytes
           then Some BadPreparedHashes
      else if k_admin m \<le> 0 \<or> \<not> valid_bounded_text (k_user m) 1 128 then Some BadActor
      else if \<not> valid_bounded_text (k_preview m) 1 128 \<or> \<not> valid_bounded_text (k_plan m) 1 128 then Some BadBinding
      else if \<not> sealed_ok tx (k_sealed m) then Some BadSealed
      else if \<not> valid_state (k_state m) then Some BadState
      else if k_state m \<noteq> StIntent \<and> (\<not> valid_file_record (k_old_db m) 1 MaxDatabaseBytes \<or>
              \<not> valid_file_record (k_old_key m) 1 keyringMaxBytes) then Some BadOldHashes
      else if k_state m = StIntent \<and> (k_old_db m \<noteq> no_file \<or> k_old_key m \<noteq> no_file) then Some PrematureOldPair
      else if state_at_least (k_state m) StSafety \<and> \<not> valid_file_record (k_safety m) 1 safetyMaxBytes then Some BadSafety
      else if state_at_least (k_state m) StSafety \<and> \<not> tx_utc tx (k_safety_at m) then Some BadSafetyTime
      else if \<not> state_at_least (k_state m) StSafety \<and> (k_safety m \<noteq> no_file \<or> k_safety_at m \<noteq> []) then Some PrematureSafety
      else if state_at_least (k_state m) StValidated \<and> (iv_schema (k_counts m) \<noteq> schema \<or> \<not> valid_counts (k_counts m))
           then Some BadCounts
      else if \<not> state_at_least (k_state m) StValidated \<and> k_counts m \<noteq> no_inventory then Some PrematureCounts
      else None)"

section \<open>The additional data of the seal\<close>

text \<open>Every value with its length before it, after a zero byte.\<close>

definition framed :: "string \<Rightarrow> string" where
  "framed v = CHR 0x00 # show_nat (length v) @ CHR '':'' # v"

definition intent_values :: "marker \<Rightarrow> string list" where
  "intent_values m =
     [markerFormat, itoa markerVersion, k_id m, k_owner m, k_dir m, k_db_name m, k_key_name m,
      show_nat (fr_size (k_new_db m)), fr_sha (k_new_db m), show_nat (fr_size (k_new_key m)), fr_sha (k_new_key m),
      itoa (k_admin m), k_user m, k_preview m, k_plan m]"

definition intent_aad :: "marker \<Rightarrow> string" where
  "intent_aad m = ''oonfeewrt/restore-swap/intent/v1'' @ concat (map framed (intent_values m))"

section \<open>Facts\<close>

lemma show_nat_no_colon: "CHR '':'' \<notin> set (show_nat n)"
  using show_nat_digits [of n] by (auto simp: list.pred_set is_digit_def)

lemma framed_split: "framed v @ x = framed w @ y \<longleftrightarrow> v = w \<and> x = y"
proof
  assume "framed v @ x = framed w @ y"
  then have "show_nat (length v) = show_nat (length w) \<and> v @ x = w @ y"
    using split_at_sep [OF show_nat_no_colon show_nat_no_colon] by (simp add: framed_def)
  then show "v = w \<and> x = y" by (auto simp: show_nat_inj append_eq_append_conv)
qed simp

lemma frames_inj: "concat (map framed vs) = concat (map framed ws) \<longleftrightarrow> vs = ws"
proof (induction vs arbitrary: ws)
  case Nil
  then show ?case by (cases ws) (auto simp: framed_def)
next
  case (Cons v vs)
  then show ?case by (cases ws) (auto simp: framed_split, auto simp: framed_def)
qed

lemma state_at_least_simps [simp]:
  "state_at_least StIntent t \<longleftrightarrow> t = StIntent"
  "state_at_least StReady StSafety = False" "state_at_least StReady StValidated = False"
  "state_at_least StSafety StSafety" "state_at_least StSafety StValidated = False"
  by (cases t) (simp_all add: state_at_least_def ordered_states_def Let_def)

text \<open>
  C30. The seal of the export passphrase binds the restore: two markers with the same additional
  data agree on the restore, the controller instance, the prepared files with their sizes and
  digests, the authorizing administrator and the preview and plan that were confirmed, whatever
  bytes their texts hold.
\<close>

theorem intent_aad_binds:
  "intent_aad m = intent_aad m' \<longleftrightarrow>
     k_id m = k_id m' \<and> k_owner m = k_owner m' \<and> k_dir m = k_dir m' \<and> k_db_name m = k_db_name m' \<and>
     k_key_name m = k_key_name m' \<and> k_new_db m = k_new_db m' \<and> k_new_key m = k_new_key m' \<and>
     k_admin m = k_admin m' \<and> k_user m = k_user m' \<and> k_preview m = k_preview m' \<and> k_plan m = k_plan m'"
proof -
  have "intent_aad m = intent_aad m' \<longleftrightarrow> intent_values m = intent_values m'"
    by (simp only: intent_aad_def append_same_eq same_append_eq frames_inj)
  moreover have "a = b \<longleftrightarrow> fr_size a = fr_size b \<and> fr_sha a = fr_sha b" for a b :: file_record by auto
  ultimately show ?thesis by (simp only: intent_values_def list.inject itoa_inj show_nat_inj) blast
qed

end
