(* ===== verification/SwapFs.thy ===== *)
theory SwapFs
  imports SwapMarker
begin

text \<open>
  The file operations of \<open>internal/restoreswap\<close> (\<open>files.go\<close>, \<open>reconcile.go\<close>, \<open>marker.go\<close>,
  \<open>suppression.go\<close>, \<open>receipt.go\<close>): the data directory, and programs over it that may fail or be
  killed at every system call.

  A path is the list of its components below the data directory. A file carries its size and
  digest, which is all the program compares, and the document it decodes to when it holds one. The
  temporary file a document is written to before it is published has a fresh random name that
  nothing reads, and is left out; so is the stage to which \<open>portablebackup\<close> extracts an archive
  that is authenticated. A kill may leave either behind; the model says nothing of them.
\<close>

section \<open>The data directory\<close>

record receipt =
  v_format :: string
  v_version :: int
  v_restore :: string
  v_created :: string
  v_safety :: string
  v_safety_sha :: string
  v_db_sha :: string
  v_key_sha :: string
  v_admin :: int
  v_user :: string
  v_preview :: string
  v_plan :: string
  v_counts :: inventory

record fence =
  fe_format :: string
  fe_version :: int
  fe_restore :: string
  fe_created :: string
  fe_reason :: string

datatype doc_file = MarkerDoc marker | FenceDoc fence | ReceiptDoc receipt

text \<open>\<open>Strange\<close> is a symbolic link, another special file, or anything of other permission bits.\<close>

datatype node = File file_record "doc_file option" | Dir | Strange

type_synonym path = "string list"
type_synonym fsys = "(path \<times> node) list"

definition databaseName :: string where "databaseName = ''oonfeewrt.db''"
definition keyringName :: string where "keyringName = ''keyring.json''"
definition markerName :: string where "markerName = ''pending-restore.json''"
definition suppressionName :: string where "suppressionName = ''.oonfeewrt-router-writes-suppressed.json''"
definition appliedReceiptName :: string where "appliedReceiptName = ''restore-applied-receipt.json''"
definition markerMaxBytes :: nat where "markerMaxBytes = 64 * 2 ^ 10"

definition marker_path :: path where "marker_path = [recoveryDirName, markerName]"
definition receipt_path :: path where "receipt_path = [recoveryDirName, appliedReceiptName]"
definition fence_path :: path where "fence_path = [suppressionName]"
definition safety_path :: "marker \<Rightarrow> path" where "safety_path m = [recoveryDirName, safety_name m]"
definition rollback_dir :: "marker \<Rightarrow> path" where "rollback_dir m = [recoveryDirName, rollback_name m]"

definition dir_entries :: "fsys \<Rightarrow> path \<Rightarrow> string list" where
  "dir_entries d p = map (last \<circ> fst) (filter (\<lambda>e. fst e \<noteq> [] \<and> butlast (fst e) = p) d)"

definition parent_there :: "fsys \<Rightarrow> path \<Rightarrow> bool" where
  "parent_there d p \<longleftrightarrow> length p \<le> 1 \<or> map_of d (butlast p) = Some Dir"

section \<open>Programs that may fail or be killed\<close>

text \<open>
  What happens to the system calls of a run is a list: a call is carried out, it fails without an
  effect, or the process is killed before it. Calls after the list are carried out.
\<close>

datatype fault = Pass | Break | Stop

record world =
  disk :: fsys
  faults :: "fault list"

datatype io_error =
    NotExist | Exists | NoPending | Unclean | NoReceipt | Fault | Refused string
  | Joined io_error io_error | Retained io_error

datatype 'a outcome_of = Done 'a | Failed io_error | Crashed

type_synonym 'a io = "world \<Rightarrow> 'a outcome_of \<times> world"

definition ret :: "'a \<Rightarrow> 'a io" where
  "ret a w = (Done a, w)"

definition raise :: "io_error \<Rightarrow> 'a io" where
  "raise e w = (Failed e, w)"

definition andthen :: "'a io \<Rightarrow> ('a \<Rightarrow> 'b io) \<Rightarrow> 'b io" where
  "andthen p f w =
     (case p w of (Done a, w') \<Rightarrow> f a w' | (Failed e, w') \<Rightarrow> (Failed e, w') | (Crashed, w') \<Rightarrow> (Crashed, w'))"

definition catching :: "'a io \<Rightarrow> (io_error \<Rightarrow> 'a io) \<Rightarrow> 'a io" where
  "catching p h w = (case p w of (Failed e, w') \<Rightarrow> h e w' | r \<Rightarrow> r)"

definition attempt :: "'a io \<Rightarrow> (io_error + 'a) io" where
  "attempt p = catching (andthen p (\<lambda>a. ret (Inr a))) (\<lambda>e. ret (Inl e))"

definition thence :: "unit io \<Rightarrow> 'a io \<Rightarrow> 'a io" where
  "thence p q = andthen p (\<lambda>_. q)"

fun in_turn :: "unit io list \<Rightarrow> unit io" where
  "in_turn [] = ret ()"
| "in_turn (p # ps) = thence p (in_turn ps)"

definition require :: "bool \<Rightarrow> string \<Rightarrow> unit io" where
  "require b why = (if b then ret () else raise (Refused why))"

text \<open>One system call: \<open>f\<close> says what it does to the directory, or why it fails.\<close>

definition step :: "(fsys \<Rightarrow> io_error + 'a \<times> fsys) \<Rightarrow> 'a io" where
  "step f w =
     (case faults w of
        Break # r \<Rightarrow> (Failed Fault, w\<lparr>faults := r\<rparr>)
      | Stop # r \<Rightarrow> (Crashed, w\<lparr>faults := r\<rparr>)
      | r \<Rightarrow> (case f (disk w) of
                Inl e \<Rightarrow> (Failed e, w\<lparr>faults := tl r\<rparr>)
              | Inr (a, d) \<Rightarrow> (Done a, \<lparr>disk = d, faults = tl r\<rparr>)))"

text \<open>
  A call whose outcome is no part of the model but that may fail: a look at the context, at the
  identity of the data directory or at the device of a file, reading or closing an open file.
\<close>

definition check :: "unit io" where
  "check = step (\<lambda>d. Inr ((), d))"

definition lstat :: "path \<Rightarrow> node option io" where
  "lstat p = step (\<lambda>d. Inr (map_of d p, d))"

definition sync_dir :: "path \<Rightarrow> unit io" where
  "sync_dir p = step (\<lambda>d. if p = [] \<or> map_of d p = Some Dir then Inr ((), d) else Inl NotExist)"

definition make_dir :: "path \<Rightarrow> unit io" where
  "make_dir p = step (\<lambda>d. if map_of d p \<noteq> None then Inl Exists
     else if parent_there d p then Inr ((), put p Dir d) else Inl NotExist)"

definition remove_file :: "path \<Rightarrow> unit io" where
  "remove_file p = step (\<lambda>d. case map_of d p of
       None \<Rightarrow> Inl NotExist
     | Some Dir \<Rightarrow> (if dir_entries d p = [] then Inr ((), del p d) else Inl (Refused ''directory not empty''))
     | Some nd \<Rightarrow> Inr ((), del p d))"

definition rename_file :: "path \<Rightarrow> path \<Rightarrow> unit io" where
  "rename_file p q = step (\<lambda>d. case map_of d p of
       None \<Rightarrow> Inl NotExist
     | Some nd \<Rightarrow> (if parent_there d q then Inr ((), put q nd (del p d)) else Inl NotExist))"

definition list_dir :: "path \<Rightarrow> string list io" where
  "list_dir p = step (\<lambda>d. if map_of d p = Some Dir then Inr (dir_entries d p, d) else Inl NotExist)"

section \<open>What the model leaves to its parameters\<close>

text \<open>
  The rest of the controller and the libraries, beside the texts of the marker: the encoding of a
  document, the schema version of this build, the clock, and the packages \<open>secrets\<close>,
  \<open>store\<close> with \<open>recovery\<close>, and \<open>portablebackup\<close>. Each is a function of the contents of the
  files it reads; a call of one may also fail or be killed (\<open>check\<close>).
\<close>

record outside = texts +
  o_json :: "doc_file \<Rightarrow> file_record"
  o_schema :: int
  o_now :: "string option"
  o_fresh_id :: string
  o_open :: "file_record \<Rightarrow> bool"
  o_seal :: "string \<Rightarrow> string \<Rightarrow> string option"
  o_unseal :: "file_record \<Rightarrow> string \<Rightarrow> string \<Rightarrow> string option"
  o_validate :: "file_record \<Rightarrow> file_record \<Rightarrow> inventory option"
  o_backup :: "file_record \<Rightarrow> file_record \<Rightarrow> string \<Rightarrow> string \<Rightarrow> int \<Rightarrow> string \<Rightarrow> file_record option"
  o_extract :: "file_record \<Rightarrow> string \<Rightarrow> file_record option"

section \<open>Reading and comparing\<close>

definition hash_file :: "path \<Rightarrow> nat \<Rightarrow> nat \<Rightarrow> file_record io" where
  "hash_file p lo hi =
     thence check (andthen (lstat p) (\<lambda>n. case n of
         None \<Rightarrow> raise NotExist
       | Some (File r c) \<Rightarrow>
           (if lo \<le> fr_size r \<and> fr_size r \<le> hi then thence check (ret r)
            else raise (Refused ''file must be a bounded regular 0600 file''))
       | Some nd \<Rightarrow> raise (Refused ''file must be a bounded regular 0600 file'')))"

definition read_doc :: "path \<Rightarrow> doc_file option io" where
  "read_doc p =
     andthen (lstat p) (\<lambda>n. case n of
         None \<Rightarrow> raise NotExist
       | Some (File r c) \<Rightarrow>
           (if 1 \<le> fr_size r \<and> fr_size r \<le> markerMaxBytes then thence check (ret c)
            else raise (Refused ''unsafe or oversized regular file''))
       | Some nd \<Rightarrow> raise (Refused ''unsafe or oversized regular file''))"

datatype path_match = MatchMissing | MatchExpected | MatchOther

definition path_record :: "path \<Rightarrow> file_record \<Rightarrow> nat \<Rightarrow> path_match io" where
  "path_record p want hi =
     andthen (lstat p) (\<lambda>n. case n of
         None \<Rightarrow> ret MatchMissing
       | Some (File r c) \<Rightarrow>
           (if hi < fr_size r then ret MatchOther
            else andthen (hash_file p 1 hi) (\<lambda>got. ret (if got = want then MatchExpected else MatchOther)))
       | Some nd \<Rightarrow> raise (Refused ''restore swap: member path is unsafe''))"

definition require_hash :: "path \<Rightarrow> file_record \<Rightarrow> nat \<Rightarrow> unit io" where
  "require_hash p want hi =
     andthen (path_record p want hi) (\<lambda>x. require (x = MatchExpected)
       ''restore swap: file is missing or does not match its recorded digest'')"

definition locate_expected :: "file_record \<Rightarrow> path \<Rightarrow> path \<Rightarrow> nat \<Rightarrow> path io" where
  "locate_expected want primary fallback hi =
     andthen (path_record primary want hi) (\<lambda>x. if x = MatchExpected then ret primary
       else andthen (path_record fallback want hi) (\<lambda>y. if y = MatchExpected then ret fallback
         else raise (Refused ''restore swap: recorded old controller member is unavailable'')))"

section \<open>Renaming, removing and publishing\<close>

definition rename_no_clobber :: "path \<Rightarrow> path \<Rightarrow> unit io" where
  "rename_no_clobber p q =
     andthen (lstat q) (\<lambda>n. if n \<noteq> None then raise Exists else rename_file p q)"

definition sync_rename_parents :: "path \<Rightarrow> path \<Rightarrow> unit io" where
  "sync_rename_parents p q =
     thence (sync_dir (butlast p)) (if butlast q \<noteq> butlast p then sync_dir (butlast q) else ret ())"

definition move_file :: "path \<Rightarrow> path \<Rightarrow> unit io" where
  "move_file p q = thence (rename_no_clobber p q) (sync_rename_parents p q)"

text \<open>\<open>writeJSONAtomic\<close>: create, write, sync and close the temporary, publish it, sync the parent.\<close>

definition publish_doc :: "file_record \<Rightarrow> path \<Rightarrow> doc_file \<Rightarrow> bool \<Rightarrow> unit io" where
  "publish_doc r p c no_clobber = step (\<lambda>d.
     if \<not> parent_there d p then Inl NotExist
     else if no_clobber \<and> map_of d p \<noteq> None then Inl Exists
     else if map_of d p = Some Dir then Inl Exists
     else Inr ((), put p (File r (Some c)) d))"

definition write_doc :: "('a outside_scheme) \<Rightarrow> path \<Rightarrow> doc_file \<Rightarrow> bool \<Rightarrow> unit io" where
  "write_doc ot p c no_clobber =
     (let r = o_json ot c
      in if fr_size r = 0 \<or> markerMaxBytes < fr_size r
         then raise (Refused ''restore swap: durable marker exceeds its size ceiling'')
         else in_turn ([check, check, check, check, publish_doc r p c no_clobber, sync_dir (butlast p)]
                @ (if no_clobber then [check, sync_dir (butlast p)] else [])))"

definition real_dir :: "path \<Rightarrow> string \<Rightarrow> unit io" where
  "real_dir p why = andthen (lstat p) (\<lambda>n. require (n = Some Dir) why)"

definition require_exact_directory :: "path \<Rightarrow> string list \<Rightarrow> unit io" where
  "require_exact_directory p members =
     thence (real_dir p ''restore swap: prepared directory must be a private real directory'')
       (andthen (list_dir p) (\<lambda>names. require (sort names = sort members)
          ''restore swap: prepared directory contains unexpected entries''))"

definition require_directory_subset :: "path \<Rightarrow> string list \<Rightarrow> unit io" where
  "require_directory_subset p allowed =
     thence (real_dir p ''restore swap: owned directory is unsafe'')
       (andthen (list_dir p) (\<lambda>names. require (list_all (\<lambda>n. n \<in> set allowed) names)
          ''restore swap: owned directory contains an unexpected entry''))"

definition validate_recovery_dir :: "unit io" where
  "validate_recovery_dir =
     thence (real_dir [recoveryDirName] ''restore swap: recovery directory must be a private real directory'')
       (in_turn [check, check])"

definition ensure_recovery_dir :: "unit io" where
  "ensure_recovery_dir =
     andthen (lstat [recoveryDirName]) (\<lambda>n.
       thence (if n = None then in_turn [make_dir [recoveryDirName], sync_dir []] else ret ())
         validate_recovery_dir)"

text \<open>Empty side files of SQLite are removed; one with content refuses the promotion.\<close>

definition remove_sidecar :: "string \<Rightarrow> unit io" where
  "remove_sidecar name =
     andthen (lstat [name]) (\<lambda>n. case n of
         None \<Rightarrow> ret ()
       | Some (File r c) \<Rightarrow> (if fr_size r = 0 then remove_file [name] else raise (Refused ''SQLite sidecar is nonempty or unsafe''))
       | Some nd \<Rightarrow> raise (Refused ''SQLite sidecar is nonempty or unsafe''))"

definition remove_safe_sqlite_sidecars :: "unit io" where
  "remove_safe_sqlite_sidecars =
     in_turn [remove_sidecar (databaseName @ ''-wal''), remove_sidecar (databaseName @ ''-shm''),
       remove_sidecar (databaseName @ ''-journal''), sync_dir []]"

section \<open>The marker on disk\<close>

definition is_ready_doc :: "('a outside_scheme) \<Rightarrow> doc_file option \<Rightarrow> marker option" where
  "is_ready_doc ot c =
     (case c of Some (MarkerDoc m) \<Rightarrow> (if validate_marker ot (o_schema ot) m = None then Some m else None)
      | _ \<Rightarrow> None)"

definition read_marker :: "('a outside_scheme) \<Rightarrow> marker io" where
  "read_marker ot =
     andthen (lstat [recoveryDirName]) (\<lambda>n. if n = None then raise NoPending
       else thence validate_recovery_dir
         (andthen (catching (read_doc marker_path) (\<lambda>e. raise (if e = NotExist then NoPending else e)))
           (\<lambda>c. case is_ready_doc ot c of
                  Some m \<Rightarrow> ret m
                | None \<Rightarrow> raise (Refused ''restore swap: pending marker is malformed''))))"

definition save_marker :: "('a outside_scheme) \<Rightarrow> bool \<Rightarrow> marker \<Rightarrow> unit io" where
  "save_marker ot no_clobber m =
     (if validate_marker ot (o_schema ot) m = None
      then write_doc ot marker_path (MarkerDoc m) no_clobber
      else raise (Refused ''restore swap: pending marker is malformed''))"

abbreviation write_marker_new :: "('a outside_scheme) \<Rightarrow> marker \<Rightarrow> unit io" where
  "write_marker_new ot \<equiv> save_marker ot True"

abbreviation replace_marker :: "('a outside_scheme) \<Rightarrow> marker \<Rightarrow> unit io" where
  "replace_marker ot \<equiv> save_marker ot False"

definition remove_marker :: "unit io" where
  "remove_marker =
     andthen (lstat marker_path) (\<lambda>n. case n of
         None \<Rightarrow> ret ()
       | Some (File r c) \<Rightarrow> thence (remove_file marker_path) (sync_dir [recoveryDirName])
       | Some nd \<Rightarrow> raise (Refused ''restore swap: pending marker is unsafe to remove''))"

end
