(* ===== verification/RestoreSwap.thy ===== *)
theory RestoreSwap
  imports SwapFs
begin

text \<open>
  The restore of a controller (\<open>internal/restoreswap\<close>): the intent, its promotion at a clean
  shutdown, and the swap of the database and keyring at the next start, with its rollback. The test
  hook \<open>boundary\<close> is \<open>nil\<close> in the program and is left out. The runtime passphrase of a start is part
  of the parameters \<open>o_open\<close> and \<open>o_validate\<close>.
\<close>

section \<open>The fence and the receipt\<close>

definition suppressionFormat :: string where "suppressionFormat = ''oonfeewrt-router-write-suppression''"
definition suppressionReason :: string where
  "suppressionReason = ''restored controller state requires owner review before router writes''"
definition appliedReceiptFormat :: string where "appliedReceiptFormat = ''oonfeewrt-restore-applied''"
definition appliedReceiptVersion :: int where "appliedReceiptVersion = 1"

definition fence_ok :: "('a outside_scheme) \<Rightarrow> fence \<Rightarrow> bool" where
  "fence_ok ot v \<longleftrightarrow>
     fe_format v = suppressionFormat \<and> fe_version v = 1 \<and> valid_restore_id (fe_restore v) \<and> tx_utc ot (fe_created v) \<and>
     fe_reason v = suppressionReason"

definition read_suppression :: "('a outside_scheme) \<Rightarrow> fence io" where
  "read_suppression ot =
     andthen (read_doc fence_path) (\<lambda>c. case c of
         Some (FenceDoc v) \<Rightarrow> (if fence_ok ot v then ret v else raise (Refused ''restore swap: router-write suppression is invalid''))
       | _ \<Rightarrow> raise (Refused ''restore swap: router-write suppression is malformed''))"

definition new_fence :: "marker \<Rightarrow> string \<Rightarrow> fence" where
  "new_fence m created =
     \<lparr>fe_format = suppressionFormat, fe_version = 1, fe_restore = k_id m, fe_created = created, fe_reason = suppressionReason\<rparr>"

definition ensure_suppression :: "('a outside_scheme) \<Rightarrow> marker \<Rightarrow> unit io" where
  "ensure_suppression ot m =
     andthen (catching (andthen (read_suppression ot) (\<lambda>v. ret (Some v)))
                (\<lambda>e. if e = NotExist then ret None else raise e))
       (\<lambda>v. case v of
          Some f \<Rightarrow> require (fe_restore f = k_id m) ''restore swap: an earlier router-write suppression is still active''
        | None \<Rightarrow> (case o_now ot of
              None \<Rightarrow> raise (Refused ''restore swap: suppression creation time is invalid'')
            | Some t \<Rightarrow> write_doc ot fence_path (FenceDoc (new_fence m t)) True))"

definition clear_suppression :: "('a outside_scheme) \<Rightarrow> string \<Rightarrow> unit io" where
  "clear_suppression ot restore =
     in_turn [check, require (valid_restore_id restore) ''restore swap: restore ID is invalid'', check, check,
       andthen (read_suppression ot) (\<lambda>v. require (fe_restore v = restore)
         ''restore swap: router-write suppression belongs to another restore''),
       check, remove_file fence_path, sync_dir [], check]"

definition receipt_for :: "marker \<Rightarrow> receipt" where
  "receipt_for m =
     \<lparr>v_format = appliedReceiptFormat, v_version = appliedReceiptVersion, v_restore = k_id m,
      v_created = k_safety_at m, v_safety = safety_name m, v_safety_sha = fr_sha (k_safety m),
      v_db_sha = fr_sha (k_new_db m), v_key_sha = fr_sha (k_new_key m), v_admin = k_admin m, v_user = k_user m,
      v_preview = k_preview m, v_plan = k_plan m, v_counts = k_counts m\<rparr>"

definition receipt_ok :: "('a outside_scheme) \<Rightarrow> receipt \<Rightarrow> bool" where
  "receipt_ok ot v \<longleftrightarrow>
     v_format v = appliedReceiptFormat \<and> v_version v = appliedReceiptVersion \<and> valid_restore_id (v_restore v) \<and>
     tx_utc ot (v_created v) \<and> v_safety v = ''safety-'' @ v_restore v @ ''.oowrtbak'' \<and>
     lower_hex 64 (v_safety_sha v) \<and> lower_hex 64 (v_db_sha v) \<and> lower_hex 64 (v_key_sha v) \<and>
     0 < v_admin v \<and> valid_bounded_text (v_user v) 1 128 \<and> valid_bounded_text (v_preview v) 1 128 \<and>
     valid_bounded_text (v_plan v) 1 128 \<and> iv_schema (v_counts v) = o_schema ot \<and> valid_counts (v_counts v)"

definition read_applied_receipt :: "('a outside_scheme) \<Rightarrow> receipt io" where
  "read_applied_receipt ot =
     andthen (catching (read_doc receipt_path) (\<lambda>e. raise (if e = NotExist then NoReceipt else e)))
       (\<lambda>c. case c of
          Some (ReceiptDoc v) \<Rightarrow> (if receipt_ok ot v then ret v else raise (Refused ''restore swap: applied audit receipt is invalid''))
        | _ \<Rightarrow> raise (Refused ''restore swap: applied audit receipt is malformed''))"

definition ensure_applied_receipt :: "('a outside_scheme) \<Rightarrow> marker \<Rightarrow> unit io" where
  "ensure_applied_receipt ot m =
     andthen (catching (andthen (read_applied_receipt ot) (\<lambda>v. ret (Some v)))
                (\<lambda>e. if e = NoReceipt then ret None else raise e))
       (\<lambda>v. case v of
          Some got \<Rightarrow> require (got = receipt_for m) ''restore swap: an earlier applied audit receipt is still pending''
        | None \<Rightarrow> write_doc ot receipt_path (ReceiptDoc (receipt_for m)) True)"

section \<open>The prepared pair and the rollback directory\<close>

definition prepared_db :: "marker \<Rightarrow> path" where "prepared_db m = [k_dir m, k_db_name m]"
definition prepared_key :: "marker \<Rightarrow> path" where "prepared_key m = [k_dir m, k_key_name m]"
definition rollback_db :: "marker \<Rightarrow> path" where "rollback_db m = rollback_dir m @ [databaseName]"
definition rollback_key :: "marker \<Rightarrow> path" where "rollback_key m = rollback_dir m @ [keyringName]"
definition live_db :: path where "live_db = [databaseName]"
definition live_key :: path where "live_key = [keyringName]"

definition unchanged_member :: "path \<Rightarrow> file_record \<Rightarrow> nat \<Rightarrow> unit io" where
  "unchanged_member p want hi =
     andthen (catching (hash_file p 1 hi) (\<lambda>e. raise (Refused ''restore swap: prepared pair changed after intent creation'')))
       (\<lambda>got. require (got = want) ''restore swap: prepared pair changed after intent creation'')"

definition verify_prepared :: "marker \<Rightarrow> unit io" where
  "verify_prepared m =
     in_turn [require_exact_directory [k_dir m] [k_db_name m, k_key_name m],
       unchanged_member (prepared_db m) (k_new_db m) MaxDatabaseBytes,
       unchanged_member (prepared_key m) (k_new_key m) keyringMaxBytes]"

definition remove_prepared_member :: "path \<Rightarrow> file_record \<Rightarrow> nat \<Rightarrow> bool \<Rightarrow> unit io" where
  "remove_prepared_member p want hi partially =
     andthen (catching (andthen (hash_file p 1 hi) (\<lambda>got. ret (Some got)))
                (\<lambda>e. if e = NotExist \<and> partially then ret None
                     else raise (Refused ''restore swap: prepared member is unsafe to remove'')))
       (\<lambda>got. case got of
          None \<Rightarrow> ret ()
        | Some r \<Rightarrow> thence (require (r = want) ''restore swap: prepared member is unsafe to remove'') (remove_file p))"

definition remove_prepared_owned :: "marker \<Rightarrow> bool \<Rightarrow> unit io" where
  "remove_prepared_owned m partially =
     andthen (lstat [k_dir m]) (\<lambda>n.
       if n = None \<and> partially then ret ()
       else if n \<noteq> Some Dir then raise (Refused ''restore swap: prepared directory is unsafe to remove'')
       else in_turn [require_directory_subset [k_dir m] [k_db_name m, k_key_name m],
              remove_prepared_member (prepared_db m) (k_new_db m) MaxDatabaseBytes partially,
              remove_prepared_member (prepared_key m) (k_new_key m) keyringMaxBytes partially,
              require_exact_directory [k_dir m] [], remove_file [k_dir m], sync_dir []])"

definition remove_rollback_member :: "path \<Rightarrow> file_record \<Rightarrow> nat \<Rightarrow> unit io" where
  "remove_rollback_member p want hi =
     andthen (path_record p want hi) (\<lambda>x. if x = MatchMissing then ret ()
       else if x \<noteq> MatchExpected then raise (Refused ''restore swap: rollback member is unsafe to remove'')
       else remove_file p)"

definition remove_rollback_owned :: "marker \<Rightarrow> unit io" where
  "remove_rollback_owned m =
     andthen (lstat (rollback_dir m)) (\<lambda>n.
       if n = None then ret ()
       else if n \<noteq> Some Dir then raise (Refused ''restore swap: rollback directory is unsafe to remove'')
       else in_turn [require_directory_subset (rollback_dir m) [databaseName, keyringName],
              remove_rollback_member (rollback_db m) (k_old_db m) MaxDatabaseBytes,
              remove_rollback_member (rollback_key m) (k_old_key m) keyringMaxBytes,
              require_exact_directory (rollback_dir m) [], remove_file (rollback_dir m), sync_dir [recoveryDirName]])"

definition ensure_rollback_directory :: "marker \<Rightarrow> unit io" where
  "ensure_rollback_directory m =
     andthen (lstat (rollback_dir m)) (\<lambda>n.
       if n = None then in_turn [make_dir (rollback_dir m), sync_dir [recoveryDirName]]
       else require (n = Some Dir) ''restore swap: rollback directory is unsafe'')"

section \<open>Validation of a pair and the safety archive\<close>

definition validate_pair :: "('a outside_scheme) \<Rightarrow> path \<Rightarrow> path \<Rightarrow> file_record \<Rightarrow> file_record \<Rightarrow> inventory io" where
  "validate_pair ot db key want_db want_key =
     thence (in_turn
         [require_hash db want_db MaxDatabaseBytes, require_hash key want_key keyringMaxBytes, check, check,
          require (o_open ot want_key) ''restore swap: open keyring'', check,
          require_hash key want_key keyringMaxBytes, check, check, require_hash db want_db MaxDatabaseBytes, check])
       (case o_validate ot want_db want_key of
          None \<Rightarrow> raise (Refused ''recovery: validation failed'')
        | Some counts \<Rightarrow>
            thence (in_turn [check, require_hash db want_db MaxDatabaseBytes, require_hash key want_key keyringMaxBytes,
                      check, check])
              (ret counts))"

text \<open>
  The archive at hand is authentic and contains the old database; \<open>recorded\<close> is what the marker says
  of it. The archive is extracted to a stage of its own, removed at the end, that is not on the disk
  of the model (\<open>SwapFs\<close>).
\<close>

definition authenticate_safety :: "('a outside_scheme) \<Rightarrow> marker \<Rightarrow> string \<Rightarrow> file_record option \<Rightarrow> file_record io" where
  "authenticate_safety ot m pass recorded =
     andthen (hash_file (safety_path m) 1 safetyMaxBytes) (\<lambda>r.
       thence (in_turn [require (recorded = None \<or> recorded = Some r) ''restore swap: pre-restore safety artifact changed'', check, check])
         (case o_extract ot r pass of
            None \<Rightarrow> raise (Refused ''restore swap: authenticate pre-restore safety artifact'')
          | Some db \<Rightarrow>
              thence check
                (andthen (hash_file (safety_path m) 1 safetyMaxBytes) (\<lambda>again.
                   thence (in_turn [require (again = r) ''restore swap: safety artifact changed while authenticating'',
                       require (db = k_old_db m) ''restore swap: safety artifact does not contain the old controller database'', check])
                     (ret r)))))"

definition verify_safety :: "('a outside_scheme) \<Rightarrow> marker \<Rightarrow> string \<Rightarrow> unit io" where
  "verify_safety ot m pass = andthen (authenticate_safety ot m pass (Some (k_safety m))) (\<lambda>_. ret ())"

text \<open>\<open>portablebackup.Create\<close> publishes the archive whole, and takes it back when a later call fails.\<close>

definition create_archive :: "('a outside_scheme) \<Rightarrow> marker \<Rightarrow> string \<Rightarrow> string \<Rightarrow> int \<Rightarrow> string \<Rightarrow> file_record io" where
  "create_archive ot m pass version schema now =
     andthen (hash_file live_db 1 MaxDatabaseBytes) (\<lambda>db.
       case o_backup ot db (k_old_key m) pass version schema now of
         None \<Rightarrow> raise (Refused ''portable backup'')
       | Some r \<Rightarrow>
           thence check (thence
             (step (\<lambda>d. if map_of d (safety_path m) \<noteq> None then Inl Exists
                else if parent_there d (safety_path m) then Inr ((), put (safety_path m) (File r None) d) else Inl NotExist))
             (thence (catching (sync_dir [recoveryDirName])
                        (\<lambda>e. thence (catching (remove_file (safety_path m)) (\<lambda>_. ret ())) (raise e)))
               (ret r))))"

definition ensure_safety :: "('a outside_scheme) \<Rightarrow> marker \<Rightarrow> string \<Rightarrow> string \<Rightarrow> int \<Rightarrow> marker io" where
  "ensure_safety ot m pass version schema =
     thence check
       (case o_now ot of
          None \<Rightarrow> raise (Refused ''restore swap: current time is invalid'')
        | Some now \<Rightarrow>
            andthen (lstat (safety_path m)) (\<lambda>n.
              andthen
                (if n = None then
                   thence check (andthen (create_archive ot m pass version schema now) (\<lambda>r.
                     thence (in_turn [check, require_hash live_db (k_old_db m) MaxDatabaseBytes]) (ret r)))
                 else authenticate_safety ot m pass None)
                (\<lambda>r. let m' = m\<lparr>k_safety := r, k_safety_at := now\<rparr>; m'' = m'\<lparr>k_state := StSafety\<rparr>
                     in thence (verify_safety ot m' pass) (thence (replace_marker ot m'') (ret m'')))))"

section \<open>The swap\<close>

definition park_old :: "path \<Rightarrow> file_record \<Rightarrow> file_record \<Rightarrow> path \<Rightarrow> nat \<Rightarrow> unit io" where
  "park_old live new old rollback hi =
     (if new = old then require_hash live old hi
      else andthen (path_record rollback old hi) (\<lambda>rs. andthen (path_record live old hi) (\<lambda>cs.
        if rs = MatchExpected then
          (if cs \<noteq> MatchMissing
           then andthen (catching (hash_file live 1 hi) (\<lambda>e. raise (Refused ''restore swap: canonical member conflicts with parked rollback'')))
                  (\<lambda>got. require (got = new) ''restore swap: canonical member conflicts with parked rollback'')
           else ret ())
        else if rs \<noteq> MatchMissing \<or> cs \<noteq> MatchExpected
          then raise (Refused ''restore swap: old controller member is missing or changed'')
        else thence check (move_file live rollback))))"

definition publish_new :: "path \<Rightarrow> path \<Rightarrow> file_record \<Rightarrow> file_record \<Rightarrow> nat \<Rightarrow> unit io" where
  "publish_new live prepared new old hi =
     (if new = old then require_hash live new hi
      else andthen (path_record live new hi) (\<lambda>cs.
        if cs = MatchExpected then ret ()
        else if cs \<noteq> MatchMissing then raise (Refused ''restore swap: canonical destination is not empty before publication'')
        else thence (in_turn [require_hash prepared new hi, check]) (move_file prepared live)))"

definition advance :: "('a outside_scheme) \<Rightarrow> swap_state \<Rightarrow> marker \<Rightarrow> marker io" where
  "advance ot s m =
     (if state_at_least (k_state m) s then ret m
      else thence (replace_marker ot (m\<lparr>k_state := s\<rparr>)) (ret (m\<lparr>k_state := s\<rparr>)))"

text \<open>One member back to where it was; the rollback copy is never overwritten.\<close>

definition restore_member :: "path \<Rightarrow> path \<Rightarrow> path \<Rightarrow> file_record \<Rightarrow> file_record \<Rightarrow> nat \<Rightarrow> unit io" where
  "restore_member live prepared rollback old new hi =
     (if old = new then require_hash live old hi
      else andthen (path_record live old hi) (\<lambda>cs. if cs = MatchExpected then ret ()
        else andthen (path_record live new hi) (\<lambda>ns.
          in_turn
            [if ns = MatchExpected then
               andthen (path_record prepared new hi) (\<lambda>ps.
                 if ps = MatchMissing then move_file live prepared
                 else if ps = MatchExpected then thence (remove_file live) (sync_dir [])
                 else raise (Refused ''restore swap: prepared member conflicts during rollback''))
             else require (ns \<noteq> MatchOther) ''restore swap: canonical member is tampered; refusing destructive rollback'',
             andthen (path_record rollback old hi) (\<lambda>rs.
               require (rs = MatchExpected) ''restore swap: raw rollback member is unavailable''),
             move_file rollback live])))"

definition restore_old :: "('a outside_scheme) \<Rightarrow> marker \<Rightarrow> unit io" where
  "restore_old ot m =
     (let m' = m\<lparr>k_state := StSafety, k_counts := no_inventory\<rparr>
      in in_turn
        [ensure_rollback_directory m,
         restore_member live_db (prepared_db m) (rollback_db m) (k_old_db m) (k_new_db m) MaxDatabaseBytes,
         restore_member live_key (prepared_key m) (rollback_key m) (k_old_key m) (k_new_key m) keyringMaxBytes,
         andthen (validate_pair ot live_db live_key (k_old_db m) (k_old_key m)) (\<lambda>_. ret ()),
         replace_marker ot m',
         remove_rollback_owned m'])"

record swap_result =
  r_restore :: string
  r_safety :: string
  r_safety_sha :: string
  r_counts :: inventory

definition finish_cleanup :: "('a outside_scheme) \<Rightarrow> marker \<Rightarrow> swap_result io" where
  "finish_cleanup ot m =
     thence (in_turn [check, require_hash (safety_path m) (k_safety m) safetyMaxBytes])
       (andthen (validate_pair ot live_db live_key (k_new_db m) (k_new_key m)) (\<lambda>counts.
          thence (in_turn
              [require (counts = k_counts m) ''restore swap: final validation inventory changed'',
               andthen (read_suppression ot) (\<lambda>v. require (fe_restore v = k_id m)
                 ''restore swap: router-write suppression belongs to another restore''),
               ensure_applied_receipt ot m, remove_rollback_owned m, remove_prepared_owned m True, remove_marker, check])
            (ret \<lparr>r_restore = k_id m, r_safety = safety_name m, r_safety_sha = fr_sha (k_safety m), r_counts = counts\<rparr>)))"

text \<open>
  The swap proper, from a recorded safety archive on. Where it fails, \<open>restore_old\<close> puts the old
  pair back; it overwrites the state and the counts of the marker, the two fields that differ
  between the markers at hand when a step fails.
\<close>

definition swap_steps :: "('a outside_scheme) \<Rightarrow> marker \<Rightarrow> marker io" where
  "swap_steps ot m0 =
     thence (ensure_rollback_directory m0)
     (thence (park_old live_db (k_new_db m0) (k_old_db m0) (rollback_db m0) MaxDatabaseBytes)
     (andthen (advance ot StOldDBParked m0) (\<lambda>m1.
      thence (park_old live_key (k_new_key m1) (k_old_key m1) (rollback_key m1) keyringMaxBytes)
     (andthen (advance ot StOldPairParked m1) (\<lambda>m2.
      thence (publish_new live_db (prepared_db m2) (k_new_db m2) (k_old_db m2) MaxDatabaseBytes)
     (andthen (advance ot StNewDBPublished m2) (\<lambda>m3.
      thence (publish_new live_key (prepared_key m3) (k_new_key m3) (k_old_key m3) keyringMaxBytes)
     (andthen (advance ot StNewPairPublished m3) (\<lambda>m4.
      andthen (validate_pair ot live_db live_key (k_new_db m4) (k_new_key m4)) (\<lambda>counts.
      andthen (advance ot StValidated (m4\<lparr>k_counts := counts\<rparr>)) (\<lambda>m5.
      thence (ensure_suppression ot m5)
     (andthen (advance ot StSuppressed m5) (\<lambda>m6.
      advance ot StCleanup m6)))))))))))))"

definition swap_or_restore :: "('a outside_scheme) \<Rightarrow> marker \<Rightarrow> marker io" where
  "swap_or_restore ot m =
     catching (swap_steps ot m)
       (\<lambda>cause. thence (catching (restore_old ot m) (\<lambda>e. raise (Joined cause e))) (raise cause))"

definition apply_ready :: "('a outside_scheme) \<Rightarrow> marker \<Rightarrow> string \<Rightarrow> swap_result io" where
  "apply_ready ot m version =
     andthen (locate_expected (k_old_db m) live_db (rollback_db m) MaxDatabaseBytes) (\<lambda>db.
     andthen (locate_expected (k_old_key m) live_key (rollback_key m) keyringMaxBytes) (\<lambda>key.
     thence (in_turn
        [if db = live_db \<and> key = live_key then verify_prepared m else ret (), check, check,
         require (o_open ot (k_old_key m)) ''restore swap: open old controller keyring'', check,
         require_hash key (k_old_key m) keyringMaxBytes])
       (case tx_decode64 ot (k_sealed m) of
          None \<Rightarrow> raise (Refused ''restore swap: decode sealed export passphrase failed'')
        | Some sealed \<Rightarrow>
          (case o_unseal ot (k_old_key m) sealed (intent_aad m) of
             None \<Rightarrow> raise (Refused ''restore swap: sealed export passphrase authentication failed'')
           | Some pass \<Rightarrow>
             thence (require (pass \<noteq> [] \<and> length pass \<le> passphraseMaxBytes)
                 ''restore swap: sealed export passphrase authentication failed'')
             (andthen (validate_pair ot db key (k_old_db m) (k_old_key m)) (\<lambda>counts.
              andthen
                (if \<not> state_at_least (k_state m) StSafety
                 then thence (require (db = live_db \<and> key = live_key) ''restore swap: swap started before a safety artifact was recorded'')
                        (ensure_safety ot m pass version (iv_schema counts))
                 else thence (verify_safety ot m pass) (ret m))
                (\<lambda>m1. thence check (andthen (swap_or_restore ot m1) (\<lambda>m2.
                   andthen (finish_cleanup ot m2) (\<lambda>res. thence check (ret res)))))))))))"

definition own_passphrase :: "string \<Rightarrow> unit io" where
  "own_passphrase pass =
     in_turn [require (pass \<noteq> []) ''restore swap: passphrase is empty'',
       require (length pass \<le> passphraseMaxBytes) ''restore swap: passphrase exceeds its byte ceiling'']"

definition apply_pending :: "('a outside_scheme) \<Rightarrow> string \<Rightarrow> string \<Rightarrow> swap_result io" where
  "apply_pending ot pass version =
     thence (in_turn
        [check, require (valid_bounded_text version 1 controllerMaxBytes) ''restore swap: controller version is invalid'',
         own_passphrase pass, check, check])
       (andthen (read_marker ot) (\<lambda>m.
          if k_state m = StIntent then raise Unclean
          else if k_state m = StCleanup then finish_cleanup ot m
          else apply_ready ot m version))"

section \<open>The intent\<close>

record prepared_pair =
  pp_db :: path
  pp_key :: path
  pp_admin :: int
  pp_user :: string
  pp_preview :: string
  pp_plan :: string

text \<open>\<open>directChildMember\<close>: the components of the path below the data directory.\<close>

definition direct_child_member :: "path \<Rightarrow> (string \<times> string) option" where
  "direct_child_member p =
     (case p of [d, f] \<Rightarrow> (if safe_base_name d \<and> safe_base_name f then Some (d, f) else None) | _ \<Rightarrow> None)"

definition inspect_prepared :: "prepared_pair \<Rightarrow> (string \<times> string \<times> string \<times> file_record \<times> file_record) io" where
  "inspect_prepared pp =
     (case (direct_child_member (pp_db pp), direct_child_member (pp_key pp)) of
        (Some (dir, db), Some (key_dir, key)) \<Rightarrow>
          thence (in_turn [require (dir = key_dir \<and> db \<noteq> key \<and> dir \<noteq> recoveryDirName)
              ''restore swap: prepared pair must be two files in one dedicated directory'',
              require_exact_directory [dir] [db, key]])
            (andthen (hash_file [dir, db] 1 MaxDatabaseBytes) (\<lambda>rd.
             andthen (hash_file [dir, key] 1 keyringMaxBytes) (\<lambda>rk.
               thence (in_turn [sync_dir [dir], check, check, check]) (ret (dir, db, key, rd, rk)))))
      | _ \<Rightarrow> raise (Refused ''restore swap: prepared path''))"

definition rollback_published_intent :: "('a outside_scheme) \<Rightarrow> marker \<Rightarrow> io_error \<Rightarrow> marker io" where
  "rollback_published_intent ot m cause =
     andthen (catching (andthen (read_marker ot) (\<lambda>cur. ret (cur = m))) (\<lambda>e. ret False))
       (\<lambda>same. if same then thence (catching remove_marker (\<lambda>e. raise (Retained cause))) (raise cause)
               else raise (Retained cause))"

definition reconcile_intent_publication_failure :: "('a outside_scheme) \<Rightarrow> marker \<Rightarrow> io_error \<Rightarrow> marker io" where
  "reconcile_intent_publication_failure ot m cause =
     andthen (catching (lstat marker_path) (\<lambda>e. raise (Retained cause)))
       (\<lambda>n. case n of
          None \<Rightarrow> raise cause
        | Some (File r c) \<Rightarrow> rollback_published_intent ot m cause
        | Some nd \<Rightarrow> raise (Retained cause))"

definition create_intent :: "('a outside_scheme) \<Rightarrow> prepared_pair \<Rightarrow> string \<Rightarrow> string \<Rightarrow> marker io" where
  "create_intent ot pp pass owner =
     thence (in_turn
        [check, require (valid_bounded_text owner 1 instanceMaxBytes) ''restore swap: controller instance ID is invalid'',
         own_passphrase pass, check, ensure_recovery_dir,
         andthen (lstat marker_path) (\<lambda>n. if n = None then ret () else raise Exists)])
     (andthen (inspect_prepared pp) (\<lambda>(dir, db, key, rd, rk).
      thence check
       (case o_now ot of
          None \<Rightarrow> raise (Refused ''restore swap: current time is invalid'')
        | Some now \<Rightarrow>
            (let m = \<lparr>k_format = markerFormat, k_version = markerVersion, k_id = o_fresh_id ot, k_state = StIntent,
                      k_owner = owner, k_created = now, k_dir = dir, k_db_name = db, k_key_name = key, k_new_db = rd,
                      k_new_key = rk, k_admin = pp_admin pp, k_user = pp_user pp, k_preview = pp_preview pp,
                      k_plan = pp_plan pp, k_sealed = [], k_old_db = no_file, k_old_key = no_file, k_safety = no_file,
                      k_safety_at = [], k_counts = no_inventory\<rparr>
             in case o_seal ot pass (intent_aad m) of
                  None \<Rightarrow> raise (Refused ''restore swap: seal export passphrase'')
                | Some sealed \<Rightarrow>
                    (let m' = m\<lparr>k_sealed := tx_encode64 ot sealed\<rparr>
                     in thence check (andthen (attempt (write_marker_new ot m')) (\<lambda>written.
                          case written of
                            Inl e \<Rightarrow> reconcile_intent_publication_failure ot m' e
                          | Inr _ \<Rightarrow> catching (thence check (ret m')) (\<lambda>e. rollback_published_intent ot m' e))))))))"

definition mark_clean_shutdown :: "('a outside_scheme) \<Rightarrow> string \<Rightarrow> marker io" where
  "mark_clean_shutdown ot owner =
     thence (in_turn
        [check, require (valid_bounded_text owner 1 instanceMaxBytes) ''restore swap: controller instance ID is invalid'', check])
     (andthen (read_marker ot) (\<lambda>m.
      thence (in_turn
        [require (k_state m = StIntent) ''restore swap: pending marker is not an unpromoted intent'',
         if k_owner m = owner then ret () else raise Unclean, verify_prepared m, remove_safe_sqlite_sidecars])
     (andthen (hash_file live_db 1 MaxDatabaseBytes) (\<lambda>db.
      andthen (hash_file live_key 1 keyringMaxBytes) (\<lambda>key.
      (let m' = m\<lparr>k_old_db := db, k_old_key := key, k_state := StReady\<rparr>
       in thence (in_turn [check, check, sync_dir [], check, replace_marker ot m', check]) (ret m')))))))"

definition abort_unclean :: "('a outside_scheme) \<Rightarrow> unit io" where
  "abort_unclean ot =
     thence (in_turn [check, check])
       (andthen (read_marker ot) (\<lambda>m. in_turn
         [require (k_state m = StIntent) ''restore swap: only an unclean intent can be aborted'',
          remove_prepared_owned m True, remove_marker]))"

text \<open>What a start of the controller does with a pending restore (\<open>reconcileRestoreStartup\<close>).\<close>

definition reconcile_restore_startup :: "('a outside_scheme) \<Rightarrow> string \<Rightarrow> string \<Rightarrow> swap_result option io" where
  "reconcile_restore_startup ot pass version =
     catching (andthen (apply_pending ot pass version) (\<lambda>res. ret (Some res)))
       (\<lambda>e. if e = NoPending then ret None
            else if e = Unclean then thence (abort_unclean ot) (ret None)
            else raise e)"

section \<open>Looking at a restore\<close>

definition has_pending :: "('a outside_scheme) \<Rightarrow> bool io" where
  "has_pending ot =
     thence check (catching (andthen (read_marker ot) (\<lambda>_. ret True))
       (\<lambda>e. if e = NoPending then ret False else raise e))"

definition owns_unclean_intent :: "('a outside_scheme) \<Rightarrow> string \<Rightarrow> bool io" where
  "owns_unclean_intent ot owner =
     thence (in_turn [require (valid_bounded_text owner 1 instanceMaxBytes) ''restore swap: controller instance ID is invalid'', check])
       (catching
          (andthen (read_marker ot) (\<lambda>m. thence check (ret (k_state m = StIntent \<and> k_owner m = owner))))
          (\<lambda>e. if e = NoPending then ret False else raise e))"

definition suppression_status :: "('a outside_scheme) \<Rightarrow> fence option io" where
  "suppression_status ot =
     thence check
       (andthen (catching (andthen (read_suppression ot) (\<lambda>v. ret (Some v)))
                   (\<lambda>e. if e = NotExist then ret None else raise e))
          (\<lambda>v. thence check (ret v)))"

definition pending_applied_receipt :: "('a outside_scheme) \<Rightarrow> receipt io" where
  "pending_applied_receipt ot = thence check (andthen (read_applied_receipt ot) (\<lambda>v. thence check (ret v)))"

end
