(* ===== verification/SwapLogic.thy ===== *)
theory SwapLogic
  imports RestoreSwap
begin

text \<open>
  Reasoning about programs that may fail or be killed: a triple with one postcondition for each way
  a run may end, and programs that only read.
\<close>

section \<open>Triples\<close>

text \<open>What may happen to a run: nothing, that it is killed, or that calls fail as well.\<close>

datatype weather = Calm | Killed | Faulty

fun allowed :: "weather \<Rightarrow> fault list \<Rightarrow> bool" where
  "allowed Calm fs \<longleftrightarrow> fs = []"
| "allowed Killed fs \<longleftrightarrow> Break \<notin> set fs"
| "allowed Faulty fs \<longleftrightarrow> True"

lemma allowed_tl: "allowed wx fs \<Longrightarrow> allowed wx (tl fs)"
  by (cases wx; cases fs) auto

lemma allowed_cons: "allowed wx (f # fs) \<Longrightarrow> wx \<noteq> Calm \<and> allowed wx fs \<and> (f = Break \<longrightarrow> wx = Faulty)"
  by (cases wx) auto


definition holds :: "weather \<Rightarrow> (fsys \<Rightarrow> bool) \<Rightarrow> 'a io \<Rightarrow> ('a \<Rightarrow> fsys \<Rightarrow> bool) \<Rightarrow> (io_error \<Rightarrow> fsys \<Rightarrow> bool) \<Rightarrow> (fsys \<Rightarrow> bool) \<Rightarrow> bool" where
  "holds wx P p Q F C \<longleftrightarrow>
     (\<forall>w. allowed wx (faults w) \<and> P (disk w) \<longrightarrow>
        (let (r, w') = p w
         in (allowed wx (faults w')) \<and>
            (case r of Done a \<Rightarrow> Q a (disk w') | Failed e \<Rightarrow> F e (disk w') | Crashed \<Rightarrow> C (disk w'))))"

lemma holdsD:
  assumes "holds wx P p Q F C" and "allowed wx (faults w)" and "P (disk w)" and "p w = (r, w')"
  shows "(allowed wx (faults w')) \<and> (case r of Done a \<Rightarrow> Q a (disk w') | Failed e \<Rightarrow> F e (disk w') | Crashed \<Rightarrow> C (disk w'))"
  using assms(1) [unfolded holds_def, rule_format, of w] assms(2-) by simp

lemma holdsI:
  assumes "\<And>w r w'. allowed wx (faults w) \<Longrightarrow> P (disk w) \<Longrightarrow> p w = (r, w') \<Longrightarrow>
    (allowed wx (faults w')) \<and> (case r of Done a \<Rightarrow> Q a (disk w') | Failed e \<Rightarrow> F e (disk w') | Crashed \<Rightarrow> C (disk w'))"
  shows "holds wx P p Q F C"
  unfolding holds_def
proof (intro allI impI)
  fix w :: world
  assume "allowed wx (faults w) \<and> P (disk w)"
  then show "let (r, w') = p w in (allowed wx (faults w')) \<and>
      (case r of Done a \<Rightarrow> Q a (disk w') | Failed e \<Rightarrow> F e (disk w') | Crashed \<Rightarrow> C (disk w'))"
    using assms [of w "fst (p w)" "snd (p w)"] by (simp add: case_prod_beta)
qed

lemma holds_ret: "(\<And>d. P d \<Longrightarrow> Q a d) \<Longrightarrow> holds wx P (ret a) Q F C"
  by (simp add: holds_def ret_def)

lemma holds_raise: "(\<And>d. P d \<Longrightarrow> F e d) \<Longrightarrow> holds wx P (raise e) Q F C"
  by (simp add: holds_def raise_def)

lemma holds_andthen:
  assumes "holds wx P p R F C" and "\<And>a. holds wx (R a) (f a) Q F C"
  shows "holds wx P (andthen p f) Q F C"
proof (rule holdsI)
  fix w :: world and r w2
  assume w: "allowed wx (faults w)" "P (disk w)" and run: "andthen p f w = (r, w2)"
  obtain r1 w1 where p: "p w = (r1, w1)" by (cases "p w")
  note one = holdsD [OF assms(1) w p]
  show "(allowed wx (faults w2)) \<and> (case r of Done a \<Rightarrow> Q a (disk w2) | Failed e \<Rightarrow> F e (disk w2) | Crashed \<Rightarrow> C (disk w2))"
  proof (cases r1)
    case (Done a)
    with run p have "f a w1 = (r, w2)" by (simp add: andthen_def)
    from holdsD [OF assms(2) _ _ this] one Done show ?thesis by simp
  qed (use run p one in \<open>auto simp: andthen_def\<close>)
qed

lemma holds_thence:
  assumes "holds wx P p (\<lambda>_. R) F C" and "holds wx R q Q F C"
  shows "holds wx P (thence p q) Q F C"
  unfolding thence_def by (rule holds_andthen [OF assms(1)]) (rule assms(2))

lemma holds_catching:
  assumes "holds wx P p Q F' C" and "\<And>e. holds wx (F' e) (h e) Q F C"
  shows "holds wx P (catching p h) Q F C"
proof (rule holdsI)
  fix w :: world and r w2
  assume w: "allowed wx (faults w)" "P (disk w)" and run: "catching p h w = (r, w2)"
  obtain r1 w1 where p: "p w = (r1, w1)" by (cases "p w")
  note one = holdsD [OF assms(1) w p]
  show "(allowed wx (faults w2)) \<and> (case r of Done a \<Rightarrow> Q a (disk w2) | Failed e \<Rightarrow> F e (disk w2) | Crashed \<Rightarrow> C (disk w2))"
  proof (cases r1)
    case (Failed e)
    with run p have "h e w1 = (r, w2)" by (simp add: catching_def)
    from holdsD [OF assms(2) _ _ this] one Failed show ?thesis by simp
  qed (use run p one in \<open>auto simp: catching_def\<close>)
qed

lemma holds_conseq:
  assumes "holds wx P p Q F C"
    and "\<And>d. P' d \<Longrightarrow> P d" and "\<And>a d. Q a d \<Longrightarrow> Q' a d" and "\<And>e d. F e d \<Longrightarrow> F' e d" and "\<And>d. C d \<Longrightarrow> C' d"
  shows "holds wx P' p Q' F' C'"
proof (rule holdsI)
  fix w :: world and r w'
  assume w: "allowed wx (faults w)" "P' (disk w)" and run: "p w = (r, w')"
  from holdsD [OF assms(1) w(1) assms(2) [OF w(2)] run]
  show "(allowed wx (faults w')) \<and> (case r of Done a \<Rightarrow> Q' a (disk w') | Failed e \<Rightarrow> F' e (disk w') | Crashed \<Rightarrow> C' (disk w'))"
    by (cases r) (auto intro: assms(3-5))
qed

lemma holds_pre: "holds wx P p Q F C \<Longrightarrow> (\<And>d. P' d \<Longrightarrow> P d) \<Longrightarrow> holds wx P' p Q F C"
  by (rule holds_conseq)

lemma holds_post: "holds wx P p Q F C \<Longrightarrow> (\<And>a d. Q a d \<Longrightarrow> Q' a d) \<Longrightarrow> holds wx P p Q' F C"
  by (rule holds_conseq)

lemma holds_pick: "(\<And>d. P d \<Longrightarrow> holds wx (\<lambda>x. x = d) p Q F C) \<Longrightarrow> holds wx P p Q F C"
  unfolding holds_def by blast

lemma holds_if:
  assumes "b \<Longrightarrow> holds wx P p Q F C" and "\<not> b \<Longrightarrow> holds wx P q Q F C"
  shows "holds wx P (if b then p else q) Q F C"
  using assms by simp

lemma holds_step:
  assumes "\<And>d. P d \<Longrightarrow> case f d of Inl e \<Rightarrow> F e d | Inr (a, d') \<Rightarrow> Q a d'"
    and "\<And>d. P d \<Longrightarrow> wx = Faulty \<Longrightarrow> F Fault d" and "\<And>d. P d \<Longrightarrow> wx \<noteq> Calm \<Longrightarrow> C d"
  shows "holds wx P (step f) Q F C"
  unfolding holds_def step_def
proof (intro allI impI, goal_cases)
  case (1 w)
  then have P: "P (disk w)" and c: "allowed wx (faults w)" by simp_all
  have "allowed wx (tl (faults w))" by (rule allowed_tl [OF c])
  moreover have "wx \<noteq> Calm \<and> (f = Break \<longrightarrow> wx = Faulty)" if "faults w = f # r" for f r
    using allowed_cons c that by metis
  ultimately show ?case
    using assms(1) [OF P] assms(2,3) [OF P]
    by (auto split: list.splits fault.splits sum.splits prod.splits)
qed

section \<open>Programs that only read\<close>

definition still :: "'a io \<Rightarrow> fsys \<Rightarrow> 'a outcome_of" where
  "still p d = fst (p \<lparr>disk = d, faults = []\<rparr>)"

definition reads :: "'a io \<Rightarrow> bool" where
  "reads p \<longleftrightarrow>
     (\<forall>w. disk (snd (p w)) = disk w \<and> (faults w = [] \<longrightarrow> faults (snd (p w)) = [] \<and> fst (p w) \<noteq> Crashed) \<and>
        (\<forall>a. fst (p w) = Done a \<longrightarrow> still p (disk w) = Done a) \<and>
        (Break \<notin> set (faults w) \<longrightarrow> Break \<notin> set (faults (snd (p w))) \<and>
           (\<forall>e. fst (p w) = Failed e \<longrightarrow> still p (disk w) = Failed e)))"

lemma readsD:
  assumes "reads p" and "p w = (r, w')"
  shows "disk w' = disk w" and "faults w = [] \<Longrightarrow> faults w' = [] \<and> r \<noteq> Crashed"
    and "r = Done a \<Longrightarrow> still p (disk w) = Done a"
    and "Break \<notin> set (faults w) \<Longrightarrow> Break \<notin> set (faults w')"
    and "Break \<notin> set (faults w) \<Longrightarrow> r = Failed e \<Longrightarrow> still p (disk w) = Failed e"
  using assms(1) [unfolded reads_def, rule_format, of w] assms(2) by simp_all

lemma readsI:
  assumes "\<And>w r w'. p w = (r, w') \<Longrightarrow> disk w' = disk w \<and> (faults w = [] \<longrightarrow> faults w' = [] \<and> r \<noteq> Crashed) \<and>
    (\<forall>a. r = Done a \<longrightarrow> still p (disk w) = Done a) \<and>
    (Break \<notin> set (faults w) \<longrightarrow> Break \<notin> set (faults w') \<and> (\<forall>e. r = Failed e \<longrightarrow> still p (disk w) = Failed e))"
  shows "reads p"
  unfolding reads_def
proof
  fix w
  show "disk (snd (p w)) = disk w \<and> (faults w = [] \<longrightarrow> faults (snd (p w)) = [] \<and> fst (p w) \<noteq> Crashed) \<and>
      (\<forall>a. fst (p w) = Done a \<longrightarrow> still p (disk w) = Done a) \<and>
      (Break \<notin> set (faults w) \<longrightarrow> Break \<notin> set (faults (snd (p w))) \<and>
         (\<forall>e. fst (p w) = Failed e \<longrightarrow> still p (disk w) = Failed e))"
    by (rule assms) simp
qed

lemma reads_still: "reads p \<Longrightarrow> p \<lparr>disk = d, faults = []\<rparr> = (still p d, \<lparr>disk = d, faults = []\<rparr>)"
  by (rule prod_eqI) (auto simp: reads_def still_def)

lemma reads_holds:
  assumes "reads p"
  shows "holds wx P p (\<lambda>a d. P d \<and> still p d = Done a) (\<lambda>e d. P d \<and> (wx \<noteq> Faulty \<longrightarrow> still p d = Failed e))
    (\<lambda>d. wx \<noteq> Calm \<and> P d)"
  unfolding holds_def
proof (intro allI impI, goal_cases)
  case (1 w)
  obtain r w' where p: "p w = (r, w')" by (cases "p w")
  note r = readsD [OF assms p]
  show ?case using 1 p r by (cases wx) (auto split: outcome_of.split)
qed

text \<open>A read whose value is known.\<close>

lemma holds_read:
  assumes "reads p"
    and "\<And>a d. P d \<Longrightarrow> still p d = Done a \<Longrightarrow> Q a d"
    and "\<And>e d. P d \<Longrightarrow> wx \<noteq> Faulty \<longrightarrow> still p d = Failed e \<Longrightarrow> F e d"
    and "\<And>d. P d \<Longrightarrow> wx \<noteq> Calm \<Longrightarrow> C d"
  shows "holds wx P p Q F C"
proof (rule holds_conseq [OF reads_holds [OF assms(1)]])
  show "P d \<Longrightarrow> P d" for d .
qed (use assms(2-) in blast)+

named_theorems reading \<open>programs that only read\<close>
named_theorems seen \<open>what a read sees on a given disk\<close>

lemma reads_ret [reading]: "reads (ret a)" and still_ret [seen]: "still (ret a) d = Done a"
  by (simp_all add: reads_def ret_def still_def)

lemma reads_raise [reading]: "reads (raise e)" and still_raise [seen]: "still (raise e) d = Failed e"
  by (simp_all add: reads_def raise_def still_def)

lemma reads_step:
  assumes "\<And>d. case f d of Inl e \<Rightarrow> True | Inr (a, d') \<Rightarrow> d' = d"
  shows "reads (step f)"
  using assms unfolding reads_def still_def step_def
  by (force split: list.splits fault.splits sum.splits prod.splits)

lemma still_step: "still (step f) d = (case f d of Inl e \<Rightarrow> Failed e | Inr (a, d') \<Rightarrow> Done a)"
  by (simp add: still_def step_def split: sum.splits prod.splits)

lemma still_andthen [seen]:
  assumes "reads p"
  shows "still (andthen p f) d = (case still p d of Done a \<Rightarrow> still (f a) d | Failed e \<Rightarrow> Failed e | Crashed \<Rightarrow> Crashed)"
  using reads_still [OF assms, of d] by (cases "still p d") (simp_all add: still_def andthen_def)

lemma reads_andthen [reading]:
  assumes "reads p" and "\<And>a. reads (f a)"
  shows "reads (andthen p f)"
proof (rule readsI, goal_cases)
  case (1 w r' w2)
  obtain r w' where p: "p w = (r, w')" by (cases "p w")
  note pd = readsD [OF assms(1) p]
  show ?case
  proof (cases r)
    case (Done a)
    with 1 p have "f a w' = (r', w2)" by (simp add: andthen_def)
    note fd = readsD [OF assms(2) this]
    show ?thesis using fd pd Done by (auto simp: still_andthen [OF assms(1)])
  qed (use 1 p pd in \<open>auto simp: andthen_def still_andthen [OF assms(1)]\<close>)
qed

lemma reads_thence [reading]: "reads p \<Longrightarrow> reads q \<Longrightarrow> reads (thence p q)"
  by (simp add: thence_def reads_andthen)

lemma still_thence [seen]:
  "reads p \<Longrightarrow> still (thence p q) d = (case still p d of Done _ \<Rightarrow> still q d | Failed e \<Rightarrow> Failed e | Crashed \<Rightarrow> Crashed)"
  by (simp add: thence_def still_andthen)

text \<open>
  A program is honest when it reports an error that is not a fault only where a run without faults does. A
  handler may turn such errors into values, and faults into errors only.
\<close>

definition honest :: "'a io \<Rightarrow> bool" where
  "honest p \<longleftrightarrow> (\<forall>w e. fst (p w) = Failed e \<and> e \<noteq> Fault \<longrightarrow> still p (disk w) = Failed e)"

lemma honestD: "honest p \<Longrightarrow> p w = (Failed e, w') \<Longrightarrow> e \<noteq> Fault \<Longrightarrow> still p (disk w) = Failed e"
  unfolding honest_def by (metis fst_conv)

lemma honest_ret [reading]: "honest (ret a)" and honest_raise [reading]: "honest (raise e)"
  by (simp_all add: honest_def ret_def raise_def still_def)

lemma honest_step [reading]: "honest (step f)"
  unfolding honest_def still_step by (auto simp: step_def split: list.splits fault.splits sum.splits prod.splits)

lemma honest_andthen [reading]:
  assumes "reads p" "honest p" "\<And>a. honest (f a)"
  shows "honest (andthen p f)"
  unfolding honest_def
proof (intro allI impI)
  fix w e
  assume run: "fst (andthen p f w) = Failed e \<and> e \<noteq> Fault"
  obtain r w' where p: "p w = (r, w')" by (cases "p w")
  note pd = readsD [OF assms(1) p]
  show "still (andthen p f) (disk w) = Failed e"
  proof (cases r)
    case (Done a)
    then have "still (f a) (disk w') = Failed e" using run p assms(3) [of a] by (auto simp: andthen_def honest_def)
    with pd Done show ?thesis by (simp add: still_andthen [OF assms(1)])
  next
    case (Failed e')
    with run p have "e' = e" "e \<noteq> Fault" by (auto simp: andthen_def)
    then have "still p (disk w) = Failed e" using honestD [OF assms(2)] p Failed by blast
    then show ?thesis by (simp add: still_andthen [OF assms(1)])
  qed (use run p in \<open>auto simp: andthen_def\<close>)
qed

lemma honest_thence [reading]: "reads p \<Longrightarrow> honest p \<Longrightarrow> honest q \<Longrightarrow> honest (thence p q)"
  by (simp add: thence_def honest_andthen)

lemma still_catching [seen]:
  assumes "reads p"
  shows "still (catching p h) d = (case still p d of Failed e \<Rightarrow> still (h e) d | r \<Rightarrow> r)"
  using reads_still [OF assms, of d] by (cases "still p d") (simp_all add: still_def catching_def)

lemma reads_catching [reading]:
  assumes "reads p" "honest p" "\<And>e. reads (h e)" and "\<And>d. \<exists>e. still (h Fault) d = Failed e"
  shows "reads (catching p h)"
proof (rule readsI, goal_cases)
  case (1 w r' w2)
  obtain r w' where p: "p w = (r, w')" by (cases "p w")
  note pd = readsD [OF assms(1) p]
  show ?case
  proof (cases r)
    case (Failed e)
    with 1 p have "h e w' = (r', w2)" by (simp add: catching_def)
    note hd = readsD [OF assms(3) this]
    have "still p (disk w) = Failed e" if "r' = Done b" for b
    proof -
      have "e \<noteq> Fault" using hd(3) [OF that] assms(4) [of "disk w'"] by auto
      then show ?thesis using honestD [OF assms(2)] p Failed by blast
    qed
    with hd pd Failed show ?thesis by (auto simp: still_catching [OF assms(1)])
  qed (use 1 p pd in \<open>auto simp: catching_def still_catching [OF assms(1)]\<close>)
qed

section \<open>The reads of the restore\<close>

lemma reads_in_turn [reading]: "list_all reads ps \<Longrightarrow> reads (in_turn ps)"
  by (induction ps) (auto intro: reading)

lemma still_in_turn [seen]:
  "reads p \<Longrightarrow> still (in_turn (p # ps)) d = (case still p d of Done _ \<Rightarrow> still (in_turn ps) d | Failed e \<Rightarrow> Failed e | Crashed \<Rightarrow> Crashed)"
  "still (in_turn []) d = Done ()"
  by (simp_all add: seen)

lemma reads_require [reading]: "reads (require b why)" "honest (require b why)"
  and still_require [seen]: "still (require b why) d = (if b then Done () else Failed (Refused why))"
  by (simp_all add: require_def reading seen)

lemma reads_check [reading]: "reads check" "honest check" and still_check [seen]: "still check d = Done ()"
  by (auto simp: check_def still_step intro: reads_step honest_step)

lemma reads_lstat [reading]: "reads (lstat p)" "honest (lstat p)" and still_lstat [seen]: "still (lstat p) d = Done (map_of d p)"
  by (auto simp: lstat_def still_step intro: reads_step honest_step)

lemma reads_list_dir [reading]: "reads (list_dir p)" "honest (list_dir p)"
  and still_list_dir [seen]: "still (list_dir p) d = (if map_of d p = Some Dir then Done (dir_entries d p) else Failed NotExist)"
  by (auto simp: list_dir_def still_step intro: reads_step honest_step)

lemma reads_sync_dir [reading]: "reads (sync_dir p)" "honest (sync_dir p)"
  and still_sync_dir [seen]: "still (sync_dir p) d = (if p = [] \<or> map_of d p = Some Dir then Done () else Failed NotExist)"
  by (auto simp: sync_dir_def still_step intro: reads_step honest_step)

lemma reads_hash [reading]: "reads (hash_file p lo hi)" "honest (hash_file p lo hi)"
  unfolding hash_file_def
  by (auto intro!: reading split: option.split node.split)

lemma still_hash [seen]:
  "still (hash_file p lo hi) d =
     (case map_of d p of
        None \<Rightarrow> Failed NotExist
      | Some (File r c) \<Rightarrow> (if lo \<le> fr_size r \<and> fr_size r \<le> hi then Done r else Failed (Refused ''file must be a bounded regular 0600 file''))
      | Some nd \<Rightarrow> Failed (Refused ''file must be a bounded regular 0600 file''))"
  unfolding hash_file_def by (auto simp: seen reading split: option.split node.split)

lemma reads_read_doc [reading]: "reads (read_doc p)" "honest (read_doc p)"
  unfolding read_doc_def by (auto intro!: reading split: option.split node.split)

lemma still_read_doc [seen]:
  "still (read_doc p) d =
     (case map_of d p of
        None \<Rightarrow> Failed NotExist
      | Some (File r c) \<Rightarrow> (if 1 \<le> fr_size r \<and> fr_size r \<le> markerMaxBytes then Done c else Failed (Refused ''unsafe or oversized regular file''))
      | Some nd \<Rightarrow> Failed (Refused ''unsafe or oversized regular file''))"
  unfolding read_doc_def by (auto simp: seen reading split: option.split node.split)

lemma reads_path_record [reading]: "reads (path_record p want hi)" "honest (path_record p want hi)"
  unfolding path_record_def by (auto intro!: reading split: option.split node.split)

lemma still_path_record [seen]:
  "still (path_record p want hi) d =
     (case map_of d p of
        None \<Rightarrow> Done MatchMissing
      | Some (File r c) \<Rightarrow>
          (if hi < fr_size r then Done MatchOther
           else if fr_size r = 0 then Failed (Refused ''file must be a bounded regular 0600 file'')
           else Done (if r = want then MatchExpected else MatchOther))
      | Some nd \<Rightarrow> Failed (Refused ''restore swap: member path is unsafe''))"
  unfolding path_record_def by (auto simp: seen reading split: option.split node.split)

lemma reads_require_hash [reading]: "reads (require_hash p want hi)" "honest (require_hash p want hi)"
  unfolding require_hash_def by (auto intro!: reading)

lemma reads_locate [reading]: "reads (locate_expected want p q hi)" "honest (locate_expected want p q hi)"
  unfolding locate_expected_def by (auto intro!: reading)

lemma reads_real_dir [reading]: "reads (real_dir p why)" "honest (real_dir p why)"
  and still_real_dir [seen]: "still (real_dir p why) d = (if map_of d p = Some Dir then Done () else Failed (Refused why))"
  unfolding real_dir_def by (auto intro!: reading simp: seen reading)

lemma reads_directories [reading]:
  "reads (require_exact_directory p ms)" "reads (require_directory_subset p ms)" "reads validate_recovery_dir"
  unfolding require_exact_directory_def require_directory_subset_def validate_recovery_dir_def
  by (auto intro!: reading)

lemma reads_not_exist [reading]:
  "reads p \<Longrightarrow> honest p \<Longrightarrow> reads (catching p (\<lambda>e. raise (if e = NotExist then e' else e)))"
  "reads p \<Longrightarrow> honest p \<Longrightarrow> reads (catching p (\<lambda>e. raise (Refused why)))"
  "reads p \<Longrightarrow> honest p \<Longrightarrow> k \<noteq> Fault \<Longrightarrow> reads (catching p (\<lambda>e. if e = k \<and> b then ret x else raise (r e)))"
  "reads p \<Longrightarrow> honest p \<Longrightarrow> k \<noteq> Fault \<Longrightarrow> reads (catching p (\<lambda>e. if e = k then ret x else raise e))"
  by (rule reads_catching; auto intro!: reading simp: seen)+

lemma honest_not_exist [reading]:
  "reads p \<Longrightarrow> honest p \<Longrightarrow> honest (catching p (\<lambda>e. raise (if e = NotExist then e' else e)))"
  unfolding honest_def
proof (intro allI impI)
  fix w e
  assume p: "reads p" "\<forall>w e. fst (p w) = Failed e \<and> e \<noteq> Fault \<longrightarrow> still p (disk w) = Failed e"
    and run: "fst (catching p (\<lambda>e. raise (if e = NotExist then e' else e)) w) = Failed e \<and> e \<noteq> Fault"
  obtain r w' where r: "p w = (r, w')" by (cases "p w")
  show "still (catching p (\<lambda>e. raise (if e = NotExist then e' else e))) (disk w) = Failed e"
    using run r p(2) [rule_format, of w] by (cases r) (auto simp: catching_def still_catching [OF p(1)] raise_def seen split: if_splits)
qed

lemma reads_read_marker [reading]: "reads (read_marker ot)" "honest (read_marker ot)"
  unfolding read_marker_def validate_recovery_dir_def
  by (auto intro!: reading split: option.split)

lemma reads_read_suppression [reading]: "reads (read_suppression ot)" "honest (read_suppression ot)"
  unfolding read_suppression_def by (auto intro!: reading split: option.split doc_file.split)

lemma reads_read_receipt [reading]: "reads (read_applied_receipt ot)" "honest (read_applied_receipt ot)"
  unfolding read_applied_receipt_def by (auto intro!: reading split: option.split doc_file.split)

lemma reads_verify_prepared [reading]: "reads (verify_prepared m)"
  unfolding verify_prepared_def unchanged_member_def by (auto intro!: reading)

lemma reads_validate_pair [reading]: "reads (validate_pair ot db key a b)"
  unfolding validate_pair_def by (auto intro!: reading split: option.split)

lemma reads_safety [reading]: "reads (authenticate_safety ot m pass rec)" "reads (verify_safety ot m pass)"
  unfolding verify_safety_def authenticate_safety_def by (auto intro!: reading split: option.split)

end
