(* ===== verification/SwapSafety.thy ===== *)
theory SwapSafety
  imports SwapLogic
begin

text \<open>
  The crash safety of a controller restore: where the old and the new pair are while the swap runs,
  and that every way a run may end keeps them there.
\<close>

section \<open>Effects\<close>

text \<open>A program with one effect: a fault leaves the disk as it was before or after it.\<close>

definition one_effect :: "weather \<Rightarrow> (fsys \<Rightarrow> bool) \<Rightarrow> unit io \<Rightarrow> (fsys \<Rightarrow> bool) \<Rightarrow> bool" where
  "one_effect wx P p Q \<longleftrightarrow> holds wx P p (\<lambda>_. Q) (\<lambda>e d. wx = Faulty \<and> (P d \<or> Q d)) (\<lambda>d. wx \<noteq> Calm \<and> (P d \<or> Q d))"

lemma effect_check: "one_effect wx P check P"
  unfolding one_effect_def by (rule holds_read [OF reads_check(1)]) (auto simp: seen)

lemma effect_sync: "(\<And>d. P d \<Longrightarrow> p = [] \<or> map_of d p = Some Dir) \<Longrightarrow> one_effect wx P (sync_dir p) P"
  unfolding one_effect_def by (rule holds_read [OF reads_sync_dir(1)]) (auto simp: seen)

lemma effect_step:
  assumes "\<And>d. P d \<Longrightarrow> \<exists>d'. f d = Inr ((), d') \<and> Q d'"
  shows "one_effect wx P (step f) Q"
  unfolding one_effect_def by (rule holds_step) (use assms in \<open>fastforce split: sum.splits prod.splits\<close>)+

lemma effect_then:
  assumes "one_effect wx P p P" and "one_effect wx P q Q"
  shows "one_effect wx P (thence p q) Q"
  unfolding one_effect_def
  by (rule holds_thence [OF holds_conseq [OF assms(1) [unfolded one_effect_def]] assms(2) [unfolded one_effect_def]]) auto

lemma then_effect:
  assumes "one_effect wx P p Q" and "one_effect wx Q q Q"
  shows "one_effect wx P (thence p q) Q"
  unfolding one_effect_def
  by (rule holds_thence [OF assms(1) [unfolded one_effect_def] holds_conseq [OF assms(2) [unfolded one_effect_def]]]) auto

lemma effect_ret: "one_effect wx P (ret ()) P"
  unfolding one_effect_def by (rule holds_ret)

lemma effect_write_doc:
  assumes size: "1 \<le> fr_size (o_json ot c) \<and> fr_size (o_json ot c) \<le> markerMaxBytes"
    and P: "\<And>d. P d \<Longrightarrow> parent_there d p \<and> (nc \<longrightarrow> map_of d p = None) \<and> map_of d p \<noteq> Some Dir"
    and Q: "\<And>d. P d \<Longrightarrow> Q (put p (File (o_json ot c) (Some c)) d)"
    and parent: "\<And>d. Q d \<Longrightarrow> butlast p = [] \<or> map_of d (butlast p) = Some Dir"
  shows "one_effect wx P (write_doc ot p c nc) Q"
proof -
  have pub: "one_effect wx P (publish_doc (o_json ot c) p c nc) Q"
    unfolding publish_doc_def by (rule effect_step) (use P Q in auto)
  have last: "one_effect wx Q (in_turn (if nc then [check, sync_dir (butlast p)] else [])) Q"
  proof (cases nc)
    case True
    have "one_effect wx Q (sync_dir (butlast p)) Q" by (rule effect_sync) (rule parent)
    then show ?thesis using True effect_then [OF effect_check effect_then [OF _ effect_ret]] by simp
  qed (simp add: effect_ret)
  have "write_doc ot p c nc = thence check (thence check (thence check (thence check
      (thence (publish_doc (o_json ot c) p c nc) (thence (sync_dir (butlast p))
        (in_turn (if nc then [check, sync_dir (butlast p)] else [])))))))"
    using size by (simp add: write_doc_def Let_def)
  moreover have "one_effect wx Q (sync_dir (butlast p)) Q" by (rule effect_sync) (rule parent)
  ultimately show ?thesis
    using effect_then [OF effect_check] then_effect [OF pub effect_then [OF _ last]] by metis
qed

lemma effect_move:
  assumes P: "\<And>d. P d \<Longrightarrow> \<exists>nd. map_of d p = Some nd \<and> map_of d q = None \<and> parent_there d q \<and> Q (put q nd (del p d))"
    and parents: "\<And>d. Q d \<Longrightarrow> (butlast p = [] \<or> map_of d (butlast p) = Some Dir) \<and> (butlast q = [] \<or> map_of d (butlast q) = Some Dir)"
  shows "one_effect wx P (move_file p q) Q"
proof -
  have ren: "one_effect wx P (rename_file p q) Q"
    unfolding rename_file_def by (rule effect_step) (use P in force)
  have "one_effect wx P (rename_no_clobber p q) Q"
    unfolding rename_no_clobber_def one_effect_def
  proof (rule holds_andthen)
    show "holds wx P (lstat q) (\<lambda>n d. P d \<and> n = None) (\<lambda>e d. wx = Faulty \<and> (P d \<or> Q d)) (\<lambda>d. wx \<noteq> Calm \<and> (P d \<or> Q d))"
      by (rule holds_read [OF reads_lstat(1)]) (use P in \<open>fastforce simp: seen\<close>)+
    show "holds wx (\<lambda>d. P d \<and> n = None) (if n \<noteq> None then raise Exists else rename_file p q) (\<lambda>_. Q)
        (\<lambda>e d. wx = Faulty \<and> (P d \<or> Q d)) (\<lambda>d. wx \<noteq> Calm \<and> (P d \<or> Q d))" for n
      by (cases n) (auto intro: holds_pre [OF ren [unfolded one_effect_def]] holds_raise)
  qed
  moreover have "one_effect wx Q (sync_rename_parents p q) Q"
    unfolding sync_rename_parents_def
  proof (rule effect_then)
    show "one_effect wx Q (sync_dir (butlast p)) Q" by (rule effect_sync) (use parents in blast)
    have "one_effect wx Q (sync_dir (butlast q)) Q" by (rule effect_sync) (use parents in blast)
    then show "one_effect wx Q (if butlast q \<noteq> butlast p then sync_dir (butlast q) else ret ()) Q"
      by (simp add: effect_ret)
  qed
  ultimately show ?thesis unfolding move_file_def by (rule then_effect)
qed

lemma effect_remove:
  assumes "\<And>d. P d \<Longrightarrow> map_of d p \<noteq> None \<and> (map_of d p = Some Dir \<longrightarrow> dir_entries d p = []) \<and> Q (del p d)"
  shows "one_effect wx P (remove_file p) Q"
  unfolding remove_file_def by (rule effect_step) (use assms in \<open>fastforce split: option.split node.split\<close>)

lemma set_dir_entries: "set (dir_entries d p) = {n. map_of d (p @ [n]) \<noteq> None}"
proof -
  have "n \<in> set (dir_entries d p) \<longleftrightarrow> p @ [n] \<in> fst ` set d" for n
    by (force simp: dir_entries_def image_iff)
  then show ?thesis by (auto simp: map_of_eq_None_iff)
qed

section \<open>Where the pairs are\<close>

definition is_file :: "fsys \<Rightarrow> path \<Rightarrow> file_record \<Rightarrow> bool" where
  "is_file d p r \<longleftrightarrow> (\<exists>c. map_of d p = Some (File r c))"

datatype place = Home | Parked | Swapped

text \<open>
  A member of the pair: the old file live and the new one prepared; the old one parked in the
  rollback directory; the new one live. A member the restore does not change stays home.
\<close>

definition member_at :: "fsys \<Rightarrow> place \<Rightarrow> path \<Rightarrow> path \<Rightarrow> path \<Rightarrow> file_record \<Rightarrow> file_record \<Rightarrow> bool" where
  "member_at d pl live prepared rollback old new \<longleftrightarrow>
     (old = new \<longrightarrow> pl = Home) \<and>
     (case pl of
        Home \<Rightarrow> is_file d live old \<and> is_file d prepared new \<and> map_of d rollback = None
      | Parked \<Rightarrow> map_of d live = None \<and> is_file d prepared new \<and> is_file d rollback old
      | Swapped \<Rightarrow> is_file d live new \<and> map_of d prepared = None \<and> is_file d rollback old)"

abbreviation db_at :: "marker \<Rightarrow> place \<Rightarrow> fsys \<Rightarrow> bool" where
  "db_at M pl d \<equiv> member_at d pl live_db (prepared_db M) (rollback_db M) (k_old_db M) (k_new_db M)"

abbreviation key_at :: "marker \<Rightarrow> place \<Rightarrow> fsys \<Rightarrow> bool" where
  "key_at M pl d \<equiv> member_at d pl live_key (prepared_key M) (rollback_key M) (k_old_key M) (k_new_key M)"

text \<open>Markers of one restore differ in the state, the safety archive and the counts only.\<close>

definition same_restore :: "marker \<Rightarrow> marker \<Rightarrow> bool" where
  "same_restore M m \<longleftrightarrow>
     m\<lparr>k_state := k_state M, k_safety := k_safety M, k_safety_at := k_safety_at M, k_counts := k_counts M\<rparr> = M"

definition marker_on :: "marker \<Rightarrow> fsys \<Rightarrow> bool" where
  "marker_on m d \<longleftrightarrow>
     (\<exists>r. map_of d marker_path = Some (File r (Some (MarkerDoc m))) \<and> 1 \<le> fr_size r \<and> fr_size r \<le> markerMaxBytes)"

definition fence_on :: "('a outside_scheme) \<Rightarrow> marker \<Rightarrow> fsys \<Rightarrow> bool" where
  "fence_on ot M d \<longleftrightarrow>
     (\<exists>r v. map_of d fence_path = Some (File r (Some (FenceDoc v))) \<and> 1 \<le> fr_size r \<and> fr_size r \<le> markerMaxBytes \<and>
        fence_ok ot v \<and> fe_restore v = k_id M)"

definition receipt_on :: "('a outside_scheme) \<Rightarrow> marker \<Rightarrow> fsys \<Rightarrow> bool" where
  "receipt_on ot m d \<longleftrightarrow>
     (\<exists>r. map_of d receipt_path = Some (File r (Some (ReceiptDoc (receipt_for m)))) \<and> 1 \<le> fr_size r \<and> fr_size r \<le> markerMaxBytes)"

text \<open>The archive of the old database, under the passphrase of the restore.\<close>

definition archived :: "('a outside_scheme) \<Rightarrow> marker \<Rightarrow> string \<Rightarrow> file_record \<Rightarrow> fsys \<Rightarrow> bool" where
  "archived ot M pass r d \<longleftrightarrow>
     is_file d (safety_path M) r \<and> valid_file_record r 1 safetyMaxBytes \<and> o_extract ot r pass = Some (k_old_db M)"

text \<open>The directories, apart from what is in them.\<close>

definition layout :: "marker \<Rightarrow> fsys \<Rightarrow> bool" where
  "layout M d \<longleftrightarrow>
     distinct (map fst d) \<and> k_dir M \<notin> {databaseName, keyringName, suppressionName} \<and>
     map_of d [recoveryDirName] = Some Dir \<and>
     map_of d (rollback_dir M) \<in> {None, Some Dir} \<and>
     (\<forall>n. map_of d [k_dir M, n] \<noteq> None \<longrightarrow> n \<in> {k_db_name M, k_key_name M}) \<and>
     (\<forall>n. map_of d (rollback_dir M @ [n]) \<noteq> None \<longrightarrow> n \<in> {databaseName, keyringName} \<and> map_of d (rollback_dir M) = Some Dir)"

definition validated :: "('a outside_scheme) \<Rightarrow> marker \<Rightarrow> inventory \<Rightarrow> bool" where
  "validated ot M counts \<longleftrightarrow> o_open ot (k_new_key M) \<and> o_validate ot (k_new_db M) (k_new_key M) = Some counts"

text \<open>A swap under way, with the marker \<open>m\<close> on disk.\<close>

definition swapping :: "('a outside_scheme) \<Rightarrow> marker \<Rightarrow> string \<Rightarrow> place \<Rightarrow> place \<Rightarrow> marker \<Rightarrow> fsys \<Rightarrow> bool" where
  "swapping ot M pass pl pk m d \<longleftrightarrow>
     same_restore M m \<and> validate_marker ot (o_schema ot) m = None \<and> k_state m \<noteq> StIntent \<and>
     marker_on m d \<and> layout M d \<and> map_of d [k_dir M] = Some Dir \<and> db_at M pl d \<and> key_at M pk d \<and>
     (map_of d fence_path = None \<or> fence_on ot M d) \<and> map_of d receipt_path = None \<and>
     (state_at_least (k_state m) StValidated \<longrightarrow> validated ot M (k_counts m)) \<and>
     (state_at_least (k_state m) StSuppressed \<longrightarrow> fence_on ot M d) \<and>
     (if k_state m = StReady
      then pl = Home \<and> pk = Home \<and> (map_of d (safety_path M) = None \<or> (\<exists>r. archived ot M pass r d))
      else archived ot M pass (k_safety m) d)"

text \<open>The new pair is live for good, and what the swap left behind is being removed.\<close>

definition cleaning :: "('a outside_scheme) \<Rightarrow> marker \<Rightarrow> string \<Rightarrow> marker \<Rightarrow> fsys \<Rightarrow> bool" where
  "cleaning ot M pass m d \<longleftrightarrow>
     same_restore M m \<and> validate_marker ot (o_schema ot) m = None \<and> k_state m = StCleanup \<and>
     marker_on m d \<and> layout M d \<and> map_of d [k_dir M] \<in> {None, Some Dir} \<and>
     (map_of d [k_dir M] = None \<longrightarrow> map_of d (prepared_db M) = None \<and> map_of d (prepared_key M) = None) \<and>
     is_file d live_db (k_new_db M) \<and> is_file d live_key (k_new_key M) \<and>
     (map_of d (prepared_db M) = None \<or> is_file d (prepared_db M) (k_new_db M)) \<and>
     (map_of d (prepared_key M) = None \<or> is_file d (prepared_key M) (k_new_key M)) \<and>
     (map_of d (rollback_db M) = None \<or> is_file d (rollback_db M) (k_old_db M)) \<and>
     (map_of d (rollback_key M) = None \<or> is_file d (rollback_key M) (k_old_key M)) \<and>
     fence_on ot M d \<and> (map_of d receipt_path = None \<or> receipt_on ot m d) \<and>
     validated ot M (k_counts m) \<and> archived ot M pass (k_safety m) d"

text \<open>The restore is over: the new pair is live, fenced, with its receipt and the archive of the old one.\<close>

definition restored :: "('a outside_scheme) \<Rightarrow> marker \<Rightarrow> string \<Rightarrow> fsys \<Rightarrow> bool" where
  "restored ot M pass d \<longleftrightarrow>
     map_of d [recoveryDirName] = Some Dir \<and> map_of d marker_path = None \<and>
     map_of d (rollback_dir M) = None \<and> map_of d [k_dir M] = None \<and>
     is_file d live_db (k_new_db M) \<and> is_file d live_key (k_new_key M) \<and> fence_on ot M d \<and>
     (\<exists>m. same_restore M m \<and> validated ot M (k_counts m) \<and> receipt_on ot m d \<and> archived ot M pass (k_safety m) d)"

text \<open>
  Where a run may leave the disk. A marker that says cleanup goes with the new pair, except where
  calls may fail: the sync after the last replacement of the marker may, and the rollback follows.
\<close>

definition settled :: "marker \<Rightarrow> place \<Rightarrow> place \<Rightarrow> bool" where
  "settled M pl pk \<longleftrightarrow> (k_old_db M \<noteq> k_new_db M \<longrightarrow> pl = Swapped) \<and> (k_old_key M \<noteq> k_new_key M \<longrightarrow> pk = Swapped)"

definition under_way :: "weather \<Rightarrow> ('a outside_scheme) \<Rightarrow> marker \<Rightarrow> string \<Rightarrow> fsys \<Rightarrow> bool" where
  "under_way wx ot M pass d \<longleftrightarrow>
     (\<exists>pl pk m. swapping ot M pass pl pk m d \<and> (k_state m = StCleanup \<and> wx \<noteq> Faulty \<longrightarrow> settled M pl pk))"

definition pending :: "weather \<Rightarrow> ('a outside_scheme) \<Rightarrow> marker \<Rightarrow> string \<Rightarrow> fsys \<Rightarrow> bool" where
  "pending wx ot M pass d \<longleftrightarrow> under_way wx ot M pass d \<or> (\<exists>m. cleaning ot M pass m d)"

text \<open>
  What the restore relies on: the old pair opens under the runtime passphrase and unseals the export
  passphrase; archives can be made and read back; a validated pair is at the schema of this build;
  a document fits its file; the clock is set.
\<close>

definition sound_outside :: "('a outside_scheme) \<Rightarrow> marker \<Rightarrow> string \<Rightarrow> string \<Rightarrow> bool" where
  "sound_outside ot M pass version \<longleftrightarrow>
     (\<exists>sealed. tx_decode64 ot (k_sealed M) = Some sealed \<and> o_unseal ot (k_old_key M) sealed (intent_aad M) = Some pass) \<and>
     pass \<noteq> [] \<and> length pass \<le> passphraseMaxBytes \<and> valid_bounded_text version 1 controllerMaxBytes \<and>
     o_open ot (k_old_key M) \<and> (\<exists>counts. o_validate ot (k_old_db M) (k_old_key M) = Some counts) \<and>
     (\<forall>counts. o_validate ot (k_new_db M) (k_new_key M) = Some counts \<longrightarrow> iv_schema counts = o_schema ot \<and> valid_counts counts) \<and>
     (\<forall>schema now. \<exists>r. o_backup ot (k_old_db M) (k_old_key M) pass version schema now = Some r \<and>
        valid_file_record r 1 safetyMaxBytes \<and> o_extract ot r pass = Some (k_old_db M)) \<and>
     (\<exists>now. o_now ot = Some now \<and> tx_utc ot now) \<and>
     (\<forall>c. 1 \<le> fr_size (o_json ot c) \<and> fr_size (o_json ot c) \<le> markerMaxBytes) \<and>
     k_state M = StReady \<and> validate_marker ot (o_schema ot) M = None"

section \<open>Paths and markers\<close>

lemma names_of_valid:
  assumes "validate_marker ot schema m = None"
  shows "k_dir m \<noteq> recoveryDirName" and "k_db_name m \<noteq> k_key_name m" and "valid_restore_id (k_id m)"
    and "valid_file_record (k_new_db m) 1 MaxDatabaseBytes" and "valid_file_record (k_new_key m) 1 keyringMaxBytes"
    and "k_state m \<noteq> StIntent \<Longrightarrow> valid_file_record (k_old_db m) 1 MaxDatabaseBytes \<and> valid_file_record (k_old_key m) 1 keyringMaxBytes"
    and "k_state m \<in> set ordered_states"
  using assms by (auto simp: validate_marker_def valid_state_def split: if_splits)

lemma paths_distinct:
  assumes "k_dir M \<noteq> recoveryDirName" "k_db_name M \<noteq> k_key_name M" "k_dir M \<notin> {databaseName, keyringName, suppressionName}"
  shows "distinct [live_db, live_key, fence_path, [recoveryDirName], [k_dir M], marker_path, receipt_path, safety_path M,
    rollback_dir M, prepared_db M, prepared_key M, rollback_db M, rollback_key M]"
  using assms
  by (auto simp: live_db_def live_key_def fence_path_def marker_path_def receipt_path_def safety_path_def rollback_dir_def
      prepared_db_def prepared_key_def rollback_db_def rollback_key_def databaseName_def keyringName_def suppressionName_def
      recoveryDirName_def markerName_def appliedReceiptName_def safety_name_def rollback_name_def)

lemma same_restoreD:
  assumes "same_restore M m"
  shows "k_format m = k_format M" "k_version m = k_version M" "k_id m = k_id M" "k_owner m = k_owner M" "k_created m = k_created M"
    "k_dir m = k_dir M" "k_db_name m = k_db_name M" "k_key_name m = k_key_name M"
    "k_new_db m = k_new_db M" "k_new_key m = k_new_key M" "k_old_db m = k_old_db M" "k_old_key m = k_old_key M"
    "k_admin m = k_admin M" "k_user m = k_user M" "k_preview m = k_preview M" "k_plan m = k_plan M" "k_sealed m = k_sealed M"
    "safety_path m = safety_path M" "rollback_dir m = rollback_dir M" "prepared_db m = prepared_db M" "prepared_key m = prepared_key M"
    "rollback_db m = rollback_db M" "rollback_key m = rollback_key M" "intent_aad m = intent_aad M"
proof -
  have *: "m\<lparr>k_state := k_state M, k_safety := k_safety M, k_safety_at := k_safety_at M, k_counts := k_counts M\<rparr> = M"
    using assms by (simp add: same_restore_def)
  show "k_format m = k_format M" "k_version m = k_version M" "k_id m = k_id M" "k_owner m = k_owner M" "k_created m = k_created M"
    "k_dir m = k_dir M" "k_db_name m = k_db_name M" "k_key_name m = k_key_name M"
    "k_new_db m = k_new_db M" "k_new_key m = k_new_key M" "k_old_db m = k_old_db M" "k_old_key m = k_old_key M"
    "k_admin m = k_admin M" "k_user m = k_user M" "k_preview m = k_preview M" "k_plan m = k_plan M" "k_sealed m = k_sealed M"
    by (subst *[symmetric], simp)+
  then show "safety_path m = safety_path M" "rollback_dir m = rollback_dir M" "prepared_db m = prepared_db M"
    "prepared_key m = prepared_key M" "rollback_db m = rollback_db M" "rollback_key m = rollback_key M" "intent_aad m = intent_aad M"
    by (simp_all add: safety_path_def safety_name_def rollback_dir_def rollback_name_def prepared_db_def prepared_key_def
        rollback_db_def rollback_key_def intent_aad_def intent_values_def)
qed

lemma same_restore_update [simp]:
  "same_restore M (m\<lparr>k_state := s\<rparr>) = same_restore M m"
  "same_restore M (m\<lparr>k_safety := r\<rparr>) = same_restore M m"
  "same_restore M (m\<lparr>k_safety_at := t\<rparr>) = same_restore M m"
  "same_restore M (m\<lparr>k_counts := c\<rparr>) = same_restore M m"
  by (simp_all add: same_restore_def)

lemma same_restore_refl [simp]: "same_restore M M"
  by (simp add: same_restore_def)

end
