(* ===== verification/SwapRun.thy ===== *)
theory SwapRun
  imports SwapSafety
begin

text \<open>The steps of the swap, each with every way it may end.\<close>

section \<open>Paths of one restore\<close>

definition named_apart :: "marker \<Rightarrow> bool" where
  "named_apart M \<longleftrightarrow> k_dir M \<noteq> recoveryDirName \<and> k_db_name M \<noteq> k_key_name M \<and>
     k_dir M \<notin> {databaseName, keyringName, suppressionName}"

text \<open>The files a swap touches.\<close>

definition swap_files :: "marker \<Rightarrow> path set" where
  "swap_files M = {live_db, live_key, marker_path, fence_path, receipt_path, safety_path M, prepared_db M, prepared_key M,
     rollback_db M, rollback_key M}"

lemma apart_paths:
  assumes "named_apart M"
  shows "distinct [live_db, live_key, fence_path, [recoveryDirName], [k_dir M], marker_path, receipt_path, safety_path M,
    rollback_dir M, prepared_db M, prepared_key M, rollback_db M, rollback_key M]"
  using assms paths_distinct unfolding named_apart_def by blast

lemmas path_defs = live_db_def live_key_def fence_path_def marker_path_def receipt_path_def safety_path_def rollback_dir_def
  prepared_db_def prepared_key_def rollback_db_def rollback_key_def

lemma child_of_prepared:
  assumes "named_apart M" and "x \<in> swap_files M" and "x = [k_dir M, n]"
  shows "n \<in> {k_db_name M, k_key_name M}"
  using assms by (auto simp: swap_files_def path_defs named_apart_def)

lemma child_of_rollback:
  assumes "x \<in> swap_files M" and "x = rollback_dir M @ [n]"
  shows "n \<in> {databaseName, keyringName} \<and> x \<in> {rollback_db M, rollback_key M}"
  using assms by (auto simp: swap_files_def path_defs)

lemma is_file_put [simp]: "is_file (put q nd d) p r \<longleftrightarrow> (if p = q then \<exists>c. nd = File r c else is_file d p r)"
  by (auto simp: is_file_def)

lemma is_file_del [simp]: "is_file (del q d) p r \<longleftrightarrow> p \<noteq> q \<and> is_file d p r"
  by (auto simp: is_file_def)

lemma distinct_put [simp]: "distinct (map fst d) \<Longrightarrow> distinct (map fst (put k v d))"
  by (auto simp: put_def distinct_map_filter)

lemma distinct_del [simp]: "distinct (map fst d) \<Longrightarrow> distinct (map fst (del k d))"
  by (simp add: del_def distinct_map_filter)

lemma layout_named: "layout M d \<Longrightarrow> k_dir M \<noteq> recoveryDirName \<Longrightarrow> k_db_name M \<noteq> k_key_name M \<Longrightarrow> named_apart M"
  by (simp add: layout_def named_apart_def)

lemma dir_not_file:
  assumes "named_apart M"
  shows "[recoveryDirName] \<notin> swap_files M" "rollback_dir M \<notin> swap_files M" "[k_dir M] \<notin> swap_files M"
  using apart_paths [OF assms] by (auto simp: swap_files_def)

text \<open>Files may come and go below the directories that are there.\<close>

lemma layout_files:
  assumes "named_apart M" and "layout M d" and "distinct (map fst d')"
    and same: "\<And>x. x \<notin> swap_files M \<Longrightarrow> map_of d' x = map_of d x"
    and "\<And>x. x \<in> {rollback_db M, rollback_key M} \<Longrightarrow> map_of d' x \<noteq> None \<Longrightarrow> map_of d (rollback_dir M) = Some Dir"
  shows "layout M d'"
proof -
  have "map_of d' [recoveryDirName] = map_of d [recoveryDirName]" "map_of d' (rollback_dir M) = map_of d (rollback_dir M)"
    using same dir_not_file [OF assms(1)] by blast+
  moreover have "n \<in> {k_db_name M, k_key_name M}" if "map_of d' [k_dir M, n] \<noteq> None" for n
    using that assms(2) same [of "[k_dir M, n]"] child_of_prepared [OF assms(1), of "[k_dir M, n]" n]
    by (cases "[k_dir M, n] \<in> swap_files M") (auto simp: layout_def)
  moreover have "n \<in> {databaseName, keyringName} \<and> map_of d (rollback_dir M) = Some Dir" if "map_of d' (rollback_dir M @ [n]) \<noteq> None" for n
    using that assms(2,5) same [of "rollback_dir M @ [n]"] child_of_rollback [of "rollback_dir M @ [n]" M n]
    by (cases "rollback_dir M @ [n] \<in> swap_files M") (auto simp: layout_def)
  ultimately show ?thesis using assms(2,3) by (auto simp: layout_def)
qed

text \<open>
  A step fails only for \<open>bad\<close> or a fault; however it ends, \<open>U\<close> holds of the disk: it says that the
  restore is under way.
\<close>

definition goes :: "weather \<Rightarrow> (fsys \<Rightarrow> bool) \<Rightarrow> bool \<Rightarrow> (fsys \<Rightarrow> bool) \<Rightarrow> 'b io \<Rightarrow> ('b \<Rightarrow> fsys \<Rightarrow> bool) \<Rightarrow> bool" where
  "goes wx U bad P p Q \<longleftrightarrow>
     holds wx P p Q (\<lambda>e d. (wx \<noteq> Faulty \<longrightarrow> bad) \<and> U d) (\<lambda>d. wx \<noteq> Calm \<and> U d)"

lemma thence_require [simp]: "thence (require True why) q = q"
  by (rule ext) (simp add: thence_def andthen_def require_def ret_def)

lemma thence_ret [simp]: "thence (ret ()) q = q" "thence p (ret ()) = p"
  by (rule ext, simp add: thence_def andthen_def ret_def split: outcome_of.split prod.split)+

lemma goes_andthen:
  "goes wx U bad P p R \<Longrightarrow> (\<And>a. goes wx U bad (R a) (f a) Q) \<Longrightarrow> goes wx U bad P (andthen p f) Q"
  unfolding goes_def by (rule holds_andthen)

lemma goes_thence:
  "goes wx U bad P p (\<lambda>_. R) \<Longrightarrow> goes wx U bad R q Q \<Longrightarrow> goes wx U bad P (thence p q) Q"
  unfolding goes_def by (rule holds_thence)

lemma goes_ret: "(\<And>d. P d \<Longrightarrow> Q a d) \<Longrightarrow> goes wx U bad P (ret a) Q"
  unfolding goes_def by (rule holds_ret)

lemma goes_fact: "(\<And>d. P d \<Longrightarrow> b) \<Longrightarrow> (b \<Longrightarrow> goes wx U bad P p Q) \<Longrightarrow> goes wx U bad P p Q"
  unfolding goes_def holds_def by blast

lemma goes_conseq:
  assumes "goes wx U b P p Q" and "\<And>d. P' d \<Longrightarrow> P d" and "\<And>a d. Q a d \<Longrightarrow> Q' a d" and "b \<Longrightarrow> bad"
  shows "goes wx U bad P' p Q'"
  using assms(1) unfolding goes_def by (rule holds_conseq) (use assms(2-) in auto)

lemma goes_ex: "(\<And>x. goes wx U bad (P x) p Q) \<Longrightarrow> goes wx U bad (\<lambda>d. \<exists>x. P x d) p Q"
  unfolding goes_def holds_def by blast

lemma goes_read:
  assumes "reads p" and "\<And>d. P d \<Longrightarrow> U d"
    and "\<And>a d. P d \<Longrightarrow> still p d = Done a \<Longrightarrow> Q a d"
    and "\<And>e d. P d \<Longrightarrow> still p d = Failed e \<Longrightarrow> bad"
  shows "goes wx U bad P p Q"
  unfolding goes_def using assms by (intro holds_read) blast+

text \<open>A read whose value is known, and what follows.\<close>

lemma goes_see:
  assumes "reads p" and "\<And>d. P d \<Longrightarrow> U d" and "\<And>d. P d \<Longrightarrow> still p d = Done v" and "goes wx U bad P (f v) Q"
  shows "goes wx U bad P (andthen p f) Q"
proof (rule goes_andthen)
  show "goes wx U bad P p (\<lambda>a d. P d \<and> a = v)"
    by (rule goes_read [OF assms(1)]) (use assms(2,3) in auto)
  show "goes wx U bad (\<lambda>d. P d \<and> a = v) (f a) Q" for a
    by (rule goes_fact [where b = "a = v"]) (use assms(4) in \<open>auto elim: goes_conseq\<close>)
qed

lemma goes_pass:
  assumes "reads p" and "\<And>d. P d \<Longrightarrow> U d" and "\<And>d. P d \<Longrightarrow> still p d = Done ()" and "goes wx U bad P q Q"
  shows "goes wx U bad P (thence p q) Q"
  unfolding thence_def by (rule goes_see [OF assms(1-3)]) (use assms(4) in auto)

lemma goes_effect:
  assumes "one_effect wx P p Q" and "\<And>d. P d \<Longrightarrow> U d" and "\<And>d. Q d \<Longrightarrow> U d"
  shows "goes wx U bad P p (\<lambda>_. Q)"
  unfolding goes_def by (rule holds_conseq [OF assms(1) [unfolded one_effect_def]]) (use assms(2,3) in auto)

lemma goes_raise: "(\<And>d. P d \<Longrightarrow> bad \<and> U d) \<Longrightarrow> goes wx U bad P (raise e) Q"
  unfolding goes_def by (rule holds_raise) blast

lemma still_record [seen]:
  "is_file d p r \<Longrightarrow> 1 \<le> fr_size r \<Longrightarrow> fr_size r \<le> hi \<Longrightarrow>
     still (path_record p want hi) d = Done (if r = want then MatchExpected else MatchOther)"
  "map_of d p = None \<Longrightarrow> still (path_record p want hi) d = Done MatchMissing"
  by (auto simp: is_file_def still_path_record)

lemma still_require_hash [seen]:
  "is_file d p want \<Longrightarrow> 1 \<le> fr_size want \<Longrightarrow> fr_size want \<le> hi \<Longrightarrow> still (require_hash p want hi) d = Done ()"
  by (simp add: require_hash_def still_andthen [OF reads_path_record(1)] still_record still_require)

lemma still_hash_file [seen]:
  "is_file d p r \<Longrightarrow> lo \<le> fr_size r \<Longrightarrow> fr_size r \<le> hi \<Longrightarrow> still (hash_file p lo hi) d = Done r"
  by (auto simp: is_file_def still_hash)

section \<open>One member of the pair\<close>

text \<open>
  What the moves of a member need of the rest of the swap: \<open>I pl\<close> says that the member is at \<open>pl\<close>
  and survives any change of its three files that puts it elsewhere.
\<close>

locale member_moves =
  fixes I :: "place \<Rightarrow> fsys \<Rightarrow> bool" and U :: "fsys \<Rightarrow> bool"
    and live prepared rollback :: path and old new :: file_record and hi :: nat
  assumes placed: "I pl d \<Longrightarrow> member_at d pl live prepared rollback old new"
    and apart: "I pl d \<Longrightarrow> distinct [live, prepared, rollback] \<and> distinct (map fst d)"
    and room: "I pl d \<Longrightarrow> 1 \<le> fr_size old \<and> fr_size old \<le> hi \<and> 1 \<le> fr_size new \<and> fr_size new \<le> hi"
    and parents: "I pl d \<Longrightarrow> x \<in> {live, prepared, rollback} \<Longrightarrow> parent_there d x \<and> (butlast x = [] \<or> map_of d (butlast x) = Some Dir)"
    and moves: "I pl d \<Longrightarrow> distinct (map fst d') \<Longrightarrow>
      (\<And>x. x \<notin> {live, prepared, rollback} \<Longrightarrow> map_of d' x = map_of d x) \<Longrightarrow>
      member_at d' pl' live prepared rollback old new \<Longrightarrow> I pl' d'"
    and under: "I pl d \<Longrightarrow> U d"
begin

lemma move:
  assumes "{p, q} \<subseteq> {live, prepared, rollback}"
    and "\<And>d. I pl d \<Longrightarrow> \<exists>nd. map_of d p = Some nd \<and> map_of d q = None \<and>
      member_at (put q nd (del p d)) pl' live prepared rollback old new"
  shows "goes wx U bad (I pl) (move_file p q) (\<lambda>_. I pl')"
proof (rule goes_effect [OF effect_move])
  fix d
  assume i: "I pl d"
  from assms(2) [OF this] obtain nd where nd: "map_of d p = Some nd" "map_of d q = None"
    and m: "member_at (put q nd (del p d)) pl' live prepared rollback old new" by blast
  have "I pl' (put q nd (del p d))"
    by (rule moves [OF i _ _ m]) (use apart [OF i] assms(1) in auto)
  then show "\<exists>nd. map_of d p = Some nd \<and> map_of d q = None \<and> parent_there d q \<and> I pl' (put q nd (del p d))"
    using nd parents [OF i, of q] assms(1) by auto
next
  fix d
  assume "I pl' d"
  from parents [OF this] assms(1) show "(butlast p = [] \<or> map_of d (butlast p) = Some Dir) \<and> (butlast q = [] \<or> map_of d (butlast q) = Some Dir)"
    by blast
qed (rule under, assumption)+

lemma found:
  assumes "I pl d"
  shows "still (path_record live old hi) d = Done (case pl of Home \<Rightarrow> MatchExpected | Parked \<Rightarrow> MatchMissing | Swapped \<Rightarrow> MatchOther)"
    and "still (path_record live new hi) d =
      Done (case pl of Home \<Rightarrow> (if old = new then MatchExpected else MatchOther) | Parked \<Rightarrow> MatchMissing | Swapped \<Rightarrow> MatchExpected)"
    and "still (path_record prepared new hi) d = Done (if pl = Swapped then MatchMissing else MatchExpected)"
    and "still (path_record rollback old hi) d = Done (if pl = Home then MatchMissing else MatchExpected)"
    and "pl = Swapped \<Longrightarrow> still (hash_file live 1 hi) d = Done new"
    and "pl = Home \<Longrightarrow> still (require_hash live old hi) d = Done ()"
    and "pl \<noteq> Swapped \<Longrightarrow> still (require_hash prepared new hi) d = Done ()"
    and "old = new \<Longrightarrow> pl = Home"
  using placed [OF assms] room [OF assms] by (auto simp: member_at_def still_record still_require_hash still_hash_file split: place.splits)

lemma to_parked: "old \<noteq> new \<Longrightarrow> goes wx U bad (I Home) (move_file live rollback) (\<lambda>_. I Parked)"
proof (rule move)
  fix d
  assume i: "I Home d" and ne: "old \<noteq> new"
  from placed [OF i] obtain c where "map_of d live = Some (File old c)" "map_of d rollback = None" "is_file d prepared new"
    by (auto simp: member_at_def is_file_def)
  then show "\<exists>nd. map_of d live = Some nd \<and> map_of d rollback = None \<and>
      member_at (put rollback nd (del live d)) Parked live prepared rollback old new"
    using apart [OF i] ne by (auto simp: member_at_def)
qed simp

lemma to_swapped: "old \<noteq> new \<Longrightarrow> goes wx U bad (I Parked) (move_file prepared live) (\<lambda>_. I Swapped)"
proof (rule move)
  fix d
  assume i: "I Parked d" and ne: "old \<noteq> new"
  from placed [OF i] obtain c where "map_of d prepared = Some (File new c)" "map_of d live = None" "is_file d rollback old"
    by (auto simp: member_at_def is_file_def)
  then show "\<exists>nd. map_of d prepared = Some nd \<and> map_of d live = None \<and>
      member_at (put live nd (del prepared d)) Swapped live prepared rollback old new"
    using apart [OF i] ne by (auto simp: member_at_def)
qed simp

lemma back_to_parked: "old \<noteq> new \<Longrightarrow> goes wx U bad (I Swapped) (move_file live prepared) (\<lambda>_. I Parked)"
proof (rule move)
  fix d
  assume i: "I Swapped d" and ne: "old \<noteq> new"
  from placed [OF i] obtain c where "map_of d live = Some (File new c)" "map_of d prepared = None" "is_file d rollback old"
    by (auto simp: member_at_def is_file_def)
  then show "\<exists>nd. map_of d live = Some nd \<and> map_of d prepared = None \<and>
      member_at (put prepared nd (del live d)) Parked live prepared rollback old new"
    using apart [OF i] ne by (auto simp: member_at_def)
qed simp

lemma back_home: "old \<noteq> new \<Longrightarrow> goes wx U bad (I Parked) (move_file rollback live) (\<lambda>_. I Home)"
proof (rule move)
  fix d
  assume i: "I Parked d" and ne: "old \<noteq> new"
  from placed [OF i] obtain c where "map_of d rollback = Some (File old c)" "map_of d live = None" "is_file d prepared new"
    by (auto simp: member_at_def is_file_def)
  then show "\<exists>nd. map_of d rollback = Some nd \<and> map_of d live = None \<and>
      member_at (put live nd (del rollback d)) Home live prepared rollback old new"
    using apart [OF i] ne by (auto simp: member_at_def)
qed simp

lemma see_rollback:
  assumes "goes wx U bad (I pl) (f (if pl = Home then MatchMissing else MatchExpected)) Q"
  shows "goes wx U bad (I pl) (andthen (path_record rollback old hi) f) Q"
  by (rule goes_see [where P = "I pl" and f = f, OF reads_path_record(1) under found(4) assms])

lemma see_old:
  assumes "goes wx U bad (I pl) (f (case pl of Home \<Rightarrow> MatchExpected | Parked \<Rightarrow> MatchMissing | Swapped \<Rightarrow> MatchOther)) Q"
  shows "goes wx U bad (I pl) (andthen (path_record live old hi) f) Q"
  by (rule goes_see [where P = "I pl" and f = f, OF reads_path_record(1) under found(1) assms])

lemma see_new:
  assumes "goes wx U bad (I pl) (f (case pl of Home \<Rightarrow> (if old = new then MatchExpected else MatchOther)
      | Parked \<Rightarrow> MatchMissing | Swapped \<Rightarrow> MatchExpected)) Q"
  shows "goes wx U bad (I pl) (andthen (path_record live new hi) f) Q"
  by (rule goes_see [where P = "I pl" and f = f, OF reads_path_record(1) under found(2) assms])

lemma see_prepared:
  assumes "goes wx U bad (I pl) (f (if pl = Swapped then MatchMissing else MatchExpected)) Q"
  shows "goes wx U bad (I pl) (andthen (path_record prepared new hi) f) Q"
  by (rule goes_see [where P = "I pl" and f = f, OF reads_path_record(1) under found(3) assms])

text \<open>A member that does not change is only looked at.\<close>

lemma unchanged: "old = new \<Longrightarrow> goes wx U bad (I pl) (require_hash live old hi) (\<lambda>_. I pl)"
  by (rule goes_read [OF reads_require_hash(1) under]) (use found in \<open>fastforce simp: found\<close>)+

lemma park:
  "goes wx U bad (I pl) (park_old live new old rollback hi) (\<lambda>_. I (if old = new then Home else if pl = Home then Parked else pl))"
proof (cases "old = new")
  case True
  have "goes wx U bad (I pl) (require_hash live old hi) (\<lambda>_. I Home)"
    by (rule goes_conseq [OF unchanged [OF True]]) (use found(8) True in auto)
  with True show ?thesis by (simp add: park_old_def)
next
  case False
  show ?thesis
  proof (cases pl)
    case Home
    show ?thesis using False Home
      by (simp add: park_old_def, intro see_rollback see_old, simp)
        (rule goes_pass [OF reads_check(1) under still_check to_parked])
  next
    case Parked
    show ?thesis using False Parked
      by (simp add: park_old_def, intro see_rollback see_old, simp) (rule goes_ret)
  next
    case Swapped
    have "goes wx U bad (I Swapped) (andthen (catching (hash_file live 1 hi)
        (\<lambda>e. raise (Refused ''restore swap: canonical member conflicts with parked rollback'')))
        (\<lambda>got. require (got = new) ''restore swap: canonical member conflicts with parked rollback'')) (\<lambda>_. I Swapped)"
      by (rule goes_see [where v = new])
        (auto simp del: One_nat_def simp: found(5) still_catching reads_hash require_def intro: under goes_ret intro!: reads_not_exist reads_hash)
    then show ?thesis using False Swapped
      by (simp add: park_old_def, intro see_rollback see_old, simp)
  qed
qed

lemma publish:
  assumes "old \<noteq> new \<Longrightarrow> pl \<noteq> Home"
  shows "goes wx U bad (I pl) (publish_new live prepared new old hi) (\<lambda>_. I (if old = new then Home else Swapped))"
proof (cases "old = new")
  case True
  have "goes wx U bad (I pl) (require_hash live old hi) (\<lambda>_. I Home)"
    by (rule goes_conseq [OF unchanged [OF True]]) (use found(8) True in auto)
  with True show ?thesis by (simp add: publish_new_def)
next
  case False
  have moved: "goes wx U bad (I Parked) (thence (in_turn [require_hash prepared new hi, check]) (move_file prepared live)) (\<lambda>_. I Swapped)"
    by (rule goes_pass [OF _ under _ to_swapped]) (use False in \<open>auto simp: still_thence reads_require_hash reads_check found(7) still_check intro!: reading\<close>)
  show ?thesis
  proof (cases pl)
    case Home
    with assms False show ?thesis by blast
  next
    case Parked
    with False moved show ?thesis by (simp add: publish_new_def, intro see_new, simp)
  next
    case Swapped
    with False show ?thesis by (simp add: publish_new_def, intro see_new, simp) (rule goes_ret)
  qed
qed

lemma put_back: "goes wx U bad (I pl) (restore_member live prepared rollback old new hi) (\<lambda>_. I Home)"
proof (cases "old = new")
  case True
  have "goes wx U bad (I pl) (require_hash live old hi) (\<lambda>_. I Home)"
    by (rule goes_conseq [OF unchanged [OF True]]) (use found(8) True in auto)
  with True show ?thesis by (simp add: restore_member_def)
next
  case False
  let ?look = "andthen (path_record rollback old hi) (\<lambda>rs.
      require (rs = MatchExpected) ''restore swap: raw rollback member is unavailable'')"
  have there: "goes wx U bad (I Parked) ?look (\<lambda>_. I Parked)"
    by (rule see_rollback) (simp add: require_def goes_ret)
  have home: "goes wx U bad (I Parked) (in_turn [?look, move_file rollback live]) (\<lambda>_. I Home)"
    using goes_thence [OF there back_home [OF False]] by simp
  show ?thesis
  proof (cases pl)
    case Home
    with False show ?thesis by (simp add: restore_member_def, intro see_old, simp) (rule goes_ret)
  next
    case Parked
    have "goes wx U bad (I Parked) (restore_member live prepared rollback old new hi) (\<lambda>_. I Home)"
      using False home
      by (simp add: restore_member_def, intro see_old, simp, intro see_new, simp)
    with Parked show ?thesis by simp
  next
    case Swapped
    have "goes wx U bad (I Swapped) (andthen (path_record prepared new hi) (\<lambda>ps.
                 if ps = MatchMissing then move_file live prepared
                 else if ps = MatchExpected then thence (remove_file live) (sync_dir [])
                 else raise (Refused ''restore swap: prepared member conflicts during rollback''))) (\<lambda>_. I Parked)"
      by (rule see_prepared) (simp add: back_to_parked [OF False])
    from goes_thence [OF this home] Swapped False show ?thesis
      by (simp add: restore_member_def, intro see_old, simp, intro see_new, simp)
  qed
qed

end

end
