(* ===== verification/SwapSteps.thy ===== *)
theory SwapSteps
  imports SwapRun
begin

text \<open>The swap of a controller restore, step by step, and its rollback.\<close>

section \<open>The swap under way\<close>

text \<open>What holds whatever the disk.\<close>

lemma swapping_facts:
  assumes "swapping ot M pass pl pk m d"
  shows "same_restore M m" "named_apart M" "validate_marker ot (o_schema ot) m = None" "k_state m \<noteq> StIntent"
proof -
  show "same_restore M m" "validate_marker ot (o_schema ot) m = None" "k_state m \<noteq> StIntent"
    using assms by (auto simp: swapping_def)
  then show "named_apart M"
    using names_of_valid [of ot "o_schema ot" m] same_restoreD [of M m] assms
    by (intro layout_named [of M d]) (auto simp: swapping_def)
qed

lemma swap_files_paths:
  "live_db \<in> swap_files M" "live_key \<in> swap_files M" "marker_path \<in> swap_files M" "fence_path \<in> swap_files M"
  "receipt_path \<in> swap_files M" "safety_path M \<in> swap_files M" "prepared_db M \<in> swap_files M" "prepared_key M \<in> swap_files M"
  "rollback_db M \<in> swap_files M" "rollback_key M \<in> swap_files M"
  by (simp_all add: swap_files_def)

text \<open>One member moves, everything else stays.\<close>

lemma swapping_moves_db:
  assumes "swapping ot M pass pl pk m d" and "distinct (map fst d')" and "k_state m \<noteq> StReady"
    and same: "\<And>x. x \<notin> {live_db, prepared_db M, rollback_db M} \<Longrightarrow> map_of d' x = map_of d x"
    and "map_of d (rollback_dir M) = Some Dir" and "db_at M pl' d'"
  shows "swapping ot M pass pl' pk m d'"
proof -
  note f = swapping_facts [OF assms(1)]
  note ap = apart_paths [OF f(2)]
  have "layout M d'"
    by (rule layout_files [OF f(2) _ assms(2)]) (use assms(1,5) same in \<open>auto simp: swapping_def swap_files_def\<close>)
  moreover have "map_of d' x = map_of d x" if "x \<in> {live_key, prepared_key M, rollback_key M, marker_path, fence_path, receipt_path,
      safety_path M, [k_dir M]}" for x
    using that ap by (intro same) auto
  ultimately show ?thesis using assms(1,3,6)
    by (auto simp: swapping_def member_at_def is_file_def marker_on_def fence_on_def archived_def split: place.splits)
qed

lemma swapping_moves_key:
  assumes "swapping ot M pass pl pk m d" and "distinct (map fst d')" and "k_state m \<noteq> StReady"
    and same: "\<And>x. x \<notin> {live_key, prepared_key M, rollback_key M} \<Longrightarrow> map_of d' x = map_of d x"
    and "map_of d (rollback_dir M) = Some Dir" and "key_at M pk' d'"
  shows "swapping ot M pass pl pk' m d'"
proof -
  note f = swapping_facts [OF assms(1)]
  note ap = apart_paths [OF f(2)]
  have "layout M d'"
    by (rule layout_files [OF f(2) _ assms(2)]) (use assms(1,5) same in \<open>auto simp: swapping_def swap_files_def\<close>)
  moreover have "map_of d' x = map_of d x" if "x \<in> {live_db, prepared_db M, rollback_db M, marker_path, fence_path, receipt_path,
      safety_path M, [k_dir M]}" for x
    using that ap by (intro same) auto
  ultimately show ?thesis using assms(1,3,6)
    by (auto simp: swapping_def member_at_def is_file_def marker_on_def fence_on_def archived_def split: place.splits)
qed

definition moving :: "weather \<Rightarrow> ('a outside_scheme) \<Rightarrow> marker \<Rightarrow> string \<Rightarrow> marker \<Rightarrow> place \<Rightarrow> place \<Rightarrow> fsys \<Rightarrow> bool" where
  "moving wx ot M pass m pl pk d \<longleftrightarrow>
     swapping ot M pass pl pk m d \<and> map_of d (rollback_dir M) = Some Dir \<and> k_state m \<noteq> StReady \<and>
     (k_state m = StCleanup \<longrightarrow> wx = Faulty)"

text \<open>Where a step of the swap may leave the disk; \<open>r\<close> is the archive of the old pair.\<close>

definition midway :: "weather \<Rightarrow> ('a outside_scheme) \<Rightarrow> marker \<Rightarrow> string \<Rightarrow> file_record \<Rightarrow> fsys \<Rightarrow> bool" where
  "midway wx ot M pass r d \<longleftrightarrow>
     (\<exists>pl pk m. swapping ot M pass pl pk m d \<and> k_state m \<noteq> StReady \<and> k_safety m = r \<and> (k_state m = StCleanup \<longrightarrow> wx = Faulty))"

lemma moving_midway: "moving wx ot M pass m pl pk d \<Longrightarrow> midway wx ot M pass (k_safety m) d"
  by (auto simp: moving_def midway_def)

lemma midway_under: "midway wx ot M pass r d \<Longrightarrow> under_way wx ot M pass d"
  by (auto simp: midway_def under_way_def)

lemma moving_room:
  assumes "moving wx ot M pass m pl pk d"
  shows "1 \<le> fr_size (k_old_db M) \<and> fr_size (k_old_db M) \<le> MaxDatabaseBytes \<and> 1 \<le> fr_size (k_new_db M) \<and> fr_size (k_new_db M) \<le> MaxDatabaseBytes"
    and "1 \<le> fr_size (k_old_key M) \<and> fr_size (k_old_key M) \<le> keyringMaxBytes \<and> 1 \<le> fr_size (k_new_key M) \<and> fr_size (k_new_key M) \<le> keyringMaxBytes"
proof -
  have "swapping ot M pass pl pk m d" using assms by (simp add: moving_def)
  from swapping_facts [OF this] names_of_valid [of ot "o_schema ot" m] same_restoreD [of M m]
  show "1 \<le> fr_size (k_old_db M) \<and> fr_size (k_old_db M) \<le> MaxDatabaseBytes \<and> 1 \<le> fr_size (k_new_db M) \<and> fr_size (k_new_db M) \<le> MaxDatabaseBytes"
    and "1 \<le> fr_size (k_old_key M) \<and> fr_size (k_old_key M) \<le> keyringMaxBytes \<and> 1 \<le> fr_size (k_new_key M) \<and> fr_size (k_new_key M) \<le> keyringMaxBytes"
    by (simp_all add: valid_file_record_def)
qed

lemma moving_parents:
  assumes "moving wx ot M pass m pl pk d" and "x \<in> {live_db, prepared_db M, rollback_db M, live_key, prepared_key M, rollback_key M}"
  shows "parent_there d x \<and> (butlast x = [] \<or> map_of d (butlast x) = Some Dir)"
  using assms by (auto simp: moving_def swapping_def parent_there_def path_defs butlast_append)

interpretation db: member_moves "\<lambda>pl. moving wx ot M pass m pl pk" "midway wx ot M pass (k_safety m)" live_db "prepared_db M" "rollback_db M"
    "k_old_db M" "k_new_db M" MaxDatabaseBytes
  for wx and ot :: "'a outside_scheme" and M pass m pk
proof unfold_locales
  fix pl pl' d d' x
  assume i: "moving wx ot M pass m pl pk d"
  then have sw: "swapping ot M pass pl pk m d" by (simp add: moving_def)
  note ap = apart_paths [OF swapping_facts(2) [OF sw]]
  show "db_at M pl d" using sw by (simp add: swapping_def)
  show "distinct [live_db, prepared_db M, rollback_db M] \<and> distinct (map fst d)"
    using ap sw by (auto simp: swapping_def layout_def)
  show "1 \<le> fr_size (k_old_db M) \<and> fr_size (k_old_db M) \<le> MaxDatabaseBytes \<and> 1 \<le> fr_size (k_new_db M) \<and> fr_size (k_new_db M) \<le> MaxDatabaseBytes"
    by (rule moving_room [OF i])
  show "midway wx ot M pass (k_safety m) d" by (rule moving_midway [OF i])
  show "x \<in> {live_db, prepared_db M, rollback_db M} \<Longrightarrow> parent_there d x \<and> (butlast x = [] \<or> map_of d (butlast x) = Some Dir)"
    by (rule moving_parents [OF i]) auto
  assume d': "distinct (map fst d')" "db_at M pl' d'"
    and same: "\<And>x. x \<notin> {live_db, prepared_db M, rollback_db M} \<Longrightarrow> map_of d' x = map_of d x"
  have "map_of d' (rollback_dir M) = map_of d (rollback_dir M)" by (rule same) (use ap in auto)
  moreover have "swapping ot M pass pl' pk m d'"
    by (rule swapping_moves_db [OF sw d'(1) _ same _ d'(2)]) (use i in \<open>auto simp: moving_def\<close>)
  ultimately show "moving wx ot M pass m pl' pk d'" using i by (simp add: moving_def)
qed

interpretation key: member_moves "moving wx ot M pass m pl" "midway wx ot M pass (k_safety m)" live_key "prepared_key M" "rollback_key M"
    "k_old_key M" "k_new_key M" keyringMaxBytes
  for wx and ot :: "'a outside_scheme" and M pass m pl
proof unfold_locales
  fix pk pk' d d' x
  assume i: "moving wx ot M pass m pl pk d"
  then have sw: "swapping ot M pass pl pk m d" by (simp add: moving_def)
  note ap = apart_paths [OF swapping_facts(2) [OF sw]]
  show "key_at M pk d" using sw by (simp add: swapping_def)
  show "distinct [live_key, prepared_key M, rollback_key M] \<and> distinct (map fst d)"
    using ap sw by (auto simp: swapping_def layout_def)
  show "1 \<le> fr_size (k_old_key M) \<and> fr_size (k_old_key M) \<le> keyringMaxBytes \<and> 1 \<le> fr_size (k_new_key M) \<and> fr_size (k_new_key M) \<le> keyringMaxBytes"
    by (rule moving_room [OF i])
  show "midway wx ot M pass (k_safety m) d" by (rule moving_midway [OF i])
  show "x \<in> {live_key, prepared_key M, rollback_key M} \<Longrightarrow> parent_there d x \<and> (butlast x = [] \<or> map_of d (butlast x) = Some Dir)"
    by (rule moving_parents [OF i]) auto
  assume d': "distinct (map fst d')" "key_at M pk' d'"
    and same: "\<And>x. x \<notin> {live_key, prepared_key M, rollback_key M} \<Longrightarrow> map_of d' x = map_of d x"
  have "map_of d' (rollback_dir M) = map_of d (rollback_dir M)" by (rule same) (use ap in auto)
  moreover have "swapping ot M pass pl pk' m d'"
    by (rule swapping_moves_key [OF sw d'(1) _ same _ d'(2)]) (use i in \<open>auto simp: moving_def\<close>)
  ultimately show "moving wx ot M pass m pl pk' d'" using i by (simp add: moving_def)
qed

section \<open>Effects on the swap\<close>

text \<open>What is on the disk depends on the files it is about.\<close>

lemma same_parts:
  assumes same: "\<And>x. x \<in> X \<Longrightarrow> map_of d' x = map_of d x"
  shows "{live, prepared, rollback} \<subseteq> X \<Longrightarrow> member_at d' pl live prepared rollback old new = member_at d pl live prepared rollback old new"
    and "marker_path \<in> X \<Longrightarrow> marker_on m d' = marker_on m d"
    and "fence_path \<in> X \<Longrightarrow> fence_on ot M d' = fence_on ot M d"
    and "safety_path M \<in> X \<Longrightarrow> archived ot M pass r d' = archived ot M pass r d"
    and "x \<in> X \<Longrightarrow> is_file d' x r = is_file d x r"
    and "receipt_path \<in> X \<Longrightarrow> receipt_on ot m d' = receipt_on ot m d"
  using same by (simp_all add: member_at_def is_file_def marker_on_def fence_on_def archived_def receipt_on_def cong: place.case_cong)

lemma put_parts:
  "x \<notin> {live, prepared, rollback} \<Longrightarrow> member_at (put x nd d) pl live prepared rollback old new = member_at d pl live prepared rollback old new"
  "x \<noteq> marker_path \<Longrightarrow> marker_on m (put x nd d) = marker_on m d"
  "x \<noteq> fence_path \<Longrightarrow> fence_on ot M (put x nd d) = fence_on ot M d"
  "x \<noteq> safety_path M \<Longrightarrow> archived ot M pass r (put x nd d) = archived ot M pass r d"
  by (rule same_parts [where X = "- {x}"]; auto)+

lemma outside_paths:
  assumes "named_apart M"
  shows "{live_db, prepared_db M, rollback_db M} \<subseteq> - {marker_path, fence_path, receipt_path, safety_path M, rollback_dir M}"
    and "{live_key, prepared_key M, rollback_key M} \<subseteq> - {marker_path, fence_path, receipt_path, safety_path M, rollback_dir M}"
    and "distinct [marker_path, fence_path, receipt_path, safety_path M, rollback_dir M, [k_dir M], [recoveryDirName]]"
  using apart_paths [OF assms] by auto

text \<open>One of the small files changes.\<close>

lemma swapping_small:
  assumes sw: "swapping ot M pass pl pk m d" and x: "x \<in> {marker_path, fence_path, safety_path M}"
  shows "layout M (put x (File r c) d)"
    and "db_at M pl (put x (File r c) d)" and "key_at M pk (put x (File r c) d)"
    and "map_of (put x (File r c) d) [k_dir M] = Some Dir" and "map_of (put x (File r c) d) receipt_path = None"
    and "map_of (put x (File r c) d) (rollback_dir M) = map_of d (rollback_dir M)"
    and "y \<in> {marker_path, fence_path, safety_path M} \<Longrightarrow> y \<noteq> x \<Longrightarrow> map_of (put x (File r c) d) y = map_of d y"
proof -
  note f = swapping_facts [OF sw]
  note o = outside_paths [OF f(2)]
  let ?d = "put x (File r c) d"
  have lay: "layout M d" using sw by (simp add: swapping_def)
  have xin: "x \<in> swap_files M" "x \<notin> {rollback_db M, rollback_key M}" using x o by (auto simp: swap_files_def)
  show "layout M ?d"
  proof (rule layout_files [OF f(2) lay])
    show "distinct (map fst ?d)" using lay by (simp add: layout_def)
    show "map_of ?d y = map_of d y" if "y \<notin> swap_files M" for y using that xin by auto
    show "map_of d (rollback_dir M) = Some Dir" if "y \<in> {rollback_db M, rollback_key M}" "map_of ?d y \<noteq> None" for y
      using that xin lay by (auto simp: layout_def rollback_db_def rollback_key_def split: if_splits)
  qed
  have ne: "x \<noteq> [k_dir M]" "x \<noteq> receipt_path" "x \<noteq> rollback_dir M" using o(3) x by auto
  have "x \<notin> {live_db, prepared_db M, rollback_db M}" "x \<notin> {live_key, prepared_key M, rollback_key M}"
    using o x by auto
  from this [THEN put_parts(1)] sw show "db_at M pl ?d" "key_at M pk ?d" by (simp_all add: swapping_def)
  show "map_of ?d [k_dir M] = Some Dir" "map_of ?d receipt_path = None" "map_of ?d (rollback_dir M) = map_of d (rollback_dir M)"
    using sw ne by (simp_all add: swapping_def)
  show "y \<in> {marker_path, fence_path, safety_path M} \<Longrightarrow> y \<noteq> x \<Longrightarrow> map_of ?d y = map_of d y" by simp
qed

text \<open>The marker is replaced.\<close>

lemma swapping_marked:
  assumes sw: "swapping ot M pass pl pk m d" and r: "1 \<le> fr_size r" "fr_size r \<le> markerMaxBytes"
    and new: "same_restore M m'" "validate_marker ot (o_schema ot) m' = None" "k_state m' \<notin> {StIntent, StReady}"
    and "state_at_least (k_state m') StValidated \<Longrightarrow> validated ot M (k_counts m')"
    and "state_at_least (k_state m') StSuppressed \<Longrightarrow> fence_on ot M d" and "archived ot M pass (k_safety m') d"
  shows "swapping ot M pass pl pk m' (put marker_path (File r (Some (MarkerDoc m'))) d)" (is "swapping _ _ _ _ _ _ ?d")
proof -
  note o = outside_paths [OF swapping_facts(2) [OF sw]]
  have "fence_on ot M ?d = fence_on ot M d" "archived ot M pass (k_safety m') ?d = archived ot M pass (k_safety m') d"
    "map_of ?d fence_path = map_of d fence_path"
    using o by (auto simp: put_parts)
  moreover have "marker_on m' ?d" using r by (simp add: marker_on_def)
  moreover have "map_of d fence_path = None \<or> fence_on ot M d" using sw by (simp add: swapping_def)
  ultimately show ?thesis
    unfolding swapping_def using assms(3-) swapping_small(1-5) [OF sw, of marker_path r "Some (MarkerDoc m')"] by simp
qed

text \<open>The fence is set.\<close>

lemma swapping_fenced:
  assumes sw: "swapping ot M pass pl pk m d" and r: "1 \<le> fr_size r" "fr_size r \<le> markerMaxBytes"
    and "fence_ok ot v" "fe_restore v = k_id M"
  shows "swapping ot M pass pl pk m (put fence_path (File r (Some (FenceDoc v))) d)" (is "swapping _ _ _ _ _ _ ?d")
proof -
  note o = outside_paths [OF swapping_facts(2) [OF sw]]
  have "marker_on m ?d = marker_on m d" "archived ot M pass r' ?d = archived ot M pass r' d"
    "map_of ?d (safety_path M) = map_of d (safety_path M)" for r'
    using o by (auto simp: put_parts)
  moreover have "fence_on ot M ?d" using r assms(4,5) by (simp add: fence_on_def)
  ultimately show ?thesis
    using sw swapping_small(1-5) [OF sw, of fence_path r "Some (FenceDoc v)"] unfolding swapping_def by simp
qed

text \<open>The rollback directory comes, and goes when it is empty.\<close>

lemma swapping_directory:
  assumes sw: "swapping ot M pass pl pk m d" and "map_of d' (rollback_dir M) \<in> {None, Some Dir}" "distinct (map fst d')"
    and same: "\<And>x. x \<in> - {rollback_dir M} \<Longrightarrow> map_of d' x = map_of d x"
    and empty: "map_of d' (rollback_dir M) = None \<Longrightarrow> map_of d (rollback_db M) = None \<and> map_of d (rollback_key M) = None"
  shows "swapping ot M pass pl pk m d'"
proof -
  note f = swapping_facts [OF sw]
  note o = outside_paths [OF f(2)]
  have lay: "layout M d" using sw by (simp add: swapping_def)
  have ne: "[k_dir M, n] \<noteq> rollback_dir M" "rollback_dir M @ [n] \<noteq> rollback_dir M" for n
    using f(2) by (auto simp: rollback_dir_def named_apart_def)
  have below: "n \<in> {databaseName, keyringName} \<and> map_of d' (rollback_dir M) = Some Dir" if "map_of d' (rollback_dir M @ [n]) \<noteq> None" for n
  proof -
    have "map_of d (rollback_dir M @ [n]) \<noteq> None" using that same ne by simp
    then have "n \<in> {databaseName, keyringName}" using lay by (auto simp: layout_def)
    then show ?thesis using \<open>map_of d (rollback_dir M @ [n]) \<noteq> None\<close> empty assms(2) by (auto simp: rollback_db_def rollback_key_def)
  qed
  have "n \<in> {k_db_name M, k_key_name M}" if "map_of d' [k_dir M, n] \<noteq> None" for n
    using that same [of "[k_dir M, n]"] ne lay by (auto simp: layout_def)
  moreover have "[recoveryDirName] \<noteq> rollback_dir M" using o(3) by auto
  then have "map_of d' [recoveryDirName] = Some Dir" using same [of "[recoveryDirName]"] lay by (simp add: layout_def)
  ultimately have "layout M d'" using lay assms(2,3) below by (simp add: layout_def)
  moreover have at: "{live_db, prepared_db M, rollback_db M} \<subseteq> - {rollback_dir M}"
    "{live_key, prepared_key M, rollback_key M} \<subseteq> - {rollback_dir M}"
    "{marker_path, fence_path, receipt_path, safety_path M, [k_dir M]} \<subseteq> - {rollback_dir M}"
    using o by auto
  moreover have "db_at M pl d' = db_at M pl d" "key_at M pk d' = key_at M pk d" "marker_on m d' = marker_on m d"
    "fence_on ot M d' = fence_on ot M d" "archived ot M pass r d' = archived ot M pass r d"
    "map_of d' fence_path = map_of d fence_path" "map_of d' receipt_path = map_of d receipt_path"
    "map_of d' [k_dir M] = map_of d [k_dir M]" "map_of d' (safety_path M) = map_of d (safety_path M)" for r
    using at by ((intro same_parts(1-4) [where X = "- {rollback_dir M}"] same; (assumption | auto)))+
  ultimately show ?thesis using sw unfolding swapping_def by simp
qed

end
