(* ===== verification/SwapProgram.thy ===== *)
theory SwapProgram
  imports SwapSteps
begin

text \<open>The swap of a controller restore and its rollback, from the marker on disk to the end of the run.\<close>

section \<open>Markers\<close>

definition docs_fit :: "('a outside_scheme) \<Rightarrow> bool" where
  "docs_fit ot \<longleftrightarrow> (\<forall>c. 1 \<le> fr_size (o_json ot c) \<and> fr_size (o_json ot c) \<le> markerMaxBytes)"

lemmas state_order = state_at_least_def ordered_states_def

lemma guard_none: "(if b then Some e else r) = None \<longleftrightarrow> \<not> b \<and> r = None"
  by simp

lemma valid_later:
  assumes "validate_marker ot sch m = None" and "state_at_least (k_state m) StSafety"
    and "s \<in> set ordered_states" and "state_at_least s StSafety"
    and "if state_at_least s StValidated then iv_schema c = sch \<and> valid_counts c else c = no_inventory"
  shows "validate_marker ot sch (m\<lparr>k_state := s, k_counts := c\<rparr>) = None"
proof -
  have "s \<noteq> StIntent" "k_state m \<noteq> StIntent" using assms(2,4) by (auto simp: state_order)
  then show ?thesis using assms by (cases "state_at_least s StValidated") (simp_all add: validate_marker_def valid_state_def guard_none)
qed

lemma valid_counts_none:
  "validate_marker ot sch m = None \<Longrightarrow> \<not> state_at_least (k_state m) StValidated \<Longrightarrow> k_counts m = no_inventory"
  by (simp add: validate_marker_def split: if_splits)

lemma valid_at_least:
  assumes "validate_marker ot sch m = None" and "k_state m \<notin> {StIntent, StReady}"
  shows "state_at_least (k_state m) StSafety"
  using names_of_valid(7) [OF assms(1)] assms(2) by (auto simp: state_order)

lemma marker_eta: "m\<lparr>k_counts := k_counts m\<rparr> = m" "(m\<lparr>k_counts := c\<rparr>)\<lparr>k_state := s\<rparr> = m\<lparr>k_state := s, k_counts := c\<rparr>"
  "m\<lparr>k_state := s\<rparr> = m\<lparr>k_state := s, k_counts := k_counts m\<rparr>"
  by simp_all

section \<open>The marker is written\<close>

lemma effect_replace_marker:
  assumes "docs_fit ot" and "validate_marker ot (o_schema ot) m' = None"
    and P: "\<And>d. P d \<Longrightarrow> map_of d [recoveryDirName] = Some Dir \<and> map_of d marker_path \<noteq> Some Dir"
    and Q: "\<And>d r. P d \<Longrightarrow> 1 \<le> fr_size r \<Longrightarrow> fr_size r \<le> markerMaxBytes \<Longrightarrow> Q (put marker_path (File r (Some (MarkerDoc m'))) d)"
    and "\<And>d. Q d \<Longrightarrow> map_of d [recoveryDirName] = Some Dir"
  shows "one_effect wx P (replace_marker ot m') Q"
proof -
  have "one_effect wx P (write_doc ot marker_path (MarkerDoc m') False) Q"
    by (rule effect_write_doc) (use assms in \<open>auto simp: docs_fit_def parent_there_def marker_path_def\<close>)
  then show ?thesis using assms(2) by (simp add: save_marker_def)
qed

lemma swapping_marker_there:
  assumes "swapping ot M pass pl pk m d"
  shows "map_of d [recoveryDirName] = Some Dir \<and> map_of d marker_path \<noteq> Some Dir"
  using assms by (auto simp: swapping_def layout_def marker_on_def)

lemma moving_marker_there:
  assumes "moving wx ot M pass m pl pk d"
  shows "map_of d [recoveryDirName] = Some Dir \<and> map_of d marker_path \<noteq> Some Dir"
proof -
  from assms have "swapping ot M pass pl pk m d" by (simp add: moving_def)
  then show ?thesis by (rule swapping_marker_there)
qed

lemma moving_marked:
  assumes mv: "moving wx ot M pass m pl pk d" and r: "1 \<le> fr_size r" "fr_size r \<le> markerMaxBytes"
    and "same_restore M m'" "validate_marker ot (o_schema ot) m' = None" "k_state m' \<notin> {StIntent, StReady, StCleanup}"
    and "state_at_least (k_state m') StValidated \<Longrightarrow> validated ot M (k_counts m')"
    and "state_at_least (k_state m') StSuppressed \<Longrightarrow> fence_on ot M d" and "k_safety m' = k_safety m"
  shows "moving wx ot M pass m' pl pk (put marker_path (File r (Some (MarkerDoc m'))) d)"
proof -
  have sw: "swapping ot M pass pl pk m d" and rd: "map_of d (rollback_dir M) = Some Dir" and ne: "k_state m \<noteq> StReady"
    using mv by (simp_all add: moving_def)
  from sw ne have "archived ot M pass (k_safety m) d" by (simp add: swapping_def)
  with assms(4-) have "swapping ot M pass pl pk m' (put marker_path (File r (Some (MarkerDoc m'))) d)"
    by (intro swapping_marked [OF sw r]) auto
  then show ?thesis using swapping_small(6) [OF sw, of marker_path] rd assms(6) by (simp add: moving_def)
qed

lemma goes_replace:
  assumes "docs_fit ot" and "same_restore M m'" "validate_marker ot (o_schema ot) m' = None"
    and "k_state m' \<notin> {StIntent, StReady, StCleanup}" and "state_at_least (k_state m') StValidated \<Longrightarrow> validated ot M (k_counts m')"
    and "k_safety m' = k_safety m"
  shows "goes wx (midway wx ot M pass (k_safety m)) bad
    (\<lambda>d. moving wx ot M pass m pl pk d \<and> (state_at_least (k_state m') StSuppressed \<longrightarrow> fence_on ot M d))
    (replace_marker ot m') (\<lambda>_. moving wx ot M pass m' pl pk)"
proof (rule goes_effect [OF effect_replace_marker [OF assms(1,3)]])
  fix d assume "moving wx ot M pass m pl pk d \<and> (state_at_least (k_state m') StSuppressed \<longrightarrow> fence_on ot M d)"
  then show "map_of d [recoveryDirName] = Some Dir \<and> map_of d marker_path \<noteq> Some Dir" "midway wx ot M pass (k_safety m) d"
    by (blast dest: moving_marker_there moving_midway)+
next
  fix d and r :: file_record
  assume "moving wx ot M pass m pl pk d \<and> (state_at_least (k_state m') StSuppressed \<longrightarrow> fence_on ot M d)"
    "1 \<le> fr_size r" "fr_size r \<le> markerMaxBytes"
  then show "moving wx ot M pass m' pl pk (put marker_path (File r (Some (MarkerDoc m'))) d)"
    using assms by (intro moving_marked) auto
next
  fix d assume mv: "moving wx ot M pass m' pl pk d"
  from moving_marker_there [OF this] show "map_of d [recoveryDirName] = Some Dir" by simp
  show "midway wx ot M pass (k_safety m) d" using moving_midway [OF mv] assms(6) by simp
qed

lemma goes_advance:
  assumes fit: "docs_fit ot" and s: "s \<in> {StOldDBParked, StOldPairParked, StNewDBPublished, StNewPairPublished, StValidated, StSuppressed}"
    and same: "state_at_least (k_state m) s \<Longrightarrow> c = k_counts m"
    and fresh: "\<not> state_at_least (k_state m) s \<Longrightarrow>
      if state_at_least s StValidated then validated ot M c \<and> iv_schema c = o_schema ot \<and> valid_counts c else c = no_inventory"
    and later: "v = (if state_at_least (k_state m) s then m else m\<lparr>k_state := s, k_counts := c\<rparr>)"
  shows "goes wx (midway wx ot M pass (k_safety m)) bad
    (\<lambda>d. moving wx ot M pass m pl pk d \<and> (s = StSuppressed \<longrightarrow> fence_on ot M d))
    (advance ot s (m\<lparr>k_counts := c\<rparr>)) (\<lambda>a d. a = v \<and> moving wx ot M pass v pl pk d)"
proof (rule goes_fact)
  show "same_restore M m \<and> validate_marker ot (o_schema ot) m = None \<and> k_state m \<notin> {StIntent, StReady}"
    if "moving wx ot M pass m pl pk d \<and> (s = StSuppressed \<longrightarrow> fence_on ot M d)" for d
    using that by (simp add: moving_def swapping_def)
  assume m: "same_restore M m \<and> validate_marker ot (o_schema ot) m = None \<and> k_state m \<notin> {StIntent, StReady}"
  show "goes wx (midway wx ot M pass (k_safety m)) bad
    (\<lambda>d. moving wx ot M pass m pl pk d \<and> (s = StSuppressed \<longrightarrow> fence_on ot M d))
    (advance ot s (m\<lparr>k_counts := c\<rparr>)) (\<lambda>a d. a = v \<and> moving wx ot M pass v pl pk d)"
  proof (cases "state_at_least (k_state m) s")
    case True
    with same later have "advance ot s (m\<lparr>k_counts := c\<rparr>) = ret v" by (simp add: advance_def)
    with True later show ?thesis by (auto intro: goes_ret)
  next
    case False
    have v: "validate_marker ot (o_schema ot) v = None"
      unfolding later using False s fresh m valid_at_least [of ot "o_schema ot" m]
      by (simp, intro valid_later) (auto simp: state_order)
    have "goes wx (midway wx ot M pass (k_safety m)) bad
        (\<lambda>d. moving wx ot M pass m pl pk d \<and> (state_at_least (k_state v) StSuppressed \<longrightarrow> fence_on ot M d))
        (replace_marker ot v) (\<lambda>_. moving wx ot M pass v pl pk)"
      using m s False fresh later by (intro goes_replace [OF fit _ v]) (auto simp: state_order split: if_splits)
    moreover have "state_at_least (k_state v) StSuppressed \<longleftrightarrow> s = StSuppressed"
      using False s later by (auto simp: state_order)
    ultimately have "goes wx (midway wx ot M pass (k_safety m)) bad
        (\<lambda>d. moving wx ot M pass m pl pk d \<and> (s = StSuppressed \<longrightarrow> fence_on ot M d))
        (thence (replace_marker ot v) (ret v)) (\<lambda>a d. a = v \<and> moving wx ot M pass v pl pk d)"
      by (auto intro!: goes_thence goes_ret)
    moreover have "advance ot s (m\<lparr>k_counts := c\<rparr>) = thence (replace_marker ot v) (ret v)"
    proof -
      have "(m\<lparr>k_counts := c\<rparr>)\<lparr>k_state := s\<rparr> = v" using False later by simp
      then show ?thesis using False by (simp add: advance_def)
    qed
    ultimately show ?thesis by simp
  qed
qed

section \<open>A pair is validated\<close>

lemma reads_hashes [reading]: "list_all reads [require_hash p w hi, check, require b why]"
  by (simp add: reading)

lemma still_validate_pair:
  assumes "is_file d db wd" "is_file d key wk" and "1 \<le> fr_size wd" "fr_size wd \<le> MaxDatabaseBytes"
    and "1 \<le> fr_size wk" "fr_size wk \<le> keyringMaxBytes"
  shows "still (validate_pair ot db key wd wk) d =
    (if \<not> o_open ot wk then Failed (Refused ''restore swap: open keyring'')
     else case o_validate ot wd wk of None \<Rightarrow> Failed (Refused ''recovery: validation failed'') | Some counts \<Rightarrow> Done counts)"
  using assms unfolding validate_pair_def
  by (simp add: still_thence still_check still_require still_require_hash still_ret still_raise reads_thence reads_require_hash
      reads_check reads_require reads_ret split: option.split)

lemma still_require_hash_only: "still (require_hash p want hi) d = Done () \<Longrightarrow> is_file d p want"
  by (simp add: require_hash_def still_andthen [OF reads_path_record(1)] still_path_record still_require still_raise is_file_def
      split: option.splits node.splits if_splits)

lemma done_unit: "(x :: unit outcome_of) = Done a \<longleftrightarrow> x = Done ()"
  by simp

lemma still_validate_pair_only:
  assumes "still (validate_pair ot db key wd wk) d = Done counts"
  shows "is_file d db wd \<and> is_file d key wk \<and> o_open ot wk \<and> o_validate ot wd wk = Some counts"
proof -
  have db: "still (require_hash db wd MaxDatabaseBytes) d = Done ()" and key: "still (require_hash key wk keyringMaxBytes) d = Done ()"
    and "o_open ot wk"
    using assms unfolding validate_pair_def
    by (simp_all add: still_thence still_check still_require reads_thence reads_require_hash reads_check reads_require reads_ret
        split: outcome_of.splits if_splits)
  then show ?thesis using assms [unfolded validate_pair_def] still_require_hash_only
    by (simp add: still_thence still_check still_require still_ret still_raise reads_thence reads_require_hash reads_check
        reads_require reads_ret split: option.splits)
qed

section \<open>The rollback directory and the fence\<close>

lemma goes_rollback_directory:
  assumes n: "rollback_dir n = rollback_dir M"
    and pure: "k_state m \<noteq> StReady" "k_state m = StCleanup \<longrightarrow> wx = Faulty"
  shows "goes wx (midway wx ot M pass (k_safety m)) bad (swapping ot M pass pl pk m) (ensure_rollback_directory n) (\<lambda>_. moving wx ot M pass m pl pk)"
proof -
  have under: "midway wx ot M pass (k_safety m) d" if "swapping ot M pass pl pk m d" for d
    using that pure by (auto simp: midway_def)
  have "one_effect wx (\<lambda>d. swapping ot M pass pl pk m d \<and> map_of d (rollback_dir M) = None)
      (thence (make_dir (rollback_dir M)) (sync_dir [recoveryDirName])) (moving wx ot M pass m pl pk)"
  proof (rule then_effect)
    show "one_effect wx (\<lambda>d. swapping ot M pass pl pk m d \<and> map_of d (rollback_dir M) = None) (make_dir (rollback_dir M))
        (moving wx ot M pass m pl pk)"
      unfolding make_dir_def
    proof (rule effect_step)
      fix d
      assume d: "swapping ot M pass pl pk m d \<and> map_of d (rollback_dir M) = None"
      have "swapping ot M pass pl pk m (put (rollback_dir M) Dir d)"
        by (rule swapping_directory [where d = d]) (use d in \<open>auto simp: swapping_def layout_def\<close>)
      moreover have "parent_there d (rollback_dir M)"
        using d by (simp add: parent_there_def rollback_dir_def swapping_def layout_def)
      ultimately show "\<exists>d'. (if map_of d (rollback_dir M) \<noteq> None then Inl Exists
            else if parent_there d (rollback_dir M) then Inr ((), put (rollback_dir M) Dir d) else Inl NotExist) = Inr ((), d') \<and>
          moving wx ot M pass m pl pk d'"
        using d pure by (simp add: moving_def)
    qed
    show "one_effect wx (moving wx ot M pass m pl pk) (sync_dir [recoveryDirName]) (moving wx ot M pass m pl pk)"
      by (rule effect_sync) (use moving_marker_there in blast)
  qed
  then have made: "goes wx (midway wx ot M pass (k_safety m)) bad (\<lambda>d. swapping ot M pass pl pk m d \<and> map_of d (rollback_dir M) = None)
      (in_turn [make_dir (rollback_dir M), sync_dir [recoveryDirName]]) (\<lambda>_. moving wx ot M pass m pl pk)"
    by (simp, intro goes_effect) (auto intro: under moving_midway)
  show ?thesis unfolding ensure_rollback_directory_def n
  proof (rule goes_andthen)
    show "goes wx (midway wx ot M pass (k_safety m)) bad (swapping ot M pass pl pk m) (lstat (rollback_dir M))
        (\<lambda>a d. swapping ot M pass pl pk m d \<and> a = map_of d (rollback_dir M))"
      by (rule goes_read [OF reads_lstat(1)]) (auto simp: still_lstat intro: under)
    show "goes wx (midway wx ot M pass (k_safety m)) bad (\<lambda>d. swapping ot M pass pl pk m d \<and> a = map_of d (rollback_dir M))
        (if a = None then in_turn [make_dir (rollback_dir M), sync_dir [recoveryDirName]]
         else require (a = Some Dir) ''restore swap: rollback directory is unsafe'') (\<lambda>_. moving wx ot M pass m pl pk)" for a
    proof (cases "a = None")
      case True
      show ?thesis unfolding if_P [OF True] by (rule goes_conseq [OF made]) (use True in auto)
    next
      case False
      show ?thesis unfolding if_not_P [OF False]
      proof (rule goes_fact)
        fix d
        assume "swapping ot M pass pl pk m d \<and> a = map_of d (rollback_dir M)"
        then show "a = Some Dir" using False by (auto simp: swapping_def layout_def)
      next
        assume "a = Some Dir"
        then show "goes wx (midway wx ot M pass (k_safety m)) bad (\<lambda>d. swapping ot M pass pl pk m d \<and> a = map_of d (rollback_dir M))
            (require (a = Some Dir) ''restore swap: rollback directory is unsafe'') (\<lambda>_. moving wx ot M pass m pl pk)"
          using pure by (auto simp: require_def moving_def intro!: goes_ret)
      qed
    qed
  qed
qed

lemma still_read_suppression:
  "map_of d fence_path = None \<Longrightarrow> still (read_suppression ot) d = Failed NotExist"
  "fence_on ot M d \<Longrightarrow> \<exists>v. still (read_suppression ot) d = Done v \<and> fe_restore v = k_id M"
  by (auto simp: read_suppression_def still_andthen reads_read_doc still_read_doc fence_on_def still_ret)

text \<open>A look that takes one kind of failure for absence.\<close>

lemma still_look:
  "reads p \<Longrightarrow> still p d = Done v \<Longrightarrow>
     still (catching (andthen p (\<lambda>v. ret (Some v))) (\<lambda>e. if e = k then ret None else raise e)) d = Done (Some v)"
  "reads p \<Longrightarrow> still p d = Failed k \<Longrightarrow>
     still (catching (andthen p (\<lambda>v. ret (Some v))) (\<lambda>e. if e = k then ret None else raise e)) d = Done None"
  by (simp_all add: still_catching still_andthen reads_andthen reads_ret still_ret)

lemma goes_fence:
  assumes fit: "docs_fit ot" and id: "k_id n = k_id M" "valid_restore_id (k_id M)" and now: "o_now ot = Some t" "tx_utc ot t"
  shows "goes wx (midway wx ot M pass (k_safety m)) bad (moving wx ot M pass m pl pk) (ensure_suppression ot n)
    (\<lambda>_ d. moving wx ot M pass m pl pk d \<and> fence_on ot M d)"
proof -
  let ?U = "midway wx ot M pass (k_safety m)"
  let ?f = "new_fence n t"
  have ok: "fence_ok ot ?f" "fe_restore ?f = k_id M" using id now by (simp_all add: fence_ok_def new_fence_def)
  have wrote: "one_effect wx (\<lambda>d. moving wx ot M pass m pl pk d \<and> map_of d fence_path = None)
      (write_doc ot fence_path (FenceDoc ?f) True) (\<lambda>d. moving wx ot M pass m pl pk d \<and> fence_on ot M d)"
  proof (rule effect_write_doc)
    show "1 \<le> fr_size (o_json ot (FenceDoc ?f)) \<and> fr_size (o_json ot (FenceDoc ?f)) \<le> markerMaxBytes"
      using fit by (simp add: docs_fit_def)
    fix d
    assume d: "moving wx ot M pass m pl pk d \<and> map_of d fence_path = None"
    let ?d = "put fence_path (File (o_json ot (FenceDoc ?f)) (Some (FenceDoc ?f))) d"
    have sw: "swapping ot M pass pl pk m d" using d by (simp add: moving_def)
    have "swapping ot M pass pl pk m ?d" by (rule swapping_fenced [OF sw _ _ ok]) (use fit in \<open>auto simp: docs_fit_def\<close>)
    moreover have "map_of ?d (rollback_dir M) = map_of d (rollback_dir M)" by (rule swapping_small(6) [OF sw]) simp
    moreover have "fence_on ot M ?d" using ok fit by (simp add: fence_on_def docs_fit_def)
    ultimately show "moving wx ot M pass m pl pk ?d \<and> fence_on ot M ?d" using d by (simp add: moving_def)
  qed (auto simp: parent_there_def fence_path_def)
  have written: "goes wx ?U bad (\<lambda>d. moving wx ot M pass m pl pk d \<and> map_of d fence_path = None)
      (write_doc ot fence_path (FenceDoc ?f) True) (\<lambda>_ d. moving wx ot M pass m pl pk d \<and> fence_on ot M d)"
    by (rule goes_effect [OF wrote]) (auto intro: moving_midway)
  show ?thesis unfolding ensure_suppression_def
  proof (rule goes_andthen)
    show "goes wx ?U bad (moving wx ot M pass m pl pk)
        (catching (andthen (read_suppression ot) (\<lambda>v. ret (Some v))) (\<lambda>e. if e = NotExist then ret None else raise e))
        (\<lambda>v d. moving wx ot M pass m pl pk d \<and> (case v of None \<Rightarrow> map_of d fence_path = None | Some f \<Rightarrow> fence_on ot M d \<and> fe_restore f = k_id M))"
    proof (rule goes_read)
      show "reads (catching (andthen (read_suppression ot) (\<lambda>v. ret (Some v))) (\<lambda>e. if e = NotExist then ret None else raise e))"
        by (auto intro!: reading)
      fix d
      assume d: "moving wx ot M pass m pl pk d"
      show "?U d" by (rule moving_midway [OF d])
      have "map_of d fence_path = None \<or> fence_on ot M d" using d by (simp add: moving_def swapping_def)
      then have st: "\<exists>v. still (catching (andthen (read_suppression ot) (\<lambda>v. ret (Some v))) (\<lambda>e. if e = NotExist then ret None else raise e)) d = Done v \<and>
          (case v of None \<Rightarrow> map_of d fence_path = None | Some f \<Rightarrow> fence_on ot M d \<and> fe_restore f = k_id M)"
        proof
          assume none: "map_of d fence_path = None"
          show ?thesis using still_look(2) [OF reads_read_suppression(1) [of ot] still_read_suppression(1) [OF none, of ot]] none by simp
        next
          assume on: "fence_on ot M d"
          then obtain v where "still (read_suppression ot) d = Done v" "fe_restore v = k_id M" using still_read_suppression(2) by blast
          then show ?thesis using still_look(1) [OF reads_read_suppression(1) [of ot]] on by fastforce
        qed
      show "moving wx ot M pass m pl pk d \<and> (case a of None \<Rightarrow> map_of d fence_path = None | Some f \<Rightarrow> fence_on ot M d \<and> fe_restore f = k_id M)"
        if "still (catching (andthen (read_suppression ot) (\<lambda>v. ret (Some v))) (\<lambda>e. if e = NotExist then ret None else raise e)) d = Done a" for a
        using d st that by auto
      show bad if "still (catching (andthen (read_suppression ot) (\<lambda>v. ret (Some v))) (\<lambda>e. if e = NotExist then ret None else raise e)) d = Failed e" for e
        using st that by auto
    qed
    show "goes wx ?U bad
        (\<lambda>d. moving wx ot M pass m pl pk d \<and> (case v of None \<Rightarrow> map_of d fence_path = None | Some f \<Rightarrow> fence_on ot M d \<and> fe_restore f = k_id M))
        (case v of Some f \<Rightarrow> require (fe_restore f = k_id n) ''restore swap: an earlier router-write suppression is still active''
         | None \<Rightarrow> (case o_now ot of None \<Rightarrow> raise (Refused ''restore swap: suppression creation time is invalid'')
            | Some t \<Rightarrow> write_doc ot fence_path (FenceDoc (new_fence n t)) True))
        (\<lambda>_ d. moving wx ot M pass m pl pk d \<and> fence_on ot M d)" for v
    proof (cases v)
      case None
      then show ?thesis using written now by simp
    next
      case (Some f)
      show ?thesis
        by (rule goes_fact [where b = "fe_restore f = k_id n"]) (use Some id in \<open>auto simp: require_def intro: goes_ret\<close>)
    qed
  qed
qed

end
