(* ===== verification/SwapStages.thy ===== *)
theory SwapStages
  imports SwapProgram
begin

text \<open>The swap proper and its rollback as a whole, and the safety archive before them.\<close>

section \<open>Stages\<close>

text \<open>The marker \<open>a\<close> at hand is the one on disk, at least at state \<open>s\<close>; \<open>C\<close> says where the members are.\<close>

definition at_stage :: "weather \<Rightarrow> ('a outside_scheme) \<Rightarrow> marker \<Rightarrow> string \<Rightarrow> file_record \<Rightarrow> (place \<Rightarrow> place \<Rightarrow> bool) \<Rightarrow> swap_state \<Rightarrow>
    marker \<Rightarrow> fsys \<Rightarrow> bool" where
  "at_stage wx ot M pass r C s a d \<longleftrightarrow>
     (\<exists>pl pk. moving wx ot M pass a pl pk d \<and> C pl pk) \<and> k_safety a = r \<and> state_at_least (k_state a) s"

lemma goes_pick: "(\<And>d. P d \<Longrightarrow> goes wx U bad (\<lambda>x. x = d) p Q) \<Longrightarrow> goes wx U bad P p Q"
  unfolding goes_def by (rule holds_pick)

lemma stage_facts:
  assumes "at_stage wx ot M pass r C s a d"
  shows "same_restore M a" "validate_marker ot (o_schema ot) a = None" "k_state a \<notin> {StIntent, StReady}" "named_apart M"
proof -
  obtain pl pk where sw: "swapping ot M pass pl pk a d" "k_state a \<noteq> StReady"
    using assms by (auto simp: at_stage_def moving_def)
  then show "same_restore M a" "validate_marker ot (o_schema ot) a = None" "k_state a \<notin> {StIntent, StReady}" "named_apart M"
    using swapping_facts [OF sw(1)] by auto
qed

lemma stage_midway: "at_stage wx ot M pass r C s a d \<Longrightarrow> midway wx ot M pass r d"
  using moving_midway by (auto simp: at_stage_def)

lemma stage_step:
  assumes "\<And>pl pk. C pl pk \<Longrightarrow> same_restore M a \<Longrightarrow>
    goes wx (midway wx ot M pass (k_safety a)) bad (moving wx ot M pass a pl pk) p
      (\<lambda>_ d. \<exists>pl' pk'. moving wx ot M pass a pl' pk' d \<and> C' pl' pk')"
  shows "goes wx (midway wx ot M pass r) bad (at_stage wx ot M pass r C s a) p (\<lambda>_. at_stage wx ot M pass r C' s a)"
proof (rule goes_pick)
  fix d
  assume st: "at_stage wx ot M pass r C s a d"
  then obtain pl pk where mv: "moving wx ot M pass a pl pk d" and C: "C pl pk" and r: "k_safety a = r" "state_at_least (k_state a) s"
    by (auto simp: at_stage_def)
  show "goes wx (midway wx ot M pass r) bad (\<lambda>x. x = d) p (\<lambda>_. at_stage wx ot M pass r C' s a)"
    by (rule goes_conseq [OF assms [OF C stage_facts(1) [OF st], unfolded r(1)]])
      (use mv r in \<open>auto simp: at_stage_def\<close>)
qed

definition away_db :: "marker \<Rightarrow> place \<Rightarrow> place \<Rightarrow> bool" where
  "away_db M pl pk \<longleftrightarrow> (k_old_db M \<noteq> k_new_db M \<longrightarrow> pl \<noteq> Home)"

definition away :: "marker \<Rightarrow> place \<Rightarrow> place \<Rightarrow> bool" where
  "away M pl pk \<longleftrightarrow> away_db M pl pk \<and> (k_old_key M \<noteq> k_new_key M \<longrightarrow> pk \<noteq> Home)"

definition half_in :: "marker \<Rightarrow> place \<Rightarrow> place \<Rightarrow> bool" where
  "half_in M pl pk \<longleftrightarrow> (k_old_db M \<noteq> k_new_db M \<longrightarrow> pl = Swapped) \<and> (k_old_key M \<noteq> k_new_key M \<longrightarrow> pk \<noteq> Home)"

lemma stage_park_db:
  "goes wx (midway wx ot M pass r) bad (at_stage wx ot M pass r C s a)
     (park_old live_db (k_new_db a) (k_old_db a) (rollback_db a) MaxDatabaseBytes) (\<lambda>_. at_stage wx ot M pass r (away_db M) s a)"
  by (rule stage_step, simp add: same_restoreD, rule goes_conseq [OF db.park]) (auto simp: away_db_def split: if_splits)

lemma stage_park_key:
  "goes wx (midway wx ot M pass r) bad (at_stage wx ot M pass r (away_db M) s a)
     (park_old live_key (k_new_key a) (k_old_key a) (rollback_key a) keyringMaxBytes) (\<lambda>_. at_stage wx ot M pass r (away M) s a)"
  by (rule stage_step, simp add: same_restoreD, rule goes_conseq [OF key.park]) (auto simp: away_def away_db_def split: if_splits)

lemma stage_publish_db:
  "goes wx (midway wx ot M pass r) bad (at_stage wx ot M pass r (away M) s a)
     (publish_new live_db (prepared_db a) (k_new_db a) (k_old_db a) MaxDatabaseBytes) (\<lambda>_. at_stage wx ot M pass r (half_in M) s a)"
  by (rule stage_step, simp add: same_restoreD, rule goes_conseq [OF db.publish])
    (auto simp: away_def away_db_def half_in_def split: if_splits)

lemma stage_publish_key:
  "goes wx (midway wx ot M pass r) bad (at_stage wx ot M pass r (half_in M) s a)
     (publish_new live_key (prepared_key a) (k_new_key a) (k_old_key a) keyringMaxBytes) (\<lambda>_. at_stage wx ot M pass r (settled M) s a)"
  by (rule stage_step, simp add: same_restoreD, rule goes_conseq [OF key.publish])
    (auto simp: settled_def half_in_def split: if_splits)

lemma stage_marked:
  assumes fit: "docs_fit ot" and s: "s \<in> {StOldDBParked, StOldPairParked, StNewDBPublished, StNewPairPublished, StValidated, StSuppressed}"
    and same: "state_at_least (k_state a) s \<Longrightarrow> c = k_counts a"
    and fresh: "\<not> state_at_least (k_state a) s \<Longrightarrow>
      if state_at_least s StValidated then validated ot M c \<and> iv_schema c = o_schema ot \<and> valid_counts c else c = no_inventory"
  shows "goes wx (midway wx ot M pass r) bad (\<lambda>d. at_stage wx ot M pass r C s0 a d \<and> (s = StSuppressed \<longrightarrow> fence_on ot M d))
    (advance ot s (a\<lparr>k_counts := c\<rparr>)) (at_stage wx ot M pass r C s)"
proof (rule goes_pick)
  fix d
  assume st: "at_stage wx ot M pass r C s0 a d \<and> (s = StSuppressed \<longrightarrow> fence_on ot M d)"
  then obtain pl pk where mv: "moving wx ot M pass a pl pk d" and C: "C pl pk" and r: "k_safety a = r"
    by (auto simp: at_stage_def)
  let ?v = "if state_at_least (k_state a) s then a else a\<lparr>k_state := s, k_counts := c\<rparr>"
  have "state_at_least s s" using s by (auto simp: state_order)
  then have v: "state_at_least (k_state ?v) s" "k_safety ?v = r" using r by auto
  show "goes wx (midway wx ot M pass r) bad (\<lambda>x. x = d) (advance ot s (a\<lparr>k_counts := c\<rparr>)) (at_stage wx ot M pass r C s)"
  proof (rule goes_conseq [OF goes_advance [OF fit s same fresh refl, unfolded r]])
    show "x = d \<Longrightarrow> moving wx ot M pass a pl pk x \<and> (s = StSuppressed \<longrightarrow> fence_on ot M x)" for x using mv st by simp
    show "at_stage wx ot M pass r C s x y" if "x = ?v \<and> moving wx ot M pass ?v pl pk y" for x y
      using that C v unfolding at_stage_def by blast
  qed
qed

lemma stage_advance:
  assumes "docs_fit ot" and s: "s \<in> {StOldDBParked, StOldPairParked, StNewDBPublished, StNewPairPublished}"
  shows "goes wx (midway wx ot M pass r) bad (at_stage wx ot M pass r C s0 a) (advance ot s a) (at_stage wx ot M pass r C s)"
proof (rule goes_fact)
  show "validate_marker ot (o_schema ot) a = None" if "at_stage wx ot M pass r C s0 a d" for d
    by (rule stage_facts(2) [OF that])
  assume valid: "validate_marker ot (o_schema ot) a = None"
  have counts: "k_counts a = no_inventory" if "\<not> state_at_least (k_state a) s"
    using that s by (intro valid_counts_none [OF valid]) (auto simp: state_order split: if_splits)
  have below: "\<not> state_at_least s StValidated" "s \<noteq> StSuppressed" using s by (auto simp: state_order)
  have "s \<in> {StOldDBParked, StOldPairParked, StNewDBPublished, StNewPairPublished, StValidated, StSuppressed}" using s by auto
  from stage_marked [OF assms(1) this, where a = a and c = "k_counts a"] below counts
  show "goes wx (midway wx ot M pass r) bad (at_stage wx ot M pass r C s0 a) (advance ot s a) (at_stage wx ot M pass r C s)"
    by simp
qed

section \<open>The new pair is live\<close>

text \<open>What a restore relies on in the packages it calls, and in the clock.\<close>

lemma sound_facts:
  assumes "sound_outside ot M pass version"
  shows "docs_fit ot" and "o_open ot (k_old_key M)" and "\<exists>counts. o_validate ot (k_old_db M) (k_old_key M) = Some counts"
    and "validated ot M c \<Longrightarrow> iv_schema c = o_schema ot \<and> valid_counts c"
    and "\<exists>t. o_now ot = Some t \<and> tx_utc ot t" and "valid_restore_id (k_id M)"
  using assms names_of_valid(3) [of ot "o_schema ot" M] by (auto simp: sound_outside_def docs_fit_def validated_def)

lemma settled_live:
  assumes "moving wx ot M pass a pl pk d" and "settled M pl pk"
  shows "is_file d live_db (k_new_db M)" and "is_file d live_key (k_new_key M)"
proof -
  have "db_at M pl d" "key_at M pk d" using assms(1) by (simp_all add: moving_def swapping_def)
  then show "is_file d live_db (k_new_db M)" and "is_file d live_key (k_new_key M)"
    using assms(2) by (auto simp: member_at_def settled_def split: place.splits)
qed

lemma stage_validate:
  "goes wx (midway wx ot M pass r) (\<nexists>c. validated ot M c) (at_stage wx ot M pass r (settled M) s a)
     (validate_pair ot live_db live_key (k_new_db a) (k_new_key a))
     (\<lambda>c d. at_stage wx ot M pass r (settled M) s a d \<and> validated ot M c)"
proof (rule goes_read [OF reads_validate_pair])
  fix d
  assume st: "at_stage wx ot M pass r (settled M) s a d"
  then obtain pl pk where mv: "moving wx ot M pass a pl pk d" and se: "settled M pl pk" by (auto simp: at_stage_def)
  show "midway wx ot M pass r d" by (rule stage_midway [OF st])
  note m = moving_room [OF mv] same_restoreD(9,10) [OF stage_facts(1) [OF st]]
  have val: "still (validate_pair ot live_db live_key (k_new_db a) (k_new_key a)) d =
      (if \<not> o_open ot (k_new_key M) then Failed (Refused ''restore swap: open keyring'')
       else case o_validate ot (k_new_db M) (k_new_key M) of None \<Rightarrow> Failed (Refused ''recovery: validation failed'') | Some c \<Rightarrow> Done c)"
    using m by (simp add: still_validate_pair [OF settled_live [OF mv se]])
  show "at_stage wx ot M pass r (settled M) s a d \<and> validated ot M c"
    if "still (validate_pair ot live_db live_key (k_new_db a) (k_new_key a)) d = Done c" for c
    using that st unfolding val by (auto simp: validated_def split: if_splits option.splits)
  show "\<nexists>c. validated ot M c" if "still (validate_pair ot live_db live_key (k_new_db a) (k_new_key a)) d = Failed e" for e
    using that unfolding val by (auto simp: validated_def split: if_splits option.splits)
qed

lemma stage_validated:
  assumes "sound_outside ot M pass version"
  shows "goes wx (midway wx ot M pass r) bad (\<lambda>d. at_stage wx ot M pass r C s0 a d \<and> validated ot M c)
    (advance ot StValidated (a\<lparr>k_counts := c\<rparr>)) (at_stage wx ot M pass r C StValidated)"
proof (rule goes_fact)
  show "validated ot M c \<and> (state_at_least (k_state a) StValidated \<longrightarrow> validated ot M (k_counts a))"
    if "at_stage wx ot M pass r C s0 a d \<and> validated ot M c" for d
    using that by (auto simp: at_stage_def moving_def swapping_def)
  assume v: "validated ot M c \<and> (state_at_least (k_state a) StValidated \<longrightarrow> validated ot M (k_counts a))"
  show "goes wx (midway wx ot M pass r) bad (\<lambda>d. at_stage wx ot M pass r C s0 a d \<and> validated ot M c)
      (advance ot StValidated (a\<lparr>k_counts := c\<rparr>)) (at_stage wx ot M pass r C StValidated)"
    by (rule goes_conseq [OF stage_marked [OF sound_facts(1) [OF assms], where s = StValidated and c = c]])
      (use v sound_facts(4) [OF assms] in \<open>auto simp: validated_def state_order\<close>)
qed

lemma stage_fenced:
  assumes "sound_outside ot M pass version"
  shows "goes wx (midway wx ot M pass r) bad (at_stage wx ot M pass r C s a) (ensure_suppression ot a)
    (\<lambda>_ d. at_stage wx ot M pass r C s a d \<and> fence_on ot M d)"
proof (rule goes_pick)
  fix d
  assume st: "at_stage wx ot M pass r C s a d"
  then obtain pl pk where mv: "moving wx ot M pass a pl pk d" and C: "C pl pk" "k_safety a = r" "state_at_least (k_state a) s"
    by (auto simp: at_stage_def)
  obtain t where t: "o_now ot = Some t" "tx_utc ot t" using sound_facts(5) [OF assms] by blast
  note fence = goes_fence [OF sound_facts(1) [OF assms] same_restoreD(3) [OF stage_facts(1) [OF st]] sound_facts(6) [OF assms] t]
  show "goes wx (midway wx ot M pass r) bad (\<lambda>x. x = d) (ensure_suppression ot a) (\<lambda>_ d. at_stage wx ot M pass r C s a d \<and> fence_on ot M d)"
    by (rule goes_conseq [OF fence [where m = a, unfolded C(2)]]) (use mv C in \<open>auto simp: at_stage_def\<close>)
qed

lemma stage_suppressed:
  assumes "docs_fit ot"
  shows "goes wx (midway wx ot M pass r) bad (\<lambda>d. at_stage wx ot M pass r C StValidated a d \<and> fence_on ot M d) (advance ot StSuppressed a)
    (at_stage wx ot M pass r C StSuppressed)"
proof (rule goes_fact)
  show "validated ot M (k_counts a) \<and> validate_marker ot (o_schema ot) a = None \<and> state_at_least (k_state a) StValidated"
    if "at_stage wx ot M pass r C StValidated a d \<and> fence_on ot M d" for d
    using that by (auto simp: at_stage_def moving_def swapping_def)
  assume v: "validated ot M (k_counts a) \<and> validate_marker ot (o_schema ot) a = None \<and> state_at_least (k_state a) StValidated"
  then have "iv_schema (k_counts a) = o_schema ot \<and> valid_counts (k_counts a)" by (simp add: validate_marker_def split: if_splits)
  then have "goes wx (midway wx ot M pass r) bad (\<lambda>d. at_stage wx ot M pass r C StValidated a d \<and> (StSuppressed = StSuppressed \<longrightarrow> fence_on ot M d))
      (advance ot StSuppressed (a\<lparr>k_counts := k_counts a\<rparr>)) (at_stage wx ot M pass r C StSuppressed)"
    by (intro stage_marked [OF assms]) (use v in \<open>auto simp: state_order\<close>)
  then show "goes wx (midway wx ot M pass r) bad (\<lambda>d. at_stage wx ot M pass r C StValidated a d \<and> fence_on ot M d) (advance ot StSuppressed a)
      (at_stage wx ot M pass r C StSuppressed)" by simp
qed

section \<open>The swap\<close>

lemma settled_cleaning:
  assumes "swapping ot M pass pl pk m d" and "settled M pl pk" and "k_state m = StCleanup"
  shows "cleaning ot M pass m d"
proof -
  have "state_at_least StCleanup StValidated" "state_at_least StCleanup StSuppressed" by (simp_all add: state_order)
  then have "fence_on ot M d" "validated ot M (k_counts m)" "archived ot M pass (k_safety m) d" "db_at M pl d" "key_at M pk d"
    "map_of d receipt_path = None" "map_of d [k_dir M] = Some Dir"
    using assms(1,3) by (simp_all add: swapping_def)
  moreover have "is_file d live_db (k_new_db M) \<and> (map_of d (prepared_db M) = None \<or> is_file d (prepared_db M) (k_new_db M)) \<and>
      (map_of d (rollback_db M) = None \<or> is_file d (rollback_db M) (k_old_db M))"
    using assms(2) \<open>db_at M pl d\<close> by (cases pl) (auto simp: member_at_def settled_def)
  moreover have "is_file d live_key (k_new_key M) \<and> (map_of d (prepared_key M) = None \<or> is_file d (prepared_key M) (k_new_key M)) \<and>
      (map_of d (rollback_key M) = None \<or> is_file d (rollback_key M) (k_old_key M))"
    using assms(2) \<open>key_at M pk d\<close> by (cases pk) (auto simp: member_at_def settled_def)
  ultimately show ?thesis using assms(1,3) by (simp add: cleaning_def swapping_def)
qed

lemma stage_cleanup:
  assumes fit: "docs_fit ot"
  shows "holds wx (at_stage wx ot M pass r (settled M) StSuppressed a) (advance ot StCleanup a) (cleaning ot M pass)
    (\<lambda>e d. wx = Faulty \<and> midway wx ot M pass r d) (\<lambda>d. wx \<noteq> Calm \<and> under_way wx ot M pass d)"
proof (rule holds_pick)
  fix d
  assume st: "at_stage wx ot M pass r (settled M) StSuppressed a d"
  then obtain pl pk where mv: "moving wx ot M pass a pl pk d" and se: "settled M pl pk" and r: "k_safety a = r"
    and s: "state_at_least (k_state a) StSuppressed" by (auto simp: at_stage_def)
  have sw: "swapping ot M pass pl pk a d" using mv by (simp add: moving_def)
  note f = stage_facts [OF st]
  show "holds wx (\<lambda>x. x = d) (advance ot StCleanup a) (cleaning ot M pass)
      (\<lambda>e d. wx = Faulty \<and> midway wx ot M pass r d) (\<lambda>d. wx \<noteq> Calm \<and> under_way wx ot M pass d)"
  proof (cases "state_at_least (k_state a) StCleanup")
    case True
    then have "k_state a = StCleanup" using names_of_valid(7) [OF f(2)] by (auto simp: state_order)
    then show ?thesis using True settled_cleaning [OF sw se] by (auto simp: advance_def intro: holds_ret)
  next
    case False
    let ?v = "a\<lparr>k_state := StCleanup\<rparr>"
    let ?Q = "\<lambda>x. swapping ot M pass pl pk ?v x"
    have sup: "state_at_least (k_state a) StValidated" "fence_on ot M d" "validated ot M (k_counts a)"
    proof -
      show "state_at_least (k_state a) StValidated" using s by (auto simp: state_order split: if_splits)
      then show "fence_on ot M d" "validated ot M (k_counts a)" using sw s by (simp_all add: swapping_def)
    qed
    have "iv_schema (k_counts a) = o_schema ot \<and> valid_counts (k_counts a)"
      using f(2) sup(1) by (simp add: validate_marker_def split: if_splits)
    then have valid: "validate_marker ot (o_schema ot) ?v = None"
      using valid_later [OF f(2) valid_at_least [OF f(2,3)], of StCleanup "k_counts a"] by (simp add: state_order)
    have arch: "archived ot M pass (k_safety a) d" using sw f(3) by (simp add: swapping_def)
    have eff: "one_effect wx (\<lambda>x. x = d) (replace_marker ot ?v) ?Q"
    proof (rule effect_replace_marker [OF fit valid])
      fix x assume "x = d"
      then show "map_of x [recoveryDirName] = Some Dir \<and> map_of x marker_path \<noteq> Some Dir" using moving_marker_there [OF mv] by simp
    next
      fix x and q :: file_record
      assume "x = d" "1 \<le> fr_size q" "fr_size q \<le> markerMaxBytes"
      then show "?Q (put marker_path (File q (Some (MarkerDoc ?v))) x)"
        using swapping_marked [OF sw _ _ _ valid] f(1) sup arch by simp
    next
      fix x assume "?Q x"
      from swapping_marker_there [OF this] show "map_of x [recoveryDirName] = Some Dir" by simp
    qed
    have und: "under_way wx ot M pass x" if "x = d \<or> ?Q x" for x
      using that mv se by (auto simp: under_way_def moving_def)
    have mid: "midway wx ot M pass r x" if "x = d \<or> ?Q x" "wx = Faulty" for x
    proof -
      have "swapping ot M pass pl pk a x \<and> k_state a \<noteq> StReady \<or> ?Q x" using that sw f(3) by auto
      then show ?thesis using r that(2) unfolding midway_def by fastforce
    qed
    have "holds wx (\<lambda>x. x = d) (replace_marker ot ?v) (\<lambda>_. ?Q) (\<lambda>e d. wx = Faulty \<and> midway wx ot M pass r d)
        (\<lambda>d. wx \<noteq> Calm \<and> under_way wx ot M pass d)"
      by (rule holds_conseq [OF eff [unfolded one_effect_def]]) (use und mid in auto)
    then have "holds wx (\<lambda>x. x = d) (thence (replace_marker ot ?v) (ret ?v)) (cleaning ot M pass)
        (\<lambda>e d. wx = Faulty \<and> midway wx ot M pass r d) (\<lambda>d. wx \<noteq> Calm \<and> under_way wx ot M pass d)"
      by (rule holds_thence, intro holds_ret settled_cleaning [OF _ se]) simp_all
    with False show ?thesis by (simp add: advance_def)
  qed
qed

lemma goes_holds:
  "goes wx (midway wx ot M pass r) bad P p Q \<Longrightarrow>
     holds wx P p Q (\<lambda>e d. (wx \<noteq> Faulty \<longrightarrow> bad) \<and> midway wx ot M pass r d) (\<lambda>d. wx \<noteq> Calm \<and> under_way wx ot M pass d)"
  unfolding goes_def by (erule holds_conseq) (auto intro: midway_under)

lemma holds_swap_steps:
  assumes sound: "sound_outside ot M pass version" and "k_state n \<notin> {StReady, StCleanup}" and "same_restore M n"
    and least: "state_at_least (k_state n) StSafety"
  shows "holds wx (swapping ot M pass pl pk n) (swap_steps ot n) (cleaning ot M pass)
    (\<lambda>e d. (wx \<noteq> Faulty \<longrightarrow> (\<nexists>c. validated ot M c)) \<and> midway wx ot M pass (k_safety n) d)
    (\<lambda>d. wx \<noteq> Calm \<and> under_way wx ot M pass d)"
proof -
  note fit = sound_facts(1) [OF sound]
  have start: "goes wx (midway wx ot M pass (k_safety n)) (\<nexists>c. validated ot M c) (swapping ot M pass pl pk n)
      (ensure_rollback_directory n) (\<lambda>_. at_stage wx ot M pass (k_safety n) (\<lambda>_ _. True) StSafety n)"
    by (rule goes_conseq [OF goes_rollback_directory]) (use assms same_restoreD(19) [OF assms(3)] in \<open>auto simp: at_stage_def\<close>)
  have last: "holds wx (at_stage wx ot M pass r (settled M) StSuppressed a) (advance ot StCleanup a) (cleaning ot M pass)
    (\<lambda>e d. (wx \<noteq> Faulty \<longrightarrow> (\<nexists>c. validated ot M c)) \<and> midway wx ot M pass r d) (\<lambda>d. wx \<noteq> Calm \<and> under_way wx ot M pass d)" for r a
    by (rule holds_conseq [OF stage_cleanup [OF fit]]) auto
  note steps = goes_holds [OF start] goes_holds [OF stage_park_db] goes_holds [OF stage_advance [OF fit]] goes_holds [OF stage_park_key]
    goes_holds [OF stage_publish_db] goes_holds [OF stage_publish_key] goes_holds [OF stage_validate] goes_holds [OF stage_validated [OF sound]]
    goes_holds [OF stage_fenced [OF sound]] goes_holds [OF stage_suppressed [OF fit]] last
  show ?thesis unfolding swap_steps_def
    by (rule holds_thence | rule holds_andthen | rule steps | (simp; fail))+
qed

end
