(* ===== verification/SwapClean.thy ===== *)
theory SwapClean
  imports SwapRun
begin

text \<open>Removing a directory of the restore with the two files it may hold, one call at a time.\<close>

locale emptying =
  fixes J U :: "fsys \<Rightarrow> bool" and dir up :: path and na nb :: string and ra rb :: file_record and ha hb :: nat
  assumes dir: "J d \<Longrightarrow> map_of d dir \<in> {None, Some Dir}"
    and below: "J d \<Longrightarrow> map_of d (dir @ [n]) \<noteq> None \<Longrightarrow> n \<in> {na, nb}"
    and fa: "J d \<Longrightarrow> map_of d (dir @ [na]) = None \<or> is_file d (dir @ [na]) ra \<and> 1 \<le> fr_size ra \<and> fr_size ra \<le> ha"
    and fb: "J d \<Longrightarrow> map_of d (dir @ [nb]) = None \<or> is_file d (dir @ [nb]) rb \<and> 1 \<le> fr_size rb \<and> fr_size rb \<le> hb"
    and gone: "J d \<Longrightarrow> x \<in> {dir @ [na], dir @ [nb]} \<or> x = dir \<and> map_of d (dir @ [na]) = None \<and> map_of d (dir @ [nb]) = None \<Longrightarrow>
      J (del x d)"
    and up: "J d \<Longrightarrow> up = [] \<or> map_of d up = Some Dir"
    and under: "J d \<Longrightarrow> U d"
begin

text \<open>The directory is there, and the files of \<open>K\<close> are not.\<close>

abbreviation left :: "string set \<Rightarrow> fsys \<Rightarrow> bool" where
  "left K d \<equiv> J d \<and> map_of d dir = Some Dir \<and> (\<forall>k\<in>K. map_of d (dir @ [k]) = None)"

lemma remove_one:
  assumes "(n, r, h) \<in> {(na, ra, ha), (nb, rb, hb)}"
  shows "goes wx U bad (\<lambda>d. left K d \<and> is_file d (dir @ [n]) r) (remove_file (dir @ [n])) (\<lambda>_. left (insert n K))"
proof (rule goes_effect [OF effect_remove])
  fix d
  assume d: "left K d \<and> is_file d (dir @ [n]) r"
  then have "J (del (dir @ [n]) d)" using assms by (intro gone) auto
  then show "map_of d (dir @ [n]) \<noteq> None \<and> (map_of d (dir @ [n]) = Some Dir \<longrightarrow> dir_entries d (dir @ [n]) = []) \<and>
      left (insert n K) (del (dir @ [n]) d)"
    using d by (auto simp: is_file_def)
qed (auto intro: under)

lemma member_there:
  assumes "(n, r, h) \<in> {(na, ra, ha), (nb, rb, hb)}" and "J d"
  shows "map_of d (dir @ [n]) = None \<or> is_file d (dir @ [n]) r \<and> 1 \<le> fr_size r \<and> fr_size r \<le> h"
  using assms(1) fa [OF assms(2)] fb [OF assms(2)] by auto

lemma present: "(n, r, h) \<in> {(na, ra, ha), (nb, rb, hb)} \<Longrightarrow> J d \<Longrightarrow> map_of d (dir @ [n]) \<noteq> None \<Longrightarrow> is_file d (dir @ [n]) r"
  by (drule (1) member_there) auto

lemma remove_rollback:
  assumes m: "(n, r, h) \<in> {(na, ra, ha), (nb, rb, hb)}"
  shows "goes wx U bad (left K) (remove_rollback_member (dir @ [n]) r h) (\<lambda>_. left (insert n K))"
  unfolding remove_rollback_member_def
proof (rule goes_andthen)
  show "goes wx U bad (left K) (path_record (dir @ [n]) r h)
      (\<lambda>x d. left K d \<and> (x = MatchMissing \<and> map_of d (dir @ [n]) = None \<or> x = MatchExpected \<and> is_file d (dir @ [n]) r))"
  proof (rule goes_read [OF reads_path_record(1)])
    have look: "still (path_record (dir @ [n]) r h) d = Done (if map_of d (dir @ [n]) = None then MatchMissing else MatchExpected)" if "J d" for d
      using member_there [OF m that] by (auto simp: still_record(2) is_file_def still_record(1) [unfolded is_file_def])
    fix d
    assume d: "left K d"
    then show "U d" by (intro under) simp
    show "left K d \<and> (x = MatchMissing \<and> map_of d (dir @ [n]) = None \<or> x = MatchExpected \<and> is_file d (dir @ [n]) r)"
      if "still (path_record (dir @ [n]) r h) d = Done x" for x
      using that d present [OF m, of d] look [of d] by (auto split: if_splits)
    show bad if "still (path_record (dir @ [n]) r h) d = Failed e" for e
      using that d look [of d] by simp
  qed
  show "goes wx U bad (\<lambda>d. left K d \<and> (x = MatchMissing \<and> map_of d (dir @ [n]) = None \<or> x = MatchExpected \<and> is_file d (dir @ [n]) r))
      (if x = MatchMissing then ret ()
       else if x \<noteq> MatchExpected then raise (Refused ''restore swap: rollback member is unsafe to remove'') else remove_file (dir @ [n]))
      (\<lambda>_. left (insert n K))" for x
  proof (rule goes_fact)
    assume "x \<in> {MatchMissing, MatchExpected}"
    then show "goes wx U bad (\<lambda>d. left K d \<and> (x = MatchMissing \<and> map_of d (dir @ [n]) = None \<or> x = MatchExpected \<and> is_file d (dir @ [n]) r))
        (if x = MatchMissing then ret ()
         else if x \<noteq> MatchExpected then raise (Refused ''restore swap: rollback member is unsafe to remove'') else remove_file (dir @ [n]))
        (\<lambda>_. left (insert n K))"
      using remove_one [OF m, of wx bad K] by (auto intro: goes_ret)
  qed auto
qed

lemma remove_prepared:
  assumes m: "(n, r, h) \<in> {(na, ra, ha), (nb, rb, hb)}"
  shows "goes wx U bad (left K) (remove_prepared_member (dir @ [n]) r h True) (\<lambda>_. left (insert n K))"
  unfolding remove_prepared_member_def
proof (rule goes_andthen)
  let ?look = "catching (andthen (hash_file (dir @ [n]) 1 h) (\<lambda>got. ret (Some got)))
      (\<lambda>e. if e = NotExist \<and> True then ret None else raise (Refused ''restore swap: prepared member is unsafe to remove''))"
  have "reads ?look" by (intro reads_not_exist reads_andthen reads_hash reads_ret honest_andthen honest_ret) simp
  moreover have "still ?look d = Done (if map_of d (dir @ [n]) = None then None else Some r)" if "J d" for d
    using member_there [OF m that]
    by (auto simp: still_catching still_andthen reads_andthen reads_hash reads_ret still_hash still_ret is_file_def)
  ultimately show "goes wx U bad (left K) ?look
      (\<lambda>x d. left K d \<and> (x = None \<and> map_of d (dir @ [n]) = None \<or> x = Some r \<and> is_file d (dir @ [n]) r))"
    by (intro goes_read) (use present [OF m] in \<open>force intro: under split: if_splits\<close>)+
  show "goes wx U bad (\<lambda>d. left K d \<and> (x = None \<and> map_of d (dir @ [n]) = None \<or> x = Some r \<and> is_file d (dir @ [n]) r))
      (case x of None \<Rightarrow> ret ()
       | Some q \<Rightarrow> thence (require (q = r) ''restore swap: prepared member is unsafe to remove'') (remove_file (dir @ [n])))
      (\<lambda>_. left (insert n K))" for x
  proof (rule goes_fact)
    assume "x \<in> {None, Some r}"
    then show "goes wx U bad (\<lambda>d. left K d \<and> (x = None \<and> map_of d (dir @ [n]) = None \<or> x = Some r \<and> is_file d (dir @ [n]) r))
        (case x of None \<Rightarrow> ret ()
         | Some q \<Rightarrow> thence (require (q = r) ''restore swap: prepared member is unsafe to remove'') (remove_file (dir @ [n])))
        (\<lambda>_. left (insert n K))"
      using remove_one [OF m, of wx bad K] by (auto intro: goes_ret)
  qed auto
qed

lemma subset_ok: "left K d \<Longrightarrow> still (require_directory_subset dir [na, nb]) d = Done ()"
  unfolding require_directory_subset_def
  by (simp add: still_thence still_andthen reads_real_dir still_real_dir reads_list_dir still_list_dir still_require list.pred_set set_dir_entries)
    (use below in blast)

lemma no_entries: "left {na, nb} d \<Longrightarrow> dir_entries d dir = []"
  using below [of d] by (fastforce simp flip: set_empty simp: set_dir_entries)

lemma emptied:
  assumes "\<And>K. goes wx U bad (left K) pa (\<lambda>_. left (insert na K))" and "\<And>K. goes wx U bad (left K) pb (\<lambda>_. left (insert nb K))"
  shows "goes wx U bad (left {}) (in_turn [require_directory_subset dir [na, nb], pa, pb, require_exact_directory dir [], remove_file dir, sync_dir up])
    (\<lambda>_ d. J d \<and> map_of d dir = None)"
proof -
  have exact: "still (require_exact_directory dir []) d = Done ()" if "left {na, nb} d" for d
    using that no_entries [OF that] unfolding require_exact_directory_def
    by (simp add: still_thence still_andthen reads_real_dir still_real_dir reads_list_dir still_list_dir still_require)
  have removed: "goes wx U bad (left {na, nb}) (remove_file dir) (\<lambda>_ d. J d \<and> map_of d dir = None)"
  proof (rule goes_effect [OF effect_remove])
    fix d
    assume d: "left {na, nb} d"
    then have "J (del dir d)" by (intro gone) auto
    then show "map_of d dir \<noteq> None \<and> (map_of d dir = Some Dir \<longrightarrow> dir_entries d dir = []) \<and> J (del dir d) \<and> map_of (del dir d) dir = None"
      using d no_entries [OF d] by simp
  qed (auto intro: under)
  have synced: "goes wx U bad (\<lambda>d. J d \<and> map_of d dir = None) (sync_dir up) (\<lambda>_ d. J d \<and> map_of d dir = None)"
    by (rule goes_effect [OF effect_sync]) (use up under in auto)
  have "goes wx U bad (left {na, nb}) (thence (require_exact_directory dir []) (thence (remove_file dir) (sync_dir up)))
      (\<lambda>_ d. J d \<and> map_of d dir = None)"
    by (rule goes_pass [OF reads_directories(1) _ exact goes_thence [OF removed synced]]) (auto intro: under)
  moreover have "goes wx U bad (left {}) (thence pa (thence pb q)) Q" if "goes wx U bad (left {na, nb}) q Q" for q and Q :: "unit \<Rightarrow> fsys \<Rightarrow> bool"
    using goes_thence [OF assms(1) [of "{}"] goes_thence [OF assms(2) [of "{na}"]]] that by (simp add: insert_commute)
  ultimately show ?thesis
    by (simp, intro goes_pass [OF reads_directories(2) _ subset_ok [where K = "{}"]]) (auto intro: under)
qed

text \<open>Nothing is done where the directory is not there.\<close>

lemma removed:
  assumes "\<And>K. goes wx U bad (left K) pa (\<lambda>_. left (insert na K))" and "\<And>K. goes wx U bad (left K) pb (\<lambda>_. left (insert nb K))"
  shows "goes wx U bad J (andthen (lstat dir) (\<lambda>n. if n = None then ret () else if n \<noteq> Some Dir then raise e
      else in_turn [require_directory_subset dir [na, nb], pa, pb, require_exact_directory dir [], remove_file dir, sync_dir up]))
    (\<lambda>_ d. J d \<and> map_of d dir = None)"
proof (rule goes_andthen)
  let ?all = "in_turn [require_directory_subset dir [na, nb], pa, pb, require_exact_directory dir [], remove_file dir, sync_dir up]"
  show "goes wx U bad J (lstat dir) (\<lambda>n d. J d \<and> n = map_of d dir)"
    by (rule goes_read [OF reads_lstat(1)]) (auto simp: still_lstat intro: under)
  show "goes wx U bad (\<lambda>d. J d \<and> n = map_of d dir) (if n = None then ret () else if n \<noteq> Some Dir then raise e else ?all)
      (\<lambda>_ d. J d \<and> map_of d dir = None)" for n
  proof (rule goes_fact)
    show "n = None \<or> n = Some Dir" if "J d \<and> n = map_of d dir" for d using that dir [of d] by simp
    assume "n = None \<or> n = Some Dir"
    then show "goes wx U bad (\<lambda>d. J d \<and> n = map_of d dir) (if n = None then ret () else if n \<noteq> Some Dir then raise e else ?all)
        (\<lambda>_ d. J d \<and> map_of d dir = None)"
    proof
      assume n: "n = None"
      show ?thesis unfolding if_P [OF n] by (rule goes_ret) (use n in auto)
    next
      assume n: "n = Some Dir"
      have "goes wx U bad (\<lambda>d. J d \<and> n = map_of d dir) ?all (\<lambda>_ d. J d \<and> map_of d dir = None)"
        by (rule goes_conseq [OF emptied [OF assms]]) (use n in auto)
      with n show ?thesis by (simp del: in_turn.simps)
    qed
  qed
qed

end

end
