(* ===== verification/SwapRollback.thy ===== *)
theory SwapRollback
  imports SwapStages SwapClean
begin

text \<open>The rollback of a swap: wherever it starts from, it ends with the old pair live.\<close>

definition home :: "('a outside_scheme) \<Rightarrow> marker \<Rightarrow> string \<Rightarrow> file_record \<Rightarrow> fsys \<Rightarrow> bool" where
  "home ot M pass r d \<longleftrightarrow> (\<exists>m. swapping ot M pass Home Home m d \<and> k_state m = StSafety \<and> k_safety m = r)"

lemma home_midway:
  assumes "home ot M pass r d"
  shows "midway wx ot M pass r d"
proof -
  obtain m where "swapping ot M pass Home Home m d" "k_state m = StSafety" "k_safety m = r"
    using assms by (auto simp: home_def)
  moreover from this have "k_state m \<noteq> StReady \<and> (k_state m = StCleanup \<longrightarrow> wx = Faulty)" by simp
  ultimately show ?thesis unfolding midway_def by blast
qed

definition at_home :: "weather \<Rightarrow> ('a outside_scheme) \<Rightarrow> marker \<Rightarrow> string \<Rightarrow> marker \<Rightarrow> fsys \<Rightarrow> bool" where
  "at_home wx ot M pass m d \<longleftrightarrow>
     swapping ot M pass Home Home m d \<and> k_state m \<noteq> StReady \<and> (k_state m = StCleanup \<longrightarrow> wx = Faulty)"

interpretation parked: emptying "at_home wx ot M pass m" "midway wx ot M pass (k_safety m)" "rollback_dir M" "[recoveryDirName]"
    databaseName keyringName "k_old_db M" "k_old_key M" MaxDatabaseBytes keyringMaxBytes
  for wx and ot :: "'a outside_scheme" and M pass m
proof unfold_locales
  fix d x n
  assume J: "at_home wx ot M pass m d"
  then have sw: "swapping ot M pass Home Home m d" by (simp add: at_home_def)
  then have none: "map_of d (rollback_db M) = None" "map_of d (rollback_key M) = None" and lay: "layout M d"
    by (simp_all add: swapping_def member_at_def)
  show "map_of d (rollback_dir M) \<in> {None, Some Dir}" using lay unfolding layout_def by blast
  show "map_of d (rollback_dir M @ [n]) \<noteq> None \<Longrightarrow> n \<in> {databaseName, keyringName}" using lay by (simp add: layout_def)
  show "map_of d (rollback_dir M @ [databaseName]) = None \<or>
      is_file d (rollback_dir M @ [databaseName]) (k_old_db M) \<and> 1 \<le> fr_size (k_old_db M) \<and> fr_size (k_old_db M) \<le> MaxDatabaseBytes"
    using none by (simp add: rollback_db_def)
  show "map_of d (rollback_dir M @ [keyringName]) = None \<or>
      is_file d (rollback_dir M @ [keyringName]) (k_old_key M) \<and> 1 \<le> fr_size (k_old_key M) \<and> fr_size (k_old_key M) \<le> keyringMaxBytes"
    using none by (simp add: rollback_key_def)
  show "[recoveryDirName] = [] \<or> map_of d [recoveryDirName] = Some Dir" using lay by (simp add: layout_def)
  show "midway wx ot M pass (k_safety m) d" using J by (auto simp: at_home_def midway_def)
  assume x: "x \<in> {rollback_dir M @ [databaseName], rollback_dir M @ [keyringName]} \<or>
      x = rollback_dir M \<and> map_of d (rollback_dir M @ [databaseName]) = None \<and> map_of d (rollback_dir M @ [keyringName]) = None"
  have "swapping ot M pass Home Home m (del x d)"
  proof (rule swapping_directory [OF sw])
    show "map_of (del x d) (rollback_dir M) \<in> {None, Some Dir}" using lay unfolding layout_def map_of_del by (auto split: if_splits)
    show "distinct (map fst (del x d))" using lay by (simp add: layout_def)
    show "map_of (del x d) y = map_of d y" if "y \<in> - {rollback_dir M}" for y
      using x that none by (auto simp: rollback_db_def rollback_key_def)
  qed (use none in auto)
  then show "at_home wx ot M pass m (del x d)" using J by (simp add: at_home_def)
qed

lemma rollback_paths: "rollback_db M = rollback_dir M @ [databaseName]" "rollback_key M = rollback_dir M @ [keyringName]"
  by (simp_all add: rollback_db_def rollback_key_def)

lemma goes_remove_rollback:
  assumes "same_restore M n"
  shows "goes wx (midway wx ot M pass (k_safety m)) bad (at_home wx ot M pass m) (remove_rollback_owned n) (\<lambda>_. at_home wx ot M pass m)"
  unfolding remove_rollback_owned_def same_restoreD [OF assms] rollback_paths
  by (rule goes_conseq [OF parked.removed [OF parked.remove_rollback parked.remove_rollback]]) auto

lemma goes_restore_old:
  assumes sound: "sound_outside ot M pass version" and n: "same_restore M n" "validate_marker ot (o_schema ot) n = None"
    and st: "state_at_least (k_state n) StSafety"
  shows "goes wx (midway wx ot M pass (k_safety n)) False (midway wx ot M pass (k_safety n)) (restore_old ot n) (\<lambda>_. home ot M pass (k_safety n))"
proof (rule goes_pick)
  fix d
  let ?U = "midway wx ot M pass (k_safety n)"
  assume "?U d"
  then obtain pl pk m where m: "swapping ot M pass pl pk m d" "k_state m \<noteq> StReady" "k_safety m = k_safety n" "k_state m = StCleanup \<longrightarrow> wx = Faulty"
    by (auto simp: midway_def)
  note fit = sound_facts(1) [OF sound] and same = same_restoreD [OF n(1)]
  let ?m = "n\<lparr>k_state := StSafety, k_counts := no_inventory\<rparr>"
  have valid: "validate_marker ot (o_schema ot) ?m = None" by (rule valid_later [OF n(2) st]) (auto simp: state_order)
  have dir: "goes wx ?U False (swapping ot M pass pl pk m) (ensure_rollback_directory n) (\<lambda>_. moving wx ot M pass m pl pk)"
    using goes_rollback_directory [OF same(19) m(2,4), where pass = pass] m(3) by simp
  have db: "goes wx ?U False (moving wx ot M pass m pl pk)
      (restore_member live_db (prepared_db n) (rollback_db n) (k_old_db n) (k_new_db n) MaxDatabaseBytes) (\<lambda>_. moving wx ot M pass m Home pk)"
    using db.put_back [where m = m, unfolded m(3)] by (simp add: same)
  have key: "goes wx ?U False (moving wx ot M pass m Home pk)
      (restore_member live_key (prepared_key n) (rollback_key n) (k_old_key n) (k_new_key n) keyringMaxBytes) (\<lambda>_. moving wx ot M pass m Home Home)"
    using key.put_back [where m = m, unfolded m(3)] by (simp add: same)
  have check: "goes wx ?U False (moving wx ot M pass m Home Home)
      (andthen (validate_pair ot live_db live_key (k_old_db n) (k_old_key n)) (\<lambda>_. ret ())) (\<lambda>_. moving wx ot M pass m Home Home)"
  proof (rule goes_read)
    show "reads (andthen (validate_pair ot live_db live_key (k_old_db n) (k_old_key n)) (\<lambda>_. ret ()))"
      by (intro reads_andthen reads_validate_pair reads_ret)
    fix x
    assume mv: "moving wx ot M pass m Home Home x"
    show "?U x" using moving_midway [OF mv] m(3) by simp
    have "is_file x live_db (k_old_db M)" "is_file x live_key (k_old_key M)"
      using mv by (auto simp: moving_def swapping_def member_at_def)
    then have ok: "still (andthen (validate_pair ot live_db live_key (k_old_db n) (k_old_key n)) (\<lambda>_. ret ())) x = Done ()"
      using moving_room [OF mv] sound_facts(2,3) [OF sound] same
      by (auto simp: still_andthen [OF reads_validate_pair] still_validate_pair still_ret)
    show "moving wx ot M pass m Home Home x" by (rule mv)
    show False if "still (andthen (validate_pair ot live_db live_key (k_old_db n) (k_old_key n)) (\<lambda>_. ret ())) x = Failed e" for e
      using ok that by simp
  qed
  have "goes wx (midway wx ot M pass (k_safety m)) False
      (\<lambda>d. moving wx ot M pass m Home Home d \<and> (state_at_least (k_state ?m) StSuppressed \<longrightarrow> fence_on ot M d))
      (replace_marker ot ?m) (\<lambda>_. moving wx ot M pass ?m Home Home)"
    by (rule goes_replace [OF fit _ valid]) (use m(3) n(1) in \<open>simp_all add: state_order\<close>)
  then have mark: "goes wx ?U False (moving wx ot M pass m Home Home) (replace_marker ot ?m) (\<lambda>_. at_home wx ot M pass ?m)"
    unfolding m(3) by (rule goes_conseq) (auto simp: at_home_def moving_def state_order)
  have "goes wx (midway wx ot M pass (k_safety ?m)) False (at_home wx ot M pass ?m) (remove_rollback_owned ?m) (\<lambda>_. at_home wx ot M pass ?m)"
    by (rule goes_remove_rollback) (use n(1) in simp)
  then have "goes wx ?U False (at_home wx ot M pass ?m) (remove_rollback_owned ?m) (\<lambda>_. at_home wx ot M pass ?m)" by simp
  then have empty: "goes wx ?U False (at_home wx ot M pass ?m) (remove_rollback_owned ?m) (\<lambda>_. home ot M pass (k_safety n))"
    by (rule goes_conseq) (force simp: at_home_def home_def)+
  have "goes wx ?U False (swapping ot M pass pl pk m) (restore_old ot n) (\<lambda>_. home ot M pass (k_safety n))"
    unfolding restore_old_def Let_def in_turn.simps thence_ret
    by (rule goes_thence [OF dir goes_thence [OF db goes_thence [OF key goes_thence [OF check goes_thence [OF mark empty]]]]])
  then show "goes wx ?U False (\<lambda>x. x = d) (restore_old ot n) (\<lambda>_. home ot M pass (k_safety n))"
    by (rule goes_conseq) (use m in auto)
qed

end
