(* ===== verification/SwapFinish.thy ===== *)
theory SwapFinish
  imports SwapRollback
begin

text \<open>The end of a restore: the receipt, the removal of what the swap left behind, and of the marker.\<close>

definition recoverable :: "weather \<Rightarrow> ('a outside_scheme) \<Rightarrow> marker \<Rightarrow> string \<Rightarrow> fsys \<Rightarrow> bool" where
  "recoverable wx ot M pass d \<longleftrightarrow> pending wx ot M pass d \<or> restored ot M pass d"

lemma safeI:
  "under_way wx ot M pass d \<Longrightarrow> recoverable wx ot M pass d"
  "cleaning ot M pass m d \<Longrightarrow> recoverable wx ot M pass d"
  "restored ot M pass d \<Longrightarrow> recoverable wx ot M pass d"
  by (auto simp: recoverable_def pending_def)

lemma cleaning_facts:
  assumes "cleaning ot M pass m d"
  shows "same_restore M m" "named_apart M" "validate_marker ot (o_schema ot) m = None" "k_state m = StCleanup" "layout M d"
    "fence_on ot M d" "validated ot M (k_counts m)" "archived ot M pass (k_safety m) d"
    "is_file d live_db (k_new_db M)" "is_file d live_key (k_new_key M)" "marker_on m d"
proof -
  show m: "same_restore M m" "validate_marker ot (o_schema ot) m = None" "k_state m = StCleanup" "layout M d"
    "fence_on ot M d" "validated ot M (k_counts m)" "archived ot M pass (k_safety m) d"
    "is_file d live_db (k_new_db M)" "is_file d live_key (k_new_key M)" "marker_on m d"
    using assms by (simp_all add: cleaning_def)
  show "named_apart M"
    using names_of_valid(1,2) [OF m(2)] same_restoreD [OF m(1)] by (intro layout_named [OF m(4)]) simp_all
qed

lemma cleaning_room:
  assumes "cleaning ot M pass m d"
  shows "1 \<le> fr_size (k_old_db M) \<and> fr_size (k_old_db M) \<le> MaxDatabaseBytes" "1 \<le> fr_size (k_new_db M) \<and> fr_size (k_new_db M) \<le> MaxDatabaseBytes"
    and "1 \<le> fr_size (k_old_key M) \<and> fr_size (k_old_key M) \<le> keyringMaxBytes" "1 \<le> fr_size (k_new_key M) \<and> fr_size (k_new_key M) \<le> keyringMaxBytes"
  using names_of_valid(4,5,6) [OF cleaning_facts(3) [OF assms]] same_restoreD [OF cleaning_facts(1) [OF assms]] cleaning_facts(4) [OF assms]
  by (simp_all add: valid_file_record_def)

text \<open>A part of what is left goes.\<close>

definition leftovers :: "marker \<Rightarrow> path set" where
  "leftovers M = {rollback_db M, rollback_key M, prepared_db M, prepared_key M}"

lemma cleaning_del:
  assumes cl: "cleaning ot M pass m d"
    and x: "x \<in> leftovers M \<or> x = rollback_dir M \<and> map_of d (rollback_db M) = None \<and> map_of d (rollback_key M) = None \<or>
      x = [k_dir M] \<and> map_of d (prepared_db M) = None \<and> map_of d (prepared_key M) = None"
  shows "cleaning ot M pass m (del x d)" and "receipt_on ot m (del x d) = receipt_on ot m d"
proof -
  note f = cleaning_facts [OF cl]
  have ap: "x \<notin> {live_db, live_key, fence_path, [recoveryDirName], marker_path, receipt_path, safety_path M}"
    using apart_paths [OF f(2)] x by (auto simp: leftovers_def)
  have dirs: "x \<in> leftovers M \<Longrightarrow> x \<noteq> rollback_dir M \<and> x \<noteq> [k_dir M]" "rollback_dir M \<noteq> [k_dir M]"
    using apart_paths [OF f(2)] by (auto simp: leftovers_def)
  have same: "map_of (del x d) y = map_of d y" if "y \<in> - {x}" for y using that by simp
  have "layout M (del x d)"
  proof -
    have "map_of (del x d) (rollback_dir M) = Some Dir" if "map_of (del x d) (rollback_dir M @ [n]) \<noteq> None" for n
    proof -
      have n: "map_of d (rollback_dir M @ [n]) \<noteq> None" using that by (auto split: if_splits)
      then have "n \<in> {databaseName, keyringName}" "map_of d (rollback_dir M) = Some Dir" using f(5) by (simp_all add: layout_def)
      then show ?thesis using n x dirs by (auto simp: rollback_db_def rollback_key_def)
    qed
    moreover have "map_of d (rollback_dir M) \<in> {None, Some Dir}" using f(5) unfolding layout_def by blast
    then have "map_of (del x d) (rollback_dir M) \<in> {None, Some Dir}" by auto
    ultimately show ?thesis using f(5) ap unfolding layout_def by (auto split: if_splits)
  qed
  moreover have "fence_on ot M (del x d)" "archived ot M pass (k_safety m) (del x d)" "is_file (del x d) live_db (k_new_db M)"
    "is_file (del x d) live_key (k_new_key M)" "marker_on m (del x d)" "map_of (del x d) receipt_path = map_of d receipt_path"
    using f ap by (auto simp: fence_on_def archived_def marker_on_def)
  moreover show rc: "receipt_on ot m (del x d) = receipt_on ot m d" using ap by (auto simp: receipt_on_def)
  moreover have "map_of (del x d) y = None \<or> is_file (del x d) y r" if "map_of d y = None \<or> is_file d y r" for y r using that by auto
  moreover have "map_of (del x d) [k_dir M] \<in> {None, Some Dir} \<and>
      (map_of (del x d) [k_dir M] = None \<longrightarrow> map_of (del x d) (prepared_db M) = None \<and> map_of (del x d) (prepared_key M) = None)"
    using cl x dirs by (auto simp: cleaning_def)
  ultimately show "cleaning ot M pass m (del x d)" using cl rc unfolding cleaning_def by simp
qed

section \<open>The receipt\<close>

lemma receipt_valid:
  assumes "cleaning ot M pass m d"
  shows "receipt_ok ot (receipt_for m)"
proof -
  note f = cleaning_facts [OF assms]
  have "state_at_least (k_state m) StSafety" "state_at_least (k_state m) StValidated" unfolding f(4) by (simp_all add: state_order)
  then show ?thesis using f(3,4)
    by (simp add: receipt_ok_def receipt_for_def safety_name_def validate_marker_def guard_none valid_file_record_def)
qed

lemma still_read_receipt:
  "map_of d receipt_path = None \<Longrightarrow> still (read_applied_receipt ot) d = Failed NoReceipt"
  "receipt_on ot m d \<Longrightarrow> receipt_ok ot (receipt_for m) \<Longrightarrow> still (read_applied_receipt ot) d = Done (receipt_for m)"
  by (auto simp: read_applied_receipt_def still_andthen still_catching reads_not_exist reads_read_doc still_read_doc receipt_on_def
      still_ret still_raise)

lemma goes_receipt:
  assumes fit: "docs_fit ot"
  shows "goes wx (recoverable wx ot M pass) bad (cleaning ot M pass m) (ensure_applied_receipt ot m) (\<lambda>_ d. cleaning ot M pass m d \<and> receipt_on ot m d)"
  unfolding ensure_applied_receipt_def
proof (rule goes_andthen)
  let ?look = "catching (andthen (read_applied_receipt ot) (\<lambda>v. ret (Some v))) (\<lambda>e. if e = NoReceipt then ret None else raise e)"
  let ?Q = "\<lambda>v d. cleaning ot M pass m d \<and> (v = None \<and> map_of d receipt_path = None \<or> v = Some (receipt_for m) \<and> receipt_on ot m d)"
  show "goes wx (recoverable wx ot M pass) bad (cleaning ot M pass m) ?look ?Q"
  proof (rule goes_read)
    show "reads ?look" by (auto intro!: reading)
    fix d
    assume cl: "cleaning ot M pass m d"
    show "recoverable wx ot M pass d" by (rule safeI(2) [OF cl])
    have "map_of d receipt_path = None \<or> receipt_on ot m d" using cl by (simp add: cleaning_def)
    then have st: "\<exists>v. still ?look d = Done v \<and> ?Q v d"
    proof
      assume none: "map_of d receipt_path = None"
      show ?thesis using still_look(2) [OF reads_read_receipt(1) [of ot] still_read_receipt(1) [OF none, of ot]] none cl by blast
    next
      assume on: "receipt_on ot m d"
      show ?thesis using still_look(1) [OF reads_read_receipt(1) [of ot] still_read_receipt(2) [OF on receipt_valid [OF cl]]] on cl by blast
    qed
    show "?Q a d" if "still ?look d = Done a" for a using st that by simp
    show bad if "still ?look d = Failed e" for e using st that by simp
  qed
  have wrote: "one_effect wx (\<lambda>d. cleaning ot M pass m d \<and> map_of d receipt_path = None)
      (write_doc ot receipt_path (ReceiptDoc (receipt_for m)) True) (\<lambda>d. cleaning ot M pass m d \<and> receipt_on ot m d)"
  proof (rule effect_write_doc)
    show "1 \<le> fr_size (o_json ot (ReceiptDoc (receipt_for m))) \<and> fr_size (o_json ot (ReceiptDoc (receipt_for m))) \<le> markerMaxBytes"
      using fit by (simp add: docs_fit_def)
    fix d
    show "butlast receipt_path = [] \<or> map_of d (butlast receipt_path) = Some Dir" if "cleaning ot M pass m d \<and> receipt_on ot m d"
      using that by (simp add: receipt_path_def cleaning_def layout_def)
    assume d: "cleaning ot M pass m d \<and> map_of d receipt_path = None"
    then show "parent_there d receipt_path \<and> (True \<longrightarrow> map_of d receipt_path = None) \<and> map_of d receipt_path \<noteq> Some Dir"
      by (simp add: parent_there_def receipt_path_def cleaning_def layout_def)
    let ?d = "put receipt_path (File (o_json ot (ReceiptDoc (receipt_for m))) (Some (ReceiptDoc (receipt_for m)))) d"
    have cl: "cleaning ot M pass m d" using d by simp
    note f = cleaning_facts [OF cl]
    have ap: "receipt_path \<notin> {live_db, live_key, fence_path, [recoveryDirName], [k_dir M], marker_path, safety_path M, rollback_dir M,
        prepared_db M, prepared_key M, rollback_db M, rollback_key M}"
      using apart_paths [OF f(2)] by auto
    have on: "receipt_on ot m ?d" using fit by (simp add: receipt_on_def docs_fit_def)
    have "layout M ?d"
    proof (rule layout_files [OF f(2,5)])
      show "distinct (map fst ?d)" using f(5) by (simp add: layout_def)
      show "map_of ?d x = map_of d x" if "x \<notin> swap_files M" for x using that swap_files_paths(5) by auto
      show "map_of d (rollback_dir M) = Some Dir" if "x \<in> {rollback_db M, rollback_key M}" "map_of ?d x \<noteq> None" for x
      proof -
        have "map_of d x \<noteq> None" using that ap by auto
        then show ?thesis using that(1) f(5) by (auto simp: layout_def rollback_db_def rollback_key_def)
      qed
    qed
    moreover have "fence_on ot M ?d" "archived ot M pass (k_safety m) ?d" "is_file ?d live_db (k_new_db M)"
      "is_file ?d live_key (k_new_key M)" "marker_on m ?d"
      using f ap by (auto simp: put_parts)
    moreover have "map_of ?d x = map_of d x" "is_file ?d x r = is_file d x r"
      if "x \<in> {[k_dir M], prepared_db M, prepared_key M, rollback_db M, rollback_key M}" for x r using that ap by auto
    ultimately have "cleaning ot M pass m ?d" using cl on unfolding cleaning_def by simp
    with on show "cleaning ot M pass m ?d \<and> receipt_on ot m ?d" by simp
  qed
  have written: "goes wx (recoverable wx ot M pass) bad (\<lambda>d. cleaning ot M pass m d \<and> map_of d receipt_path = None)
      (write_doc ot receipt_path (ReceiptDoc (receipt_for m)) True) (\<lambda>_ d. cleaning ot M pass m d \<and> receipt_on ot m d)"
    by (rule goes_effect [OF wrote]) (auto intro: safeI)
  show "goes wx (recoverable wx ot M pass) bad (?Q v)
      (case v of Some got \<Rightarrow> require (got = receipt_for m) ''restore swap: an earlier applied audit receipt is still pending''
       | None \<Rightarrow> write_doc ot receipt_path (ReceiptDoc (receipt_for m)) True)
      (\<lambda>_ d. cleaning ot M pass m d \<and> receipt_on ot m d)" for v
  proof (cases v)
    case None
    then show ?thesis using goes_conseq [OF written] by simp
  next
    case (Some got)
    show ?thesis
      by (rule goes_fact [where b = "got = receipt_for m"]) (use Some in \<open>auto simp: require_def intro: goes_ret\<close>)
  qed
qed

section \<open>What is left behind\<close>

definition receipted :: "('a outside_scheme) \<Rightarrow> marker \<Rightarrow> string \<Rightarrow> marker \<Rightarrow> fsys \<Rightarrow> bool" where
  "receipted ot M pass m d \<longleftrightarrow> cleaning ot M pass m d \<and> receipt_on ot m d"

definition no_rollback :: "('a outside_scheme) \<Rightarrow> marker \<Rightarrow> string \<Rightarrow> marker \<Rightarrow> fsys \<Rightarrow> bool" where
  "no_rollback ot M pass m d \<longleftrightarrow> receipted ot M pass m d \<and> map_of d (rollback_dir M) = None"

lemma receipted_del:
  assumes "receipted ot M pass m d"
    and "x \<in> leftovers M \<or> x = rollback_dir M \<and> map_of d (rollback_db M) = None \<and> map_of d (rollback_key M) = None \<or>
      x = [k_dir M] \<and> map_of d (prepared_db M) = None \<and> map_of d (prepared_key M) = None"
  shows "receipted ot M pass m (del x d)"
proof -
  have "cleaning ot M pass m d" "receipt_on ot m d" using assms(1) by (simp_all add: receipted_def)
  with cleaning_del [OF this(1) assms(2)] show ?thesis by (simp add: receipted_def)
qed

interpretation old_files: emptying "receipted ot M pass m" "recoverable wx ot M pass" "rollback_dir M" "[recoveryDirName]"
    databaseName keyringName "k_old_db M" "k_old_key M" MaxDatabaseBytes keyringMaxBytes
  for wx and ot :: "'a outside_scheme" and M pass m
proof unfold_locales
  fix d x n
  assume J: "receipted ot M pass m d"
  then have cl: "cleaning ot M pass m d" by (simp add: receipted_def)
  note lay = cleaning_facts(5) [OF cl]
  show "map_of d (rollback_dir M) \<in> {None, Some Dir}" using lay unfolding layout_def by blast
  show "map_of d (rollback_dir M @ [n]) \<noteq> None \<Longrightarrow> n \<in> {databaseName, keyringName}" using lay by (simp add: layout_def)
  show "map_of d (rollback_dir M @ [databaseName]) = None \<or>
      is_file d (rollback_dir M @ [databaseName]) (k_old_db M) \<and> 1 \<le> fr_size (k_old_db M) \<and> fr_size (k_old_db M) \<le> MaxDatabaseBytes"
    using cl cleaning_room(1) [OF cl] unfolding rollback_paths [symmetric] by (simp add: cleaning_def)
  show "map_of d (rollback_dir M @ [keyringName]) = None \<or>
      is_file d (rollback_dir M @ [keyringName]) (k_old_key M) \<and> 1 \<le> fr_size (k_old_key M) \<and> fr_size (k_old_key M) \<le> keyringMaxBytes"
    using cl cleaning_room(3) [OF cl] unfolding rollback_paths [symmetric] by (simp add: cleaning_def)
  show "[recoveryDirName] = [] \<or> map_of d [recoveryDirName] = Some Dir" using lay by (simp add: layout_def)
  show "recoverable wx ot M pass d" by (rule safeI(2) [OF cl])
  show "receipted ot M pass m (del x d)"
    if "x \<in> {rollback_dir M @ [databaseName], rollback_dir M @ [keyringName]} \<or>
      x = rollback_dir M \<and> map_of d (rollback_dir M @ [databaseName]) = None \<and> map_of d (rollback_dir M @ [keyringName]) = None"
    by (rule receipted_del [OF J]) (use that in \<open>auto simp: leftovers_def rollback_paths\<close>)
qed

interpretation new_files: emptying "no_rollback ot M pass m" "recoverable wx ot M pass" "[k_dir M]" "[]"
    "k_db_name M" "k_key_name M" "k_new_db M" "k_new_key M" MaxDatabaseBytes keyringMaxBytes
  for wx and ot :: "'a outside_scheme" and M pass m
proof unfold_locales
  fix d x n
  assume J: "no_rollback ot M pass m d"
  then have re: "receipted ot M pass m d" and cl: "cleaning ot M pass m d" and none: "map_of d (rollback_dir M) = None"
    by (simp_all add: no_rollback_def receipted_def)
  show "map_of d [k_dir M] \<in> {None, Some Dir}" using cl by (auto simp: cleaning_def)
  show "map_of d ([k_dir M] @ [n]) \<noteq> None \<Longrightarrow> n \<in> {k_db_name M, k_key_name M}"
    using cleaning_facts(5) [OF cl] by (simp add: layout_def)
  show "map_of d ([k_dir M] @ [k_db_name M]) = None \<or>
      is_file d ([k_dir M] @ [k_db_name M]) (k_new_db M) \<and> 1 \<le> fr_size (k_new_db M) \<and> fr_size (k_new_db M) \<le> MaxDatabaseBytes"
    using cl cleaning_room(2) [OF cl] by (simp add: cleaning_def prepared_db_def)
  show "map_of d ([k_dir M] @ [k_key_name M]) = None \<or>
      is_file d ([k_dir M] @ [k_key_name M]) (k_new_key M) \<and> 1 \<le> fr_size (k_new_key M) \<and> fr_size (k_new_key M) \<le> keyringMaxBytes"
    using cl cleaning_room(4) [OF cl] by (simp add: cleaning_def prepared_key_def)
  show "[] = [] \<or> map_of d [] = Some Dir" by simp
  show "recoverable wx ot M pass d" by (rule safeI(2) [OF cl])
  assume x: "x \<in> {[k_dir M] @ [k_db_name M], [k_dir M] @ [k_key_name M]} \<or>
      x = [k_dir M] \<and> map_of d ([k_dir M] @ [k_db_name M]) = None \<and> map_of d ([k_dir M] @ [k_key_name M]) = None"
  have "receipted ot M pass m (del x d)"
    by (rule receipted_del [OF re]) (use x in \<open>auto simp: leftovers_def prepared_db_def prepared_key_def\<close>)
  then show "no_rollback ot M pass m (del x d)" using none by (simp add: no_rollback_def)
qed

lemma goes_clean_rollback:
  assumes "same_restore M n"
  shows "goes wx (recoverable wx ot M pass) bad (receipted ot M pass m) (remove_rollback_owned n) (\<lambda>_. no_rollback ot M pass m)"
  unfolding remove_rollback_owned_def same_restoreD [OF assms] rollback_paths
  by (rule goes_conseq [OF old_files.removed [OF old_files.remove_rollback old_files.remove_rollback]]) (auto simp: no_rollback_def)

lemma prepared_paths: "prepared_db M = [k_dir M] @ [k_db_name M]" "prepared_key M = [k_dir M] @ [k_key_name M]"
  by (simp_all add: prepared_db_def prepared_key_def)

lemma goes_clean_prepared:
  assumes "same_restore M n"
  shows "goes wx (recoverable wx ot M pass) bad (no_rollback ot M pass m) (remove_prepared_owned n True)
    (\<lambda>_ d. no_rollback ot M pass m d \<and> map_of d [k_dir M] = None)"
  unfolding remove_prepared_owned_def same_restoreD [OF assms] prepared_paths simp_thms
  by (rule new_files.removed) (rule new_files.remove_prepared, simp)+

lemma goes_remove_marker:
  "goes wx (recoverable wx ot M pass) bad (\<lambda>d. no_rollback ot M pass m d \<and> map_of d [k_dir M] = None) remove_marker (\<lambda>_. restored ot M pass)"
  unfolding remove_marker_def
proof (rule goes_andthen)
  let ?P = "\<lambda>d. no_rollback ot M pass m d \<and> map_of d [k_dir M] = None"
  show "goes wx (recoverable wx ot M pass) bad ?P (lstat marker_path) (\<lambda>n d. ?P d \<and> n = map_of d marker_path)"
    by (rule goes_read [OF reads_lstat(1)]) (auto simp: still_lstat intro: new_files.under)
  have gone: "restored ot M pass (del marker_path d)" if "?P d" for d
  proof -
    have cl: "cleaning ot M pass m d" and re: "receipt_on ot m d" using that by (simp_all add: no_rollback_def receipted_def)
    note f = cleaning_facts [OF cl]
    have ap: "marker_path \<notin> {live_db, live_key, fence_path, [recoveryDirName], [k_dir M], receipt_path, safety_path M, rollback_dir M}"
      using apart_paths [OF f(2)] by auto
    have "fence_on ot M (del marker_path d)" "archived ot M pass (k_safety m) (del marker_path d)" "receipt_on ot m (del marker_path d)"
      using f(6,8) re ap by (auto simp: fence_on_def archived_def receipt_on_def)
    moreover have "map_of d [recoveryDirName] = Some Dir" using f(5) by (simp add: layout_def)
    ultimately show ?thesis using that ap f(1,7,9,10) unfolding restored_def no_rollback_def by auto
  qed
  have rm: "goes wx (recoverable wx ot M pass) bad (\<lambda>d. ?P d \<and> (\<exists>r c. map_of d marker_path = Some (File r c)))
      (thence (remove_file marker_path) (sync_dir [recoveryDirName])) (\<lambda>_. restored ot M pass)"
  proof (rule goes_thence)
    show "goes wx (recoverable wx ot M pass) bad (\<lambda>d. ?P d \<and> (\<exists>r c. map_of d marker_path = Some (File r c))) (remove_file marker_path)
        (\<lambda>_. restored ot M pass)"
      by (rule goes_effect [OF effect_remove]) (use gone in \<open>auto intro: new_files.under safeI\<close>)
    show "goes wx (recoverable wx ot M pass) bad (restored ot M pass) (sync_dir [recoveryDirName]) (\<lambda>_. restored ot M pass)"
      by (rule goes_effect [OF effect_sync], simp add: restored_def) (erule safeI(3))+
  qed
  show "goes wx (recoverable wx ot M pass) bad (\<lambda>d. ?P d \<and> n = map_of d marker_path)
      (case n of None \<Rightarrow> ret () | Some (File r c) \<Rightarrow> thence (remove_file marker_path) (sync_dir [recoveryDirName])
       | Some nd \<Rightarrow> raise (Refused ''restore swap: pending marker is unsafe to remove'')) (\<lambda>_. restored ot M pass)" for n
  proof (rule goes_fact)
    show "\<exists>r c. n = Some (File r c)" if "?P d \<and> n = map_of d marker_path" for d
      using that by (auto simp: no_rollback_def receipted_def cleaning_def marker_on_def)
    assume "\<exists>r c. n = Some (File r c)"
    then obtain r c where n: "n = Some (File r c)" by blast
    show "goes wx (recoverable wx ot M pass) bad (\<lambda>d. ?P d \<and> n = map_of d marker_path)
      (case n of None \<Rightarrow> ret () | Some (File r c) \<Rightarrow> thence (remove_file marker_path) (sync_dir [recoveryDirName])
       | Some nd \<Rightarrow> raise (Refused ''restore swap: pending marker is unsafe to remove'')) (\<lambda>_. restored ot M pass)"
      unfolding n by simp (rule goes_conseq [OF rm], auto, metis)
  qed
qed

section \<open>The end of the run\<close>

lemma live_settled:
  assumes "swapping ot M pass pl pk m d" "is_file d live_db (k_new_db M)" "is_file d live_key (k_new_key M)"
  shows "settled M pl pk"
proof -
  have "db_at M pl d" "key_at M pk d" using assms(1) by (simp_all add: swapping_def)
  then show ?thesis using assms(2,3) unfolding settled_def by (cases pl; cases pk) (auto simp: member_at_def is_file_def)
qed

lemma goes_read_faulty:
  assumes "reads p" and "\<And>d. P d \<Longrightarrow> U d"
    and "\<And>a d. P d \<Longrightarrow> still p d = Done a \<Longrightarrow> Q a d"
    and "\<And>e d. wx \<noteq> Faulty \<Longrightarrow> P d \<Longrightarrow> still p d = Failed e \<Longrightarrow> bad"
  shows "goes wx U bad P p Q"
  unfolding goes_def using assms by (intro holds_read) blast+

text \<open>The marker says cleanup; where calls may fail, the old pair may be live nevertheless.\<close>

definition ending :: "weather \<Rightarrow> ('a outside_scheme) \<Rightarrow> marker \<Rightarrow> string \<Rightarrow> marker \<Rightarrow> fsys \<Rightarrow> bool" where
  "ending wx ot M pass m d \<longleftrightarrow>
     cleaning ot M pass m d \<or> wx = Faulty \<and> k_state m = StCleanup \<and> (\<exists>pl pk. swapping ot M pass pl pk m d)"

lemma ending_facts:
  assumes "ending wx ot M pass m d"
  shows "recoverable wx ot M pass d" "same_restore M m" "archived ot M pass (k_safety m) d"
proof -
  have *: "cleaning ot M pass m d \<or> (\<exists>pl pk. wx = Faulty \<and> k_state m = StCleanup \<and> swapping ot M pass pl pk m d)"
    using assms by (auto simp: ending_def)
  have "wx = Faulty \<Longrightarrow> swapping ot M pass pl pk m d \<Longrightarrow> under_way wx ot M pass d" for pl pk
    unfolding under_way_def by blast
  then show "recoverable wx ot M pass d" using * safeI(1,2) by blast
  show "same_restore M m" "archived ot M pass (k_safety m) d"
    using * by (auto simp: cleaning_def swapping_def)
qed

lemma goes_finish:
  assumes fit: "docs_fit ot"
  shows "goes wx (recoverable wx ot M pass) False (ending wx ot M pass m) (finish_cleanup ot m)
    (\<lambda>res d. restored ot M pass d \<and> r_restore res = k_id M \<and> validated ot M (r_counts res))"
    (is "goes _ ?U _ _ _ ?Q")
proof (rule goes_fact)
  show "same_restore M m \<and> 1 \<le> fr_size (k_safety m) \<and> fr_size (k_safety m) \<le> safetyMaxBytes" if "ending wx ot M pass m d" for d
    using ending_facts(2,3) [OF that] by (simp add: archived_def valid_file_record_def)
  assume m: "same_restore M m \<and> 1 \<le> fr_size (k_safety m) \<and> fr_size (k_safety m) \<le> safetyMaxBytes"
  note same = same_restoreD [OF conjunct1 [OF m]]
  let ?look = "in_turn [check, require_hash (safety_path m) (k_safety m) safetyMaxBytes]"
  have looked: "still ?look d = Done ()" if "ending wx ot M pass m d" for d
    using ending_facts(3) [OF that] m same
    by (simp add: still_thence reads_check still_check still_require_hash archived_def)
  have valid: "goes wx ?U False (ending wx ot M pass m) (validate_pair ot live_db live_key (k_new_db m) (k_new_key m))
      (\<lambda>c d. cleaning ot M pass m d \<and> c = k_counts m)"
  proof (rule goes_read_faulty [OF reads_validate_pair])
    fix d assume e: "ending wx ot M pass m d"
    show "?U d" by (rule ending_facts(1) [OF e])
    show "cleaning ot M pass m d \<and> c = k_counts m"
      if ok: "still (validate_pair ot live_db live_key (k_new_db m) (k_new_key m)) d = Done c" for c
    proof -
      have ok: "is_file d live_db (k_new_db M)" "is_file d live_key (k_new_key M)" "o_validate ot (k_new_db M) (k_new_key M) = Some c"
        using still_validate_pair_only [OF ok] same by simp_all
      have "cleaning ot M pass m d"
        using e settled_cleaning live_settled [OF _ ok(1,2)] unfolding ending_def by blast
      then show ?thesis using ok(3) by (simp add: cleaning_def validated_def)
    qed
  next
    fix e d
    assume "wx \<noteq> Faulty" "ending wx ot M pass m d" and no: "still (validate_pair ot live_db live_key (k_new_db m) (k_new_key m)) d = Failed e"
    then have cl: "cleaning ot M pass m d" by (simp add: ending_def)
    note f = cleaning_facts [OF cl]
    show False
      using no f(7) still_validate_pair [OF f(9,10), of ot] cleaning_room(2,4) [OF cl] same by (simp add: validated_def)
  qed
  have fence: "still (andthen (read_suppression ot) (\<lambda>v. require (fe_restore v = k_id m)
      ''restore swap: router-write suppression belongs to another restore'')) d = Done ()" if "cleaning ot M pass m d" for d
    using still_read_suppression(2) [OF cleaning_facts(6) [OF that]] same
    by (auto simp: still_andthen reads_read_suppression still_require)
  have last: "goes wx ?U False (restored ot M pass) check (\<lambda>_. restored ot M pass)"
    by (rule goes_effect [OF effect_check]) (erule safeI(3))+
  have rest: "goes wx ?U False (cleaning ot M pass m)
      (in_turn [andthen (read_suppression ot) (\<lambda>v. require (fe_restore v = k_id m)
           ''restore swap: router-write suppression belongs to another restore''),
         ensure_applied_receipt ot m, remove_rollback_owned m, remove_prepared_owned m True, remove_marker, check])
      (\<lambda>_. restored ot M pass)"
    unfolding in_turn.simps thence_ret
  proof (rule goes_pass [OF _ safeI(2) fence])
    show "reads (andthen (read_suppression ot) (\<lambda>v. require (fe_restore v = k_id m)
        ''restore swap: router-write suppression belongs to another restore''))"
      by (intro reads_andthen reads_read_suppression reads_require)
    have "goes wx ?U False (cleaning ot M pass m) (ensure_applied_receipt ot m) (\<lambda>_. receipted ot M pass m)"
      by (rule goes_conseq [OF goes_receipt [OF fit]]) (auto simp: receipted_def)
    then show "goes wx ?U False (cleaning ot M pass m) (thence (ensure_applied_receipt ot m) (thence (remove_rollback_owned m)
        (thence (remove_prepared_owned m True) (thence remove_marker check)))) (\<lambda>_. restored ot M pass)"
      by (rule goes_thence [OF _ goes_thence [OF goes_clean_rollback [OF conjunct1 [OF m]]
          goes_thence [OF goes_clean_prepared [OF conjunct1 [OF m]] goes_thence [OF goes_remove_marker last]]]])
  qed
  show "goes wx ?U False (ending wx ot M pass m) (finish_cleanup ot m) ?Q"
    unfolding finish_cleanup_def
  proof (rule goes_pass [OF _ ending_facts(1) looked goes_andthen [OF valid]])
    show "reads ?look" by (simp add: reads_thence reads_check reads_require_hash)
    show "goes wx ?U False (\<lambda>d. cleaning ot M pass m d \<and> counts = k_counts m)
        (thence (in_turn
              [require (counts = k_counts m) ''restore swap: final validation inventory changed'',
               andthen (read_suppression ot) (\<lambda>v. require (fe_restore v = k_id m)
                 ''restore swap: router-write suppression belongs to another restore''),
               ensure_applied_receipt ot m, remove_rollback_owned m, remove_prepared_owned m True, remove_marker, check])
            (ret \<lparr>r_restore = k_id m, r_safety = safety_name m, r_safety_sha = fr_sha (k_safety m), r_counts = counts\<rparr>)) ?Q" for counts
    proof (rule goes_fact)
      show "counts = k_counts m \<and> validated ot M counts" if "cleaning ot M pass m d \<and> counts = k_counts m" for d
        using that by (simp add: cleaning_def)
      assume c: "counts = k_counts m \<and> validated ot M counts"
      have drop: "in_turn (require (counts = k_counts m) why # ps) = in_turn ps" for why ps using c by simp
      show "goes wx ?U False (\<lambda>d. cleaning ot M pass m d \<and> counts = k_counts m)
        (thence (in_turn
              [require (counts = k_counts m) ''restore swap: final validation inventory changed'',
               andthen (read_suppression ot) (\<lambda>v. require (fe_restore v = k_id m)
                 ''restore swap: router-write suppression belongs to another restore''),
               ensure_applied_receipt ot m, remove_rollback_owned m, remove_prepared_owned m True, remove_marker, check])
            (ret \<lparr>r_restore = k_id m, r_safety = safety_name m, r_safety_sha = fr_sha (k_safety m), r_counts = counts\<rparr>)) ?Q"
        unfolding drop by (rule goes_thence [OF goes_conseq [OF rest] goes_ret]) (use c same(3) in auto)
    qed
  qed
qed

end
