(* ===== verification/SwapArchive.thy ===== *)
theory SwapArchive
  imports SwapFinish
begin

text \<open>The swap with its rollback as one program, and the safety archive that comes before it.\<close>

section \<open>The swap, or the old pair\<close>

lemma holds_fact: "(\<And>d. P d \<Longrightarrow> b) \<Longrightarrow> (b \<Longrightarrow> holds wx P p Q F C) \<Longrightarrow> holds wx P p Q F C"
  unfolding holds_def by blast

text \<open>How the swap may fail: the new pair is not valid and the old one is live, or calls failed.\<close>

definition fell_back :: "weather \<Rightarrow> ('a outside_scheme) \<Rightarrow> marker \<Rightarrow> string \<Rightarrow> fsys \<Rightarrow> bool" where
  "fell_back wx ot M pass d \<longleftrightarrow> wx \<noteq> Faulty \<longrightarrow> (\<nexists>c. validated ot M c) \<and> (\<exists>r. home ot M pass r d)"

lemma holds_swap_or_restore:
  assumes sound: "sound_outside ot M pass version" and st: "k_state n \<notin> {StReady, StCleanup}" and n: "same_restore M n"
    and valid: "validate_marker ot (o_schema ot) n = None" and least: "state_at_least (k_state n) StSafety"
  shows "holds wx (swapping ot M pass pl pk n) (swap_or_restore ot n) (cleaning ot M pass)
    (\<lambda>e d. under_way wx ot M pass d \<and> fell_back wx ot M pass d) (\<lambda>d. wx \<noteq> Calm \<and> under_way wx ot M pass d)"
  unfolding swap_or_restore_def
proof (rule holds_catching [OF holds_swap_steps [OF sound st n least]])
  fix cause
  let ?F = "\<lambda>e d. under_way wx ot M pass d \<and> fell_back wx ot M pass d" and ?C = "\<lambda>d. wx \<noteq> Calm \<and> under_way wx ot M pass d"
  show "holds wx (\<lambda>d. (wx \<noteq> Faulty \<longrightarrow> (\<nexists>c. validated ot M c)) \<and> midway wx ot M pass (k_safety n) d)
      (thence (catching (restore_old ot n) (\<lambda>e. raise (Joined cause e))) (raise cause)) (cleaning ot M pass) ?F ?C"
  proof (rule holds_fact)
    show "wx \<noteq> Faulty \<longrightarrow> (\<nexists>c. validated ot M c)" if "(wx \<noteq> Faulty \<longrightarrow> (\<nexists>c. validated ot M c)) \<and> midway wx ot M pass (k_safety n) d" for d
      using that by simp
    assume bad: "wx \<noteq> Faulty \<longrightarrow> (\<nexists>c. validated ot M c)"
    have rolled: "holds wx (\<lambda>d. (wx \<noteq> Faulty \<longrightarrow> (\<nexists>c. validated ot M c)) \<and> midway wx ot M pass (k_safety n) d)
        (restore_old ot n) (\<lambda>_. home ot M pass (k_safety n)) (\<lambda>e d. wx = Faulty \<and> under_way wx ot M pass d) ?C"
      by (rule holds_conseq [OF goes_restore_old [OF sound n valid least, unfolded goes_def]]) (auto intro: midway_under)
    have "holds wx (\<lambda>d. (wx \<noteq> Faulty \<longrightarrow> (\<nexists>c. validated ot M c)) \<and> midway wx ot M pass (k_safety n) d)
        (catching (restore_old ot n) (\<lambda>e. raise (Joined cause e))) (\<lambda>_. home ot M pass (k_safety n)) ?F ?C"
      by (rule holds_catching [OF rolled], rule holds_raise) (auto simp: fell_back_def)
    then show "holds wx (\<lambda>d. (wx \<noteq> Faulty \<longrightarrow> (\<nexists>c. validated ot M c)) \<and> midway wx ot M pass (k_safety n) d)
        (thence (catching (restore_old ot n) (\<lambda>e. raise (Joined cause e))) (raise cause)) (cleaning ot M pass) ?F ?C"
      by (rule holds_thence, intro holds_raise) (use bad midway_under [OF home_midway] in \<open>auto simp: fell_back_def\<close>)
  qed
qed

section \<open>The archive\<close>

definition readied :: "('a outside_scheme) \<Rightarrow> marker \<Rightarrow> string \<Rightarrow> marker \<Rightarrow> fsys \<Rightarrow> bool" where
  "readied ot M pass m d \<longleftrightarrow> swapping ot M pass Home Home m d \<and> k_state m = StReady"

lemma readied_under: "readied ot M pass m d \<Longrightarrow> under_way wx ot M pass d"
  unfolding readied_def under_way_def by fastforce

lemma readied_dir: "readied ot M pass m d \<Longrightarrow> map_of d [recoveryDirName] = Some Dir"
  by (simp add: readied_def swapping_def layout_def)

lemma readied_safety: "readied ot M pass m d \<Longrightarrow> map_of d (safety_path M) = None \<or> (\<exists>r. archived ot M pass r d)"
  by (simp add: readied_def swapping_def)

lemma readied_archived:
  assumes "readied ot M pass m d" and "archived ot M pass r (put (safety_path M) (File r None) d)"
  shows "readied ot M pass m (put (safety_path M) (File r None) d)"
proof -
  have sw: "swapping ot M pass Home Home m d" and st: "k_state m = StReady" using assms(1) by (simp_all add: readied_def)
  have ap: "safety_path M \<noteq> marker_path" "safety_path M \<noteq> fence_path"
    using outside_paths(3) [OF swapping_facts(2) [OF sw]] by auto
  let ?d = "put (safety_path M) (File r None) d"
  have "marker_on m ?d = marker_on m d" "fence_on ot M ?d = fence_on ot M d" "map_of ?d fence_path = map_of d fence_path"
    using ap by (auto simp: put_parts)
  then show ?thesis
    using sw st assms(2) swapping_small(1-5) [OF sw, of "safety_path M" r None] unfolding readied_def swapping_def by auto
qed

lemma goes_publish_archive:
  assumes r: "valid_file_record r 1 safetyMaxBytes" "o_extract ot r pass = Some (k_old_db M)"
  shows "goes wx (under_way wx ot M pass) bad (\<lambda>d. readied ot M pass m d \<and> map_of d (safety_path M) = None)
    (step (\<lambda>d. if map_of d (safety_path M) \<noteq> None then Inl Exists
       else if parent_there d (safety_path M) then Inr ((), put (safety_path M) (File r None) d) else Inl NotExist))
    (\<lambda>_ d. readied ot M pass m d \<and> archived ot M pass r d)"
proof (rule goes_effect [OF effect_step])
  fix d
  assume d: "readied ot M pass m d \<and> map_of d (safety_path M) = None"
  then have "parent_there d (safety_path M)" by (simp add: readied_def swapping_def layout_def parent_there_def safety_path_def)
  moreover have a: "archived ot M pass r (put (safety_path M) (File r None) d)" using r by (simp add: archived_def)
  ultimately show "\<exists>d'. (if map_of d (safety_path M) \<noteq> None then Inl Exists
       else if parent_there d (safety_path M) then Inr ((), put (safety_path M) (File r None) d) else Inl NotExist) = Inr ((), d') \<and>
      readied ot M pass m d' \<and> archived ot M pass r d'"
    using d readied_archived [OF _ a] by simp
qed (auto intro: readied_under)

lemma readied_unarchived:
  assumes "readied ot M pass m d"
  shows "readied ot M pass m (del (safety_path M) d)"
proof -
  have sw: "swapping ot M pass Home Home m d" and st: "k_state m = StReady" using assms by (simp_all add: readied_def)
  note f = swapping_facts [OF sw]
  have lay: "layout M d" using sw by (simp add: swapping_def)
  let ?d = "del (safety_path M) d"
  have ap: "safety_path M \<notin> {live_db, prepared_db M, rollback_db M, live_key, prepared_key M, rollback_key M, marker_path, fence_path,
      receipt_path, [k_dir M]}"
    using apart_paths [OF f(2)] by auto
  have same: "map_of ?d x = map_of d x" if "x \<in> - {safety_path M}" for x using that by simp
  have "layout M ?d"
  proof (rule layout_files [OF f(2) lay])
    show "distinct (map fst ?d)" using lay by (simp add: layout_def)
    show "map_of ?d x = map_of d x" if "x \<notin> swap_files M" for x using that swap_files_paths(6) [of M] by auto
    show "map_of d (rollback_dir M) = Some Dir" if "x \<in> {rollback_db M, rollback_key M}" "map_of ?d x \<noteq> None" for x
      using that lay by (auto simp: layout_def rollback_db_def rollback_key_def split: if_splits)
  qed
  moreover have "db_at M Home ?d = db_at M Home d" "key_at M Home ?d = key_at M Home d" "marker_on m ?d = marker_on m d"
    "fence_on ot M ?d = fence_on ot M d" "map_of ?d fence_path = map_of d fence_path" "map_of ?d receipt_path = map_of d receipt_path"
    "map_of ?d [k_dir M] = map_of d [k_dir M]"
    using ap by ((intro same_parts(1-3) [where X = "- {safety_path M}"] same; auto))+
  ultimately show ?thesis using sw st unfolding readied_def swapping_def by simp
qed

lemma goes_archive_synced:
  "goes wx (under_way wx ot M pass) False (\<lambda>d. readied ot M pass m d \<and> archived ot M pass r d)
     (catching (sync_dir [recoveryDirName]) (\<lambda>e. thence (catching (remove_file (safety_path M)) (\<lambda>_. ret ())) (raise e)))
     (\<lambda>_ d. readied ot M pass m d \<and> archived ot M pass r d)"
proof -
  let ?P = "\<lambda>d. readied ot M pass m d \<and> archived ot M pass r d" and ?C = "\<lambda>d. wx \<noteq> Calm \<and> under_way wx ot M pass d"
  let ?F = "\<lambda>e d. (wx \<noteq> Faulty \<longrightarrow> False) \<and> under_way wx ot M pass d"
  have sync: "holds wx ?P (sync_dir [recoveryDirName]) (\<lambda>_. ?P) (\<lambda>e d. wx = Faulty \<and> ?P d) ?C"
  proof -
    have "one_effect wx ?P (sync_dir [recoveryDirName]) ?P" by (rule effect_sync) (use readied_dir in blast)
    then show ?thesis unfolding one_effect_def by (rule holds_conseq) (auto intro: readied_under)
  qed
  have undo: "holds wx (\<lambda>d. wx = Faulty \<and> ?P d) (remove_file (safety_path M)) (\<lambda>_ d. wx = Faulty \<and> readied ot M pass m d)
      (\<lambda>e d. wx = Faulty \<and> readied ot M pass m d) ?C"
  proof -
    have "one_effect wx (\<lambda>d. wx = Faulty \<and> ?P d) (remove_file (safety_path M)) (\<lambda>d. wx = Faulty \<and> readied ot M pass m d)"
      by (rule effect_remove) (auto simp: archived_def is_file_def readied_unarchived)
    then show ?thesis unfolding one_effect_def by (rule holds_conseq) (auto intro: readied_under)
  qed
  have "holds wx (\<lambda>d. wx = Faulty \<and> ?P d) (thence (catching (remove_file (safety_path M)) (\<lambda>_. ret ())) (raise e)) (\<lambda>_. ?P) ?F ?C" for e
  proof (rule holds_thence)
    show "holds wx (\<lambda>d. wx = Faulty \<and> ?P d) (catching (remove_file (safety_path M)) (\<lambda>_. ret ()))
        (\<lambda>_ d. wx = Faulty \<and> readied ot M pass m d) ?F ?C"
      by (rule holds_catching [OF undo], rule holds_ret)
    show "holds wx (\<lambda>d. wx = Faulty \<and> readied ot M pass m d) (raise e) (\<lambda>_. ?P) ?F ?C"
      by (rule holds_raise) (auto intro: readied_under)
  qed
  then show ?thesis unfolding goes_def by (rule holds_catching [OF sync])
qed

lemma still_authenticate:
  assumes "archived ot M pass r d" and "safety_path n = safety_path M" "k_old_db n = k_old_db M" and "known = None \<or> known = Some r"
  shows "still (authenticate_safety ot n pass known) d = Done r"
proof -
  have "valid_file_record r 1 safetyMaxBytes" using assms(1) by (simp add: archived_def)
  then have h: "still (hash_file (safety_path M) 1 safetyMaxBytes) d = Done r"
    using assms(1) by (intro still_hash_file) (simp_all add: archived_def valid_file_record_def)
  show ?thesis unfolding authenticate_safety_def
    using assms h
    by (simp add: archived_def still_andthen still_thence reads_thence reads_hash reads_check reads_require reads_ret still_check still_require still_ret)
qed

lemma goes_create_archive:
  assumes sound: "sound_outside ot M pass version" and n: "same_restore M n"
  shows "goes wx (under_way wx ot M pass) False (\<lambda>d. readied ot M pass m d \<and> map_of d (safety_path M) = None)
    (create_archive ot n pass version schema now) (\<lambda>r d. readied ot M pass m d \<and> archived ot M pass r d)"
  unfolding create_archive_def same_restoreD [OF n]
proof (rule goes_see [OF reads_hash(1)])
  fix d
  assume d: "readied ot M pass m d \<and> map_of d (safety_path M) = None"
  then show "under_way wx ot M pass d" by (blast intro: readied_under)
  have sw: "swapping ot M pass Home Home m d" using d by (simp add: readied_def)
  then have "is_file d live_db (k_old_db M)" by (simp add: swapping_def member_at_def)
  moreover have "1 \<le> fr_size (k_old_db M) \<and> fr_size (k_old_db M) \<le> MaxDatabaseBytes"
    using names_of_valid(6) [OF swapping_facts(3) [OF sw] swapping_facts(4) [OF sw]] same_restoreD [OF swapping_facts(1) [OF sw]]
    by (simp add: valid_file_record_def)
  ultimately show "still (hash_file live_db 1 MaxDatabaseBytes) d = Done (k_old_db M)" by (intro still_hash_file) auto
next
  obtain r where r: "o_backup ot (k_old_db M) (k_old_key M) pass version schema now = Some r" "valid_file_record r 1 safetyMaxBytes"
    "o_extract ot r pass = Some (k_old_db M)" using sound unfolding sound_outside_def by blast
  let ?P = "\<lambda>d. readied ot M pass m d \<and> map_of d (safety_path M) = None"
  have first: "goes wx (under_way wx ot M pass) False ?P check (\<lambda>_. ?P)" by (rule goes_effect [OF effect_check]) (auto intro: readied_under)
  show "goes wx (under_way wx ot M pass) False ?P
      (case o_backup ot (k_old_db M) (k_old_key M) pass version schema now of None \<Rightarrow> raise (Refused ''portable backup'')
       | Some r \<Rightarrow>
           thence check (thence
             (step (\<lambda>d. if map_of d (safety_path M) \<noteq> None then Inl Exists
                else if parent_there d (safety_path M) then Inr ((), put (safety_path M) (File r None) d) else Inl NotExist))
             (thence (catching (sync_dir [recoveryDirName])
                        (\<lambda>e. thence (catching (remove_file (safety_path M)) (\<lambda>_. ret ())) (raise e)))
               (ret r))))
      (\<lambda>r d. readied ot M pass m d \<and> archived ot M pass r d)"
    unfolding r(1) option.case
    by (rule goes_thence [OF first goes_thence [OF goes_publish_archive [OF r(2,3)] goes_thence [OF goes_archive_synced goes_ret]]])
qed

lemma valid_safety:
  assumes "validate_marker ot sch m = None" and "k_state m = StReady" and "valid_file_record r 1 safetyMaxBytes" and "tx_utc ot now"
  shows "validate_marker ot sch (m\<lparr>k_safety := r, k_safety_at := now, k_state := StSafety\<rparr>) = None"
  using assms by (simp add: validate_marker_def guard_none valid_state_def state_order)

lemma goes_ensure_safety:
  assumes sound: "sound_outside ot M pass version"
  shows "goes wx (under_way wx ot M pass) False (readied ot M pass m) (ensure_safety ot m pass version schema)
    (\<lambda>a d. swapping ot M pass Home Home a d \<and> k_state a = StSafety)"
proof (rule goes_fact)
  show "same_restore M m \<and> validate_marker ot (o_schema ot) m = None \<and> k_state m = StReady" if "readied ot M pass m d" for d
    using that by (simp add: readied_def swapping_def)
  assume m: "same_restore M m \<and> validate_marker ot (o_schema ot) m = None \<and> k_state m = StReady"
  note same = same_restoreD [OF conjunct1 [OF m]]
  obtain now where now: "o_now ot = Some now" "tx_utc ot now" using sound_facts(5) [OF sound] by blast
  let ?U = "under_way wx ot M pass" and ?A = "\<lambda>r d. readied ot M pass m d \<and> archived ot M pass r d"
  have first: "goes wx ?U False P check (\<lambda>_. P)" if "\<And>d. P d \<Longrightarrow> readied ot M pass m d" for P
    by (rule goes_effect [OF effect_check]) (use that readied_under in blast)+
  have hash: "still (in_turn [check, require_hash live_db (k_old_db m) MaxDatabaseBytes]) d = Done ()" if "readied ot M pass m d" for d
  proof -
    have "is_file d live_db (k_old_db m)" using that same by (simp add: readied_def swapping_def member_at_def)
    moreover have "1 \<le> fr_size (k_old_db m) \<and> fr_size (k_old_db m) \<le> MaxDatabaseBytes"
      using names_of_valid(6) [of ot "o_schema ot" m] m by (simp add: valid_file_record_def)
    ultimately show ?thesis by (simp add: still_thence reads_check still_check still_require_hash)
  qed
  have create: "goes wx ?U False (\<lambda>d. readied ot M pass m d \<and> map_of d (safety_path M) = None)
      (thence check (andthen (create_archive ot m pass version schema now) (\<lambda>r.
         thence (in_turn [check, require_hash live_db (k_old_db m) MaxDatabaseBytes]) (ret r)))) ?A"
  proof (rule goes_thence [OF first], simp, rule goes_andthen [OF goes_create_archive [OF sound conjunct1 [OF m]]])
    show "goes wx ?U False (?A r) (thence (in_turn [check, require_hash live_db (k_old_db m) MaxDatabaseBytes]) (ret r)) ?A" for r
      by (rule goes_pass [OF _ _ hash]) (auto simp: reads_thence reads_check reads_require_hash intro: readied_under goes_ret)
  qed
  have look: "goes wx ?U False (\<lambda>d. \<exists>r. ?A r d) (authenticate_safety ot m pass None) ?A"
  proof (rule goes_read [OF reads_safety(1)])
    fix d
    assume "\<exists>r. ?A r d"
    then obtain r where r: "?A r d" by blast
    have st: "still (authenticate_safety ot m pass None) d = Done r" by (rule still_authenticate) (use r same in auto)
    show "?U d" using r by (blast intro: readied_under)
    show "?A q d" if "still (authenticate_safety ot m pass None) d = Done q" for q using st that r by simp
    show False if "still (authenticate_safety ot m pass None) d = Failed e" for e using st that by simp
  qed
  have mark: "goes wx ?U False (?A r) (let m' = m\<lparr>k_safety := r, k_safety_at := now\<rparr>; m'' = m'\<lparr>k_state := StSafety\<rparr>
       in thence (verify_safety ot m' pass) (thence (replace_marker ot m'') (ret m'')))
      (\<lambda>a d. swapping ot M pass Home Home a d \<and> k_state a = StSafety)" for r
  proof (rule goes_fact)
    show "valid_file_record r 1 safetyMaxBytes" if "?A r d" for d using that by (simp add: archived_def)
    assume r: "valid_file_record r 1 safetyMaxBytes"
    let ?n = "m\<lparr>k_safety := r, k_safety_at := now\<rparr>" and ?a = "m\<lparr>k_safety := r, k_safety_at := now, k_state := StSafety\<rparr>"
    have valid: "validate_marker ot (o_schema ot) ?a = None" using m by (intro valid_safety r now) auto
    have ver: "still (verify_safety ot ?n pass) d = Done ()" if "?A r d" for d
    proof -
      have "safety_path ?n = safety_path M" "k_old_db ?n = k_old_db M" using same by (simp_all add: safety_path_def safety_name_def)
      then have "still (authenticate_safety ot ?n pass (Some r)) d = Done r" using that by (intro still_authenticate) auto
      then show ?thesis by (simp add: verify_safety_def still_andthen [OF reads_safety(1)] still_ret)
    qed
    have eff: "one_effect wx (?A r) (replace_marker ot ?a) (swapping ot M pass Home Home ?a)"
    proof (rule effect_replace_marker [OF sound_facts(1) [OF sound] valid])
      fix d assume d: "?A r d"
      then have sw: "swapping ot M pass Home Home m d" by (simp add: readied_def)
      show "map_of d [recoveryDirName] = Some Dir \<and> map_of d marker_path \<noteq> Some Dir" by (rule swapping_marker_there [OF sw])
      show "swapping ot M pass Home Home ?a (put marker_path (File q (Some (MarkerDoc ?a))) d)"
        if "1 \<le> fr_size q" "fr_size q \<le> markerMaxBytes" for q :: file_record
        by (rule swapping_marked [OF sw that _ valid]) (use m d in \<open>auto simp: state_order\<close>)
    next
      fix d assume "swapping ot M pass Home Home ?a d"
      from swapping_marker_there [OF this] show "map_of d [recoveryDirName] = Some Dir" by simp
    qed
    have under: "?U d" if "swapping ot M pass Home Home ?a d" for d using that unfolding under_way_def by fastforce
    have "goes wx ?U False (?A r) (thence (replace_marker ot ?a) (ret ?a)) (\<lambda>a d. swapping ot M pass Home Home a d \<and> k_state a = StSafety)"
      by (rule goes_thence [OF goes_effect [OF eff] goes_ret]) (use under readied_under in auto)
    then show "goes wx ?U False (?A r) (let m' = m\<lparr>k_safety := r, k_safety_at := now\<rparr>; m'' = m'\<lparr>k_state := StSafety\<rparr>
         in thence (verify_safety ot m' pass) (thence (replace_marker ot m'') (ret m'')))
        (\<lambda>a d. swapping ot M pass Home Home a d \<and> k_state a = StSafety)"
      unfolding Let_def by (intro goes_pass [OF reads_safety(2) _ ver]) (auto intro: readied_under)
  qed
  show "goes wx ?U False (readied ot M pass m) (ensure_safety ot m pass version schema)
      (\<lambda>a d. swapping ot M pass Home Home a d \<and> k_state a = StSafety)"
    unfolding ensure_safety_def now(1) option.case
  proof (rule goes_thence [OF first], assumption, rule goes_andthen)
    show "goes wx ?U False (readied ot M pass m) (lstat (safety_path m))
        (\<lambda>n d. readied ot M pass m d \<and> (n = None \<and> map_of d (safety_path M) = None \<or> n \<noteq> None \<and> (\<exists>r. archived ot M pass r d)))"
      by (rule goes_read [OF reads_lstat(1)]) (auto simp: still_lstat same intro: readied_under dest: readied_safety)
    show "goes wx ?U False
        (\<lambda>d. readied ot M pass m d \<and> (n = None \<and> map_of d (safety_path M) = None \<or> n \<noteq> None \<and> (\<exists>r. archived ot M pass r d)))
        (andthen
          (if n = None then
             thence check (andthen (create_archive ot m pass version schema now) (\<lambda>r.
               thence (in_turn [check, require_hash live_db (k_old_db m) MaxDatabaseBytes]) (ret r)))
           else authenticate_safety ot m pass None)
          (\<lambda>r. let m' = m\<lparr>k_safety := r, k_safety_at := now\<rparr>; m'' = m'\<lparr>k_state := StSafety\<rparr>
               in thence (verify_safety ot m' pass) (thence (replace_marker ot m'') (ret m''))))
        (\<lambda>a d. swapping ot M pass Home Home a d \<and> k_state a = StSafety)" for n
      by (rule goes_andthen [OF _ mark], cases "n = None")
        (auto simp del: in_turn.simps intro!: goes_conseq [OF create] goes_conseq [OF look])
  qed
qed

end
