(* ===== verification/SwapRestore.thy ===== *)
theory SwapRestore
  imports SwapArchive
begin

text \<open>A start of the controller with a restore pending, as a whole.\<close>

section \<open>What the start sees\<close>

lemma still_read_marker:
  assumes "map_of d [recoveryDirName] = Some Dir" and "marker_on m d" and "validate_marker ot (o_schema ot) m = None"
  shows "still (read_marker ot) d = Done m"
proof -
  have "still (catching (read_doc marker_path) (\<lambda>e. raise (if e = NotExist then NoPending else e))) d = Done (Some (MarkerDoc m))"
    using assms(2) by (auto simp: still_catching reads_read_doc still_read_doc marker_on_def)
  moreover have "reads (catching (read_doc marker_path) (\<lambda>e. raise (if e = NotExist then NoPending else e)))"
    by (intro reads_not_exist reads_read_doc)
  ultimately show ?thesis using assms(1,3)
    by (simp add: read_marker_def validate_recovery_dir_def still_andthen still_thence reads_lstat still_lstat reads_real_dir still_real_dir
        reads_check still_check reads_thence is_ready_doc_def still_ret)
qed

lemma sort_names:
  assumes "distinct xs" "set xs = set ys" "distinct ys"
  shows "sort xs = sort (ys :: string list)"
  by (rule sorted_distinct_set_unique) (use assms in simp_all)

lemma distinct_entries:
  assumes "distinct (map fst d)"
  shows "distinct (dir_entries d p)"
proof -
  have "inj_on last (fst ` set (filter (\<lambda>e. fst e \<noteq> [] \<and> butlast (fst e) = p) d))"
    by (rule inj_onI) (auto, metis append_butlast_last_id)
  then have "distinct (map last (map fst (filter (\<lambda>e. fst e \<noteq> [] \<and> butlast (fst e) = p) d)))"
    using assms by (subst distinct_map) (auto simp: distinct_map_filter)
  then show ?thesis by (simp add: dir_entries_def)
qed

lemma still_verify_prepared:
  assumes sw: "swapping ot M pass Home Home m d"
  shows "still (verify_prepared m) d = Done ()"
proof -
  note f = swapping_facts [OF sw]
  note same = same_restoreD [OF f(1)]
  have room: "1 \<le> fr_size (k_new_db M) \<and> fr_size (k_new_db M) \<le> MaxDatabaseBytes" "1 \<le> fr_size (k_new_key M) \<and> fr_size (k_new_key M) \<le> keyringMaxBytes"
    using names_of_valid(4,5) [OF f(3)] same by (simp_all add: valid_file_record_def)
  have files: "is_file d (prepared_db M) (k_new_db M)" "is_file d (prepared_key M) (k_new_key M)"
    and lay: "layout M d" and dir: "map_of d [k_dir M] = Some Dir" using sw by (simp_all add: swapping_def member_at_def)
  have "set (dir_entries d [k_dir M]) = {k_db_name M, k_key_name M}"
  proof -
    have "\<forall>n. map_of d [k_dir M, n] \<noteq> None \<longrightarrow> n \<in> {k_db_name M, k_key_name M}" using lay unfolding layout_def by blast
    then show ?thesis using files by (auto simp: set_dir_entries is_file_def prepared_db_def prepared_key_def)
  qed
  then have "sort (dir_entries d [k_dir M]) = sort [k_db_name M, k_key_name M]"
    using f(2) lay by (intro sort_names distinct_entries) (auto simp: layout_def named_apart_def)
  then have one: "still (require_exact_directory [k_dir M] [k_db_name M, k_key_name M]) d = Done ()"
    using dir by (simp add: require_exact_directory_def still_thence still_andthen reads_real_dir still_real_dir reads_list_dir still_list_dir still_require)
  have member: "still (unchanged_member p r hi) d = Done ()" if "is_file d p r" "1 \<le> fr_size r \<and> fr_size r \<le> hi" for p r hi
    using that still_hash_file [of d p r 1 hi]
    by (simp add: unchanged_member_def still_andthen reads_not_exist reads_hash still_catching still_require)
  have "reads (unchanged_member p r hi)" for p r hi unfolding unchanged_member_def by (intro reads_andthen reads_not_exist reads_hash reads_require)
  then show ?thesis
    using one member [OF files(1) room(1)] member [OF files(2) room(2)] same
    by (simp add: verify_prepared_def still_thence reads_directories)
qed

lemma still_locate:
  assumes "member_at d pl live prepared rollback old new" and "1 \<le> fr_size old" "fr_size old \<le> hi" "1 \<le> fr_size new" "fr_size new \<le> hi"
  shows "still (locate_expected old live rollback hi) d = Done (if pl = Home then live else rollback)"
  using assms
  by (auto simp: locate_expected_def still_andthen reads_path_record member_at_def still_record still_ret split: place.splits)

section \<open>Applying a restore that is ready\<close>

lemma swapping_under: "swapping ot M pass pl pk m d \<Longrightarrow> k_state m \<noteq> StCleanup \<Longrightarrow> under_way wx ot M pass d"
  unfolding under_way_def by blast

lemma swapping_room:
  assumes "swapping ot M pass pl pk m d"
  shows "1 \<le> fr_size (k_old_db M) \<and> fr_size (k_old_db M) \<le> MaxDatabaseBytes \<and> 1 \<le> fr_size (k_new_db M) \<and> fr_size (k_new_db M) \<le> MaxDatabaseBytes"
    and "1 \<le> fr_size (k_old_key M) \<and> fr_size (k_old_key M) \<le> keyringMaxBytes \<and> 1 \<le> fr_size (k_new_key M) \<and> fr_size (k_new_key M) \<le> keyringMaxBytes"
  using names_of_valid(4-6) [OF swapping_facts(3) [OF assms]] swapping_facts(4) [OF assms] same_restoreD [OF swapping_facts(1) [OF assms]]
  by (simp_all add: valid_file_record_def)

text \<open>Where the old pair is found.\<close>

definition old_db_at :: "marker \<Rightarrow> place \<Rightarrow> path" where
  "old_db_at M pl = (if pl = Home then live_db else rollback_db M)"

definition old_key_at :: "marker \<Rightarrow> place \<Rightarrow> path" where
  "old_key_at M pk = (if pk = Home then live_key else rollback_key M)"

lemma old_found:
  assumes sw: "swapping ot M pass pl pk m d"
  shows "still (locate_expected (k_old_db m) live_db (rollback_db m) MaxDatabaseBytes) d = Done (old_db_at M pl)"
    and "still (locate_expected (k_old_key m) live_key (rollback_key m) keyringMaxBytes) d = Done (old_key_at M pk)"
    and "is_file d (old_db_at M pl) (k_old_db M)" and "is_file d (old_key_at M pk) (k_old_key M)"
    and "old_db_at M pl = live_db \<longleftrightarrow> pl = Home" and "old_key_at M pk = live_key \<longleftrightarrow> pk = Home"
proof -
  note f = swapping_facts [OF sw] and room = swapping_room [OF sw]
  have at: "db_at M pl d" "key_at M pk d" using sw by (simp_all add: swapping_def)
  show "still (locate_expected (k_old_db m) live_db (rollback_db m) MaxDatabaseBytes) d = Done (old_db_at M pl)"
    "still (locate_expected (k_old_key m) live_key (rollback_key m) keyringMaxBytes) d = Done (old_key_at M pk)"
    using still_locate [OF at(1), of MaxDatabaseBytes] still_locate [OF at(2), of keyringMaxBytes] room same_restoreD [OF f(1)]
    by (simp_all add: old_db_at_def old_key_at_def)
  show "is_file d (old_db_at M pl) (k_old_db M)" "is_file d (old_key_at M pk) (k_old_key M)"
    using at by (auto simp: old_db_at_def old_key_at_def member_at_def split: place.splits)
  show "old_db_at M pl = live_db \<longleftrightarrow> pl = Home" "old_key_at M pk = live_key \<longleftrightarrow> pk = Home"
    using apart_paths [OF f(2)] by (auto simp: old_db_at_def old_key_at_def)
qed

definition swap_ready :: "('a outside_scheme) \<Rightarrow> marker \<Rightarrow> string \<Rightarrow> marker \<Rightarrow> fsys \<Rightarrow> bool" where
  "swap_ready ot M pass a d \<longleftrightarrow> (\<exists>pl pk. swapping ot M pass pl pk a d) \<and> k_state a \<notin> {StReady, StCleanup}"

lemma swap_ready_under: "swap_ready ot M pass a d \<Longrightarrow> under_way wx ot M pass d"
  using swapping_under by (auto simp: swap_ready_def)

lemma goes_safety_branch:
  assumes sound: "sound_outside ot M pass version" and st: "k_state m \<noteq> StCleanup"
  shows "goes wx (under_way wx ot M pass) False (swapping ot M pass pl pk m)
    (if \<not> state_at_least (k_state m) StSafety
     then thence (require (old_db_at M pl = live_db \<and> old_key_at M pk = live_key) ''restore swap: swap started before a safety artifact was recorded'')
            (ensure_safety ot m pass version schema)
     else thence (verify_safety ot m pass) (ret m)) (swap_ready ot M pass)"
proof (rule goes_fact)
  show "same_restore M m \<and> validate_marker ot (o_schema ot) m = None \<and> k_state m \<noteq> StIntent \<and>
      (k_state m = StReady \<longrightarrow> pl = Home \<and> pk = Home) \<and> (old_db_at M pl = live_db \<longleftrightarrow> pl = Home) \<and> (old_key_at M pk = live_key \<longleftrightarrow> pk = Home)"
    if "swapping ot M pass pl pk m d" for d
    using that old_found(5,6) [OF that] by (simp add: swapping_def)
  assume m: "same_restore M m \<and> validate_marker ot (o_schema ot) m = None \<and> k_state m \<noteq> StIntent \<and>
      (k_state m = StReady \<longrightarrow> pl = Home \<and> pk = Home) \<and> (old_db_at M pl = live_db \<longleftrightarrow> pl = Home) \<and> (old_key_at M pk = live_key \<longleftrightarrow> pk = Home)"
  show "goes wx (under_way wx ot M pass) False (swapping ot M pass pl pk m)
    (if \<not> state_at_least (k_state m) StSafety
     then thence (require (old_db_at M pl = live_db \<and> old_key_at M pk = live_key) ''restore swap: swap started before a safety artifact was recorded'')
            (ensure_safety ot m pass version schema)
     else thence (verify_safety ot m pass) (ret m)) (swap_ready ot M pass)"
  proof (cases "k_state m = StReady")
    case True
    then have home: "pl = Home" "pk = Home" "\<not> state_at_least (k_state m) StSafety" using m by (auto simp: state_order)
    have "goes wx (under_way wx ot M pass) False (swapping ot M pass Home Home m) (ensure_safety ot m pass version schema) (swap_ready ot M pass)"
      by (rule goes_conseq [OF goes_ensure_safety [OF sound]]) (use True in \<open>auto simp: readied_def swap_ready_def\<close>)
    then show ?thesis using home m by simp
  next
    case False
    then have least: "state_at_least (k_state m) StSafety" using m by (intro valid_at_least [of ot "o_schema ot"]) auto
    have ver: "still (verify_safety ot m pass) d = Done ()" if "swapping ot M pass pl pk m d" for d
    proof -
      have "still (authenticate_safety ot m pass (Some (k_safety m))) d = Done (k_safety m)"
        using that False same_restoreD [of M m] m by (intro still_authenticate) (auto simp: swapping_def)
      then show ?thesis by (simp add: verify_safety_def still_andthen [OF reads_safety(1)] still_ret)
    qed
    have "goes wx (under_way wx ot M pass) False (swapping ot M pass pl pk m) (thence (verify_safety ot m pass) (ret m)) (swap_ready ot M pass)"
      by (rule goes_pass [OF reads_safety(2) _ ver goes_ret]) (use False st in \<open>auto simp: swap_ready_def intro: swapping_under\<close>)
    with least show ?thesis by simp
  qed
qed

text \<open>What a run that ends leaves: the new pair, or where it fails a state a later start takes up.\<close>

definition finished :: "('a outside_scheme) \<Rightarrow> marker \<Rightarrow> string \<Rightarrow> swap_result \<Rightarrow> fsys \<Rightarrow> bool" where
  "finished ot M pass res d \<longleftrightarrow> restored ot M pass d \<and> r_restore res = k_id M \<and> validated ot M (r_counts res)"

lemma goes_over:
  "goes wx (under_way wx ot M pass) False P p Q \<Longrightarrow>
     holds wx P p Q (\<lambda>e d. recoverable wx ot M pass d \<and> fell_back wx ot M pass d) (\<lambda>d. wx \<noteq> Calm \<and> recoverable wx ot M pass d)"
  "goes wx (recoverable wx ot M pass) False P p Q \<Longrightarrow>
     holds wx P p Q (\<lambda>e d. recoverable wx ot M pass d \<and> fell_back wx ot M pass d) (\<lambda>d. wx \<noteq> Calm \<and> recoverable wx ot M pass d)"
  unfolding goes_def by (erule holds_conseq; auto simp: fell_back_def intro: safeI)+

text \<open>A read before the rest of the run, of a known value or of any.\<close>

lemma holds_see_all:
  assumes "reads p" and "\<And>d. P d \<Longrightarrow> \<exists>a. still p d = Done a \<and> B a" and "\<And>d. P d \<Longrightarrow> recoverable wx ot M pass d"
    and "\<And>a. B a \<Longrightarrow> holds wx P (f a) Q (\<lambda>e d. recoverable wx ot M pass d \<and> fell_back wx ot M pass d) (\<lambda>d. wx \<noteq> Calm \<and> recoverable wx ot M pass d)"
  shows "holds wx P (andthen p f) Q (\<lambda>e d. recoverable wx ot M pass d \<and> fell_back wx ot M pass d) (\<lambda>d. wx \<noteq> Calm \<and> recoverable wx ot M pass d)"
proof (rule holds_andthen [OF goes_over(2)])
  show "goes wx (recoverable wx ot M pass) False P p (\<lambda>a d. P d \<and> B a)" by (rule goes_read [OF assms(1)]) (use assms(2,3) in fastforce)+
  show "holds wx (\<lambda>d. P d \<and> B a) (f a) Q (\<lambda>e d. recoverable wx ot M pass d \<and> fell_back wx ot M pass d) (\<lambda>d. wx \<noteq> Calm \<and> recoverable wx ot M pass d)" for a
    by (rule holds_fact [where b = "B a"]) (auto intro: holds_pre [OF assms(4)])
qed

lemma holds_see:
  assumes "reads p" and "\<And>d. P d \<Longrightarrow> still p d = Done v" and "\<And>d. P d \<Longrightarrow> recoverable wx ot M pass d"
    and "holds wx P (f v) Q (\<lambda>e d. recoverable wx ot M pass d \<and> fell_back wx ot M pass d) (\<lambda>d. wx \<noteq> Calm \<and> recoverable wx ot M pass d)"
  shows "holds wx P (andthen p f) Q (\<lambda>e d. recoverable wx ot M pass d \<and> fell_back wx ot M pass d) (\<lambda>d. wx \<noteq> Calm \<and> recoverable wx ot M pass d)"
  by (rule holds_see_all [where B = "\<lambda>a. a = v"]) (use assms in auto)

lemma holds_look:
  assumes "reads p" and "\<And>d. P d \<Longrightarrow> still p d = Done ()" and "\<And>d. P d \<Longrightarrow> recoverable wx ot M pass d"
    and "holds wx P q Q (\<lambda>e d. recoverable wx ot M pass d \<and> fell_back wx ot M pass d) (\<lambda>d. wx \<noteq> Calm \<and> recoverable wx ot M pass d)"
  shows "holds wx P (thence p q) Q (\<lambda>e d. recoverable wx ot M pass d \<and> fell_back wx ot M pass d) (\<lambda>d. wx \<noteq> Calm \<and> recoverable wx ot M pass d)"
  unfolding thence_def by (rule holds_see [where v = "()" and f = "\<lambda>_. q"]) (use assms in auto)

lemma holds_apply_ready:
  assumes sound: "sound_outside ot M pass version" and st: "k_state m \<noteq> StCleanup"
  shows "holds wx (swapping ot M pass pl pk m) (apply_ready ot m version) (finished ot M pass)
    (\<lambda>e d. recoverable wx ot M pass d \<and> fell_back wx ot M pass d) (\<lambda>d. wx \<noteq> Calm \<and> recoverable wx ot M pass d)"
proof (rule holds_fact)
  show "same_restore M m" if "swapping ot M pass pl pk m d" for d using swapping_facts(1) [OF that] .
  assume m: "same_restore M m"
  note same = same_restoreD [OF m]
  let ?U = "under_way wx ot M pass" and ?F = "\<lambda>e d. recoverable wx ot M pass d \<and> fell_back wx ot M pass d"
    and ?C = "\<lambda>d. wx \<noteq> Calm \<and> recoverable wx ot M pass d" and ?S = "swapping ot M pass pl pk m"
  let ?db = "old_db_at M pl" and ?key = "old_key_at M pk"
  obtain sealed where sealed: "tx_decode64 ot (k_sealed m) = Some sealed" "o_unseal ot (k_old_key m) sealed (intent_aad m) = Some pass"
    using sound same by (auto simp: sound_outside_def)
  have pass: "pass \<noteq> [] \<and> length pass \<le> passphraseMaxBytes" using sound by (simp add: sound_outside_def)
  have under: "?U d" if "?S d" for d by (rule swapping_under [OF that st])
  have recoverable: "recoverable wx ot M pass d" if "?S d" for d by (rule safeI(1) [OF under [OF that]])
  let ?looks = "in_turn
        [if ?db = live_db \<and> ?key = live_key then verify_prepared m else ret (), check, check,
         require (o_open ot (k_old_key m)) ''restore swap: open old controller keyring'', check,
         require_hash ?key (k_old_key m) keyringMaxBytes]"
  have looks: "reads ?looks" "?S d \<Longrightarrow> still ?looks d = Done ()" for d
  proof -
    have r: "reads (if ?db = live_db \<and> ?key = live_key then verify_prepared m else ret ())" by (simp add: reads_verify_prepared reads_ret)
    then show "reads ?looks" by (simp add: reads_thence reads_check reads_require reads_require_hash)
    assume S: "?S d"
    have "still (if ?db = live_db \<and> ?key = live_key then verify_prepared m else ret ()) d = Done ()"
      using S old_found(5,6) [OF S] still_verify_prepared [of ot M pass m d] by (auto simp: still_ret)
    then show "still ?looks d = Done ()"
      using r sound_facts(2) [OF sound] same swapping_room(2) [OF S] old_found(4) [OF S]
      by (simp add: still_thence reads_check still_check reads_require still_require still_require_hash)
  qed
  have valid: "\<exists>c. still (validate_pair ot ?db ?key (k_old_db m) (k_old_key m)) d = Done c" if "?S d" for d
    using still_validate_pair [OF old_found(3,4) [OF that], of ot] swapping_room [OF that] sound_facts(2,3) [OF sound] same by auto
  have swap: "holds wx (swap_ready ot M pass a) (swap_or_restore ot a) (cleaning ot M pass) ?F ?C" for a
  proof (rule holds_pick)
    fix d assume "swap_ready ot M pass a d"
    then obtain pl' pk' where sw: "swapping ot M pass pl' pk' a d" and a: "k_state a \<notin> {StReady, StCleanup}" by (auto simp: swap_ready_def)
    note f = swapping_facts [OF sw]
    have "state_at_least (k_state a) StSafety" by (rule valid_at_least [OF f(3)]) (use a f(4) in auto)
    from holds_swap_or_restore [OF sound a f(1,3) this]
    show "holds wx (\<lambda>x. x = d) (swap_or_restore ot a) (cleaning ot M pass) ?F ?C"
      by (rule holds_conseq) (use sw safeI(1) in auto)
  qed
  have end_it: "holds wx (cleaning ot M pass a) (andthen (finish_cleanup ot a) (\<lambda>res. thence check (ret res))) (finished ot M pass) ?F ?C" for a
  proof (rule holds_andthen [OF goes_over(2)])
    show "goes wx (recoverable wx ot M pass) False (cleaning ot M pass a) (finish_cleanup ot a) (finished ot M pass)"
      by (rule goes_conseq [OF goes_finish [OF sound_facts(1) [OF sound]]]) (auto simp: ending_def finished_def)
    have "goes wx (recoverable wx ot M pass) False (finished ot M pass res) check (\<lambda>_. finished ot M pass res)" for res
      by (rule goes_effect [OF effect_check]) (auto simp: finished_def intro: safeI(3))
    then show "holds wx (finished ot M pass res) (thence check (ret res)) (finished ot M pass) ?F ?C" for res
      by (intro goes_over(2) goes_thence [OF _ goes_ret])
  qed
  have check: "holds wx (swap_ready ot M pass a) check (\<lambda>_. swap_ready ot M pass a) ?F ?C" for a
    by (rule goes_over(1), rule goes_effect [OF effect_check]) (auto intro: swap_ready_under)
  let ?goon = "\<lambda>db key pass. thence (require (pass \<noteq> [] \<and> length pass \<le> passphraseMaxBytes)
                 ''restore swap: sealed export passphrase authentication failed'')
             (andthen (validate_pair ot db key (k_old_db m) (k_old_key m)) (\<lambda>counts.
              andthen
                (if \<not> state_at_least (k_state m) StSafety
                 then thence (require (db = live_db \<and> key = live_key) ''restore swap: swap started before a safety artifact was recorded'')
                        (ensure_safety ot m pass version (iv_schema counts))
                 else thence (verify_safety ot m pass) (ret m))
                (\<lambda>m1. thence check (andthen (swap_or_restore ot m1) (\<lambda>m2.
                   andthen (finish_cleanup ot m2) (\<lambda>res. thence check (ret res)))))))"
  have goon: "holds wx ?S (?goon ?db ?key pass) (finished ot M pass) ?F ?C"
  proof -
    have "thence (require (pass \<noteq> [] \<and> length pass \<le> passphraseMaxBytes) why) p = p" for why and p :: "swap_result io"
      using pass by simp
    then show ?thesis
      by (simp only:, intro holds_see_all [where B = "\<lambda>_. True", OF reads_validate_pair _ recoverable]; (assumption | use valid in \<open>simp; fail\<close>)?)
        (rule holds_andthen [OF goes_over(1) [OF goes_safety_branch [OF sound st]] holds_thence [OF check holds_andthen [OF swap end_it]]])
  qed
  have unsealed: "(case tx_decode64 ot (k_sealed m) of
          None \<Rightarrow> raise (Refused ''restore swap: decode sealed export passphrase failed'')
        | Some sealed \<Rightarrow>
          (case o_unseal ot (k_old_key m) sealed (intent_aad m) of
             None \<Rightarrow> raise (Refused ''restore swap: sealed export passphrase authentication failed'')
           | Some pass \<Rightarrow> ?goon db key pass)) = ?goon db key pass" for db key
    by (simp only: sealed option.case)
  have looked: "holds wx ?S (thence ?looks (?goon ?db ?key pass)) (finished ot M pass) ?F ?C"
    by (rule holds_look [OF looks(1) looks(2) recoverable goon])
  show "holds wx ?S (apply_ready ot m version) (finished ot M pass) ?F ?C"
    unfolding apply_ready_def unsealed
    by (rule holds_see [OF reads_locate(1) old_found(1) recoverable], assumption, assumption,
        rule holds_see [OF reads_locate(1) old_found(2) recoverable], assumption, assumption, rule looked)
qed

section \<open>A start\<close>

definition passphrase_ok :: "string \<Rightarrow> bool" where
  "passphrase_ok rt \<longleftrightarrow> rt \<noteq> [] \<and> length rt \<le> passphraseMaxBytes"

lemma holds_apply_pending:
  assumes sound: "sound_outside ot M pass version" and rt: "passphrase_ok rt"
  shows "holds wx (pending wx ot M pass) (apply_pending ot rt version) (finished ot M pass)
    (\<lambda>e d. recoverable wx ot M pass d \<and> fell_back wx ot M pass d) (\<lambda>d. wx \<noteq> Calm \<and> recoverable wx ot M pass d)"
proof (rule holds_pick)
  fix d
  assume pend: "pending wx ot M pass d"
  let ?F = "\<lambda>e d. recoverable wx ot M pass d \<and> fell_back wx ot M pass d" and ?C = "\<lambda>d. wx \<noteq> Calm \<and> recoverable wx ot M pass d"
  let ?looks = "in_turn [check, require (valid_bounded_text version 1 controllerMaxBytes) ''restore swap: controller version is invalid'',
         own_passphrase rt, check, check]"
  let ?goon = "\<lambda>m. if k_state m = StIntent then raise Unclean
          else if k_state m = StCleanup then finish_cleanup ot m else apply_ready ot m version"
  have recoverable: "recoverable wx ot M pass x" if "x = d" for x using pend that by (simp add: recoverable_def)
  have looks: "reads ?looks" "still ?looks x = Done ()" for x
    using sound rt by (simp_all add: reads_thence reads_check reads_require own_passphrase_def still_thence still_check still_require
        reads_ret still_ret sound_outside_def passphrase_ok_def)
  have run: "holds wx (\<lambda>x. x = d) (apply_pending ot rt version) (finished ot M pass) ?F ?C"
    if m: "map_of d [recoveryDirName] = Some Dir" "marker_on m d" "validate_marker ot (o_schema ot) m = None"
      and go: "holds wx (\<lambda>x. x = d) (?goon m) (finished ot M pass) ?F ?C" for m
    unfolding apply_pending_def
    by (rule holds_look [OF looks recoverable holds_see [OF reads_read_marker(1) _ recoverable]])
      (use still_read_marker [OF m] go in simp_all)
  have finish: "holds wx (ending wx ot M pass m) (finish_cleanup ot m) (finished ot M pass) ?F ?C" for m
    unfolding finished_def by (rule goes_over(2) [OF goes_finish [OF sound_facts(1) [OF sound]]])
  from pend consider (swap) pl pk m where "swapping ot M pass pl pk m d" "k_state m = StCleanup \<and> wx \<noteq> Faulty \<longrightarrow> settled M pl pk"
    | (clean) m where "cleaning ot M pass m d" unfolding pending_def under_way_def by blast
  then show "holds wx (\<lambda>x. x = d) (apply_pending ot rt version) (finished ot M pass) ?F ?C"
  proof cases
    case swap
    note f = swapping_facts [OF swap(1)]
    show ?thesis
    proof (rule run [OF _ _ f(3)])
      show "map_of d [recoveryDirName] = Some Dir" "marker_on m d" using swap(1) by (simp_all add: swapping_def layout_def)
      show "holds wx (\<lambda>x. x = d) (?goon m) (finished ot M pass) ?F ?C"
      proof (cases "k_state m = StCleanup")
        case True
        have "ending wx ot M pass m d" using swap True settled_cleaning unfolding ending_def by blast
        then have "holds wx (\<lambda>x. x = d) (finish_cleanup ot m) (finished ot M pass) ?F ?C" by (intro holds_pre [OF finish]) simp
        then show ?thesis using True by simp
      next
        case False
        have "holds wx (\<lambda>x. x = d) (apply_ready ot m version) (finished ot M pass) ?F ?C"
          by (rule holds_pre [OF holds_apply_ready [OF sound False]]) (use swap(1) in simp)
        then show ?thesis using f(4) False by simp
      qed
    qed
  next
    case clean
    note f = cleaning_facts [OF clean]
    show ?thesis
    proof (rule run [OF _ f(11) f(3)])
      show "map_of d [recoveryDirName] = Some Dir" using f(5) by (simp add: layout_def)
      have "ending wx ot M pass m d" using clean by (simp add: ending_def)
      then have "holds wx (\<lambda>x. x = d) (finish_cleanup ot m) (finished ot M pass) ?F ?C" by (intro holds_pre [OF finish]) simp
      then show "holds wx (\<lambda>x. x = d) (?goon m) (finished ot M pass) ?F ?C" using f(4) by simp
    qed
  qed
qed

text \<open>After the restore there is nothing to do.\<close>

lemma holds_apply_restored:
  assumes "sound_outside ot M pass version" and "passphrase_ok rt"
  shows "holds wx (restored ot M pass) (apply_pending ot rt version) (\<lambda>_ _. False) (\<lambda>_. restored ot M pass) (\<lambda>d. wx \<noteq> Calm \<and> restored ot M pass d)"
proof -
  let ?looks = "in_turn [check, require (valid_bounded_text version 1 controllerMaxBytes) ''restore swap: controller version is invalid'',
         own_passphrase rt, check, check]"
  have looks: "reads ?looks"
    by (simp add: reads_thence reads_check reads_require own_passphrase_def reads_ret)
  have look: "still (read_marker ot) d = Failed NoPending" if "restored ot M pass d" for d
  proof -
    have "reads (catching (read_doc marker_path) (\<lambda>e. raise (if e = NotExist then NoPending else e)))"
      by (intro reads_not_exist reads_read_doc)
    then show ?thesis using that
      by (simp add: restored_def read_marker_def validate_recovery_dir_def still_andthen still_thence reads_lstat still_lstat reads_real_dir
          still_real_dir reads_check still_check reads_thence still_catching reads_read_doc still_read_doc still_raise)
  qed
  show ?thesis unfolding apply_pending_def
  proof (rule holds_thence)
    show "holds wx (restored ot M pass) ?looks (\<lambda>_. restored ot M pass) (\<lambda>_. restored ot M pass) (\<lambda>d. wx \<noteq> Calm \<and> restored ot M pass d)"
      by (rule holds_read [OF looks]) auto
    show "holds wx (restored ot M pass) (andthen (read_marker ot) (\<lambda>m. if k_state m = StIntent then raise Unclean
          else if k_state m = StCleanup then finish_cleanup ot m else apply_ready ot m version))
        (\<lambda>_ _. False) (\<lambda>_. restored ot M pass) (\<lambda>d. wx \<noteq> Calm \<and> restored ot M pass d)"
    proof (rule holds_andthen)
      show "holds wx (restored ot M pass) (read_marker ot) (\<lambda>_ _. False) (\<lambda>_. restored ot M pass) (\<lambda>d. wx \<noteq> Calm \<and> restored ot M pass d)"
        by (rule holds_read [OF reads_read_marker(1)]) (auto simp: look)
    qed (simp add: holds_def)
  qed
qed

text \<open>The disk after a number of starts, each with its own faults.\<close>

fun after_starts :: "('a outside_scheme) \<Rightarrow> string \<Rightarrow> string \<Rightarrow> fault list list \<Rightarrow> fsys \<Rightarrow> fsys" where
  "after_starts ot rt version [] d = d"
| "after_starts ot rt version (fs # fss) d =
     after_starts ot rt version fss (disk (snd (apply_pending ot rt version \<lparr>disk = d, faults = fs\<rparr>)))"

lemma start_safe:
  assumes "sound_outside ot M pass version" "passphrase_ok rt" and "allowed wx fs" and "recoverable wx ot M pass d"
  shows "recoverable wx ot M pass (disk (snd (apply_pending ot rt version \<lparr>disk = d, faults = fs\<rparr>)))"
proof -
  obtain r w' where run: "apply_pending ot rt version \<lparr>disk = d, faults = fs\<rparr> = (r, w')" by fastforce
  from assms(4) consider "pending wx ot M pass d" | "restored ot M pass d" unfolding recoverable_def by blast
  then show ?thesis
  proof cases
    case 1
    with holdsD [OF holds_apply_pending [OF assms(1,2), of wx] _ _ run] assms(3) show ?thesis
      using run by (auto simp: finished_def recoverable_def split: outcome_of.splits)
  next
    case 2
    with holdsD [OF holds_apply_restored [OF assms(1,2), of wx] _ _ run] assms(3) show ?thesis
      using run by (auto simp: recoverable_def split: outcome_of.splits)
  qed
qed

lemma starts_safe:
  assumes "sound_outside ot M pass version" "passphrase_ok rt" "list_all (allowed wx) fss" "recoverable wx ot M pass d"
  shows "recoverable wx ot M pass (after_starts ot rt version fss d)"
  using assms(3,4) by (induction fss arbitrary: d) (auto intro: start_safe [OF assms(1,2)])

lemma pending_calm: "pending Killed ot M pass d = pending Calm ot M pass d"
  by (simp add: pending_def under_way_def)

lemma calm_start:
  assumes "sound_outside ot M pass version" "passphrase_ok rt" "recoverable Killed ot M pass d"
  shows "if \<exists>c. validated ot M c then restored ot M pass (after_starts ot rt version [[]] d)
    else \<exists>r. home ot M pass r (after_starts ot rt version [[]] d)"
proof -
  obtain r w' where run: "apply_pending ot rt version \<lparr>disk = d, faults = []\<rparr> = (r, w')" by fastforce
  have disk: "after_starts ot rt version [[]] d = disk w'" using run by simp
  from assms(3) consider "pending Calm ot M pass d" | "restored ot M pass d" unfolding recoverable_def pending_calm by blast
  then show ?thesis
  proof cases
    case 1
    with holdsD [OF holds_apply_pending [OF assms(1,2), of Calm] _ _ run] show ?thesis
      unfolding disk by (auto simp: finished_def fell_back_def split: outcome_of.splits)
  next
    case 2
    then have "\<exists>c. validated ot M c" by (auto simp: restored_def)
    with 2 holdsD [OF holds_apply_restored [OF assms(1,2), of Calm] _ _ run] show ?thesis
      unfolding disk by (auto split: outcome_of.splits)
  qed
qed

end
