(* ===== verification/SwapClaims.thy ===== *)
theory SwapClaims
  imports SwapRestore
begin

text \<open>
  What a restore guarantees across starts that fail or are killed, with a small controller to show
  it on. The disk is that of \<open>SwapFs\<close>: temporary files are no part of it.
\<close>

section \<open>A small controller\<close>

text \<open>
  The packages the restore calls, in miniature: an archive is the database and a thousand bytes, a
  sealed text has forty-one bytes before it, and a pair is valid when its members fit in size.
\<close>

definition tiny_ot :: "outside" where
  "tiny_ot =
     \<lparr>tx_encode64 = (\<lambda>s. s), tx_decode64 = Some, tx_utc = (\<lambda>_. True), o_json = (\<lambda>_. \<lparr>fr_size = 100, fr_sha = []\<rparr>),
      o_schema = 25, o_now = Some ''now'', o_fresh_id = replicate 32 CHR ''a'', o_open = (\<lambda>_. True),
      o_seal = (\<lambda>p aad. Some (replicate 41 CHR ''x'' @ p)), o_unseal = (\<lambda>key s aad. Some (drop 41 s)),
      o_validate = (\<lambda>db key. if fr_size db = fr_size key + 10 then
         Some \<lparr>iv_schema = 25, iv_devices = 1, iv_credentials = 1, iv_sections = 1, iv_wlans = 1, iv_meshes = 0\<rparr> else None),
      o_backup = (\<lambda>db key p v s t. Some \<lparr>fr_size = fr_size db + 1000, fr_sha = fr_sha db\<rparr>),
      o_extract = (\<lambda>r p. Some \<lparr>fr_size = fr_size r - 1000, fr_sha = fr_sha r\<rparr>)\<rparr>"

definition tiny_record :: "nat \<Rightarrow> char \<Rightarrow> file_record" where
  "tiny_record n c = \<lparr>fr_size = n, fr_sha = replicate 64 c\<rparr>"

definition tiny_marker :: marker where
  "tiny_marker =
     \<lparr>k_format = markerFormat, k_version = markerVersion, k_id = replicate 32 CHR ''a'', k_state = StReady, k_owner = ''me'',
      k_created = ''then'', k_dir = ''in'', k_db_name = ''d'', k_key_name = ''k'', k_new_db = tiny_record 30 CHR ''c'',
      k_new_key = tiny_record 20 CHR ''d'', k_admin = 1, k_user = ''u'', k_preview = ''p'', k_plan = ''q'',
      k_sealed = replicate 41 CHR ''x'' @ ''export'', k_old_db = tiny_record 20 CHR ''a'', k_old_key = tiny_record 10 CHR ''b'',
      k_safety = no_file, k_safety_at = [], k_counts = no_inventory\<rparr>"

definition tiny_disk :: fsys where
  "tiny_disk =
     [(live_db, File (tiny_record 20 CHR ''a'') None), (live_key, File (tiny_record 10 CHR ''b'') None), ([recoveryDirName], Dir),
      (marker_path, File (o_json tiny_ot (MarkerDoc tiny_marker)) (Some (MarkerDoc tiny_marker))), ([''in''], Dir),
      ([''in'', ''d''], File (tiny_record 30 CHR ''c'') None), ([''in'', ''k''], File (tiny_record 20 CHR ''d'') None)]"

lemma tiny_valid: "validate_marker tiny_ot (o_schema tiny_ot) tiny_marker = None"
  by code_simp

lemma tiny_sound: "sound_outside tiny_ot tiny_marker ''export'' ''v1''"
proof -
  have "valid_bounded_text ''v1'' 1 controllerMaxBytes" "lower_hex 64 (replicate 64 CHR ''a'')" by code_simp+
  then show ?thesis using tiny_valid
    by (auto simp: sound_outside_def tiny_ot_def tiny_marker_def tiny_record_def passphraseMaxBytes_def valid_counts_def valid_file_record_def
        safetyMaxBytes_def MaxDatabaseBytes_def markerMaxBytes_def)
qed

lemma tiny_files:
  "map_of tiny_disk live_db = Some (File (k_old_db tiny_marker) None)" "map_of tiny_disk live_key = Some (File (k_old_key tiny_marker) None)"
  "map_of tiny_disk (prepared_db tiny_marker) = Some (File (k_new_db tiny_marker) None)"
  "map_of tiny_disk (prepared_key tiny_marker) = Some (File (k_new_key tiny_marker) None)"
  "map_of tiny_disk (rollback_db tiny_marker) = None" "map_of tiny_disk (rollback_key tiny_marker) = None"
  "map_of tiny_disk marker_path = Some (File \<lparr>fr_size = 100, fr_sha = []\<rparr> (Some (MarkerDoc tiny_marker)))"
  "map_of tiny_disk fence_path = None" "map_of tiny_disk receipt_path = None" "map_of tiny_disk (safety_path tiny_marker) = None"
  "map_of tiny_disk [recoveryDirName] = Some Dir" "map_of tiny_disk (rollback_dir tiny_marker) = None" "map_of tiny_disk [k_dir tiny_marker] = Some Dir"
  by (simp_all add: tiny_disk_def tiny_marker_def tiny_ot_def tiny_record_def path_defs databaseName_def keyringName_def recoveryDirName_def
      markerName_def suppressionName_def appliedReceiptName_def safety_name_def rollback_name_def)

lemma tiny_layout: "layout tiny_marker tiny_disk"
proof -
  have keys: "map fst tiny_disk = [[''oonfeewrt.db''], [''keyring.json''], [''.oonfeewrt-recovery''],
      [''.oonfeewrt-recovery'', ''pending-restore.json''], [''in''], [''in'', ''d''], [''in'', ''k'']]" by code_simp
  have dom: "map_of tiny_disk x \<noteq> None \<longleftrightarrow> x \<in> set (map fst tiny_disk)" for x by (simp add: map_of_eq_None_iff)
  have "rollback_dir tiny_marker = [''.oonfeewrt-recovery'', ''rollback-aaaaaaaaaaaaaaaaaaaaaaaaaaaaaaaa'']"
    "k_dir tiny_marker = ''in''" "k_db_name tiny_marker = ''d''" "k_key_name tiny_marker = ''k''"
    "''in'' \<notin> {databaseName, keyringName, suppressionName}" by code_simp+
  then show ?thesis
    unfolding layout_def dom keys using tiny_files(11,12) by (auto simp: keys)
qed

lemma tiny_pending: "pending wx tiny_ot tiny_marker ''export'' tiny_disk"
proof -
  have st: "k_state tiny_marker = StReady" "k_old_db tiny_marker \<noteq> k_new_db tiny_marker" "k_old_key tiny_marker \<noteq> k_new_key tiny_marker"
    by code_simp+
  have "swapping tiny_ot tiny_marker ''export'' Home Home tiny_marker tiny_disk"
    unfolding swapping_def member_at_def is_file_def marker_on_def using tiny_valid tiny_layout
    by (simp add: tiny_files st state_order markerMaxBytes_def)
  from swapping_under [OF this] show ?thesis using st(1) by (simp add: pending_def)
qed

section \<open>No pair is lost\<close>

text \<open>The old pair is in the data directory, or the new one is live, valid and fenced, and the old database archived.\<close>

definition one_pair :: "('a outside_scheme) \<Rightarrow> marker \<Rightarrow> string \<Rightarrow> fsys \<Rightarrow> bool" where
  "one_pair ot M pass d \<longleftrightarrow>
     (is_file d live_db (k_old_db M) \<or> is_file d (rollback_db M) (k_old_db M)) \<and>
     (is_file d live_key (k_old_key M) \<or> is_file d (rollback_key M) (k_old_key M)) \<or>
     is_file d live_db (k_new_db M) \<and> is_file d live_key (k_new_key M) \<and> fence_on ot M d \<and>
     (\<exists>counts. validated ot M counts) \<and> (\<exists>r. archived ot M pass r d)"

lemma safe_pair:
  assumes "recoverable wx ot M pass d"
  shows "one_pair ot M pass d"
proof -
  from assms consider (swap) pl pk m where "swapping ot M pass pl pk m d" | (clean) m where "cleaning ot M pass m d" | (over) "restored ot M pass d"
    unfolding recoverable_def pending_def under_way_def by blast
  then show ?thesis
  proof cases
    case swap
    from old_found(3,4) [OF swap] show ?thesis by (auto simp: one_pair_def old_db_at_def old_key_at_def split: if_splits)
  next
    case clean
    note f = cleaning_facts [OF clean]
    show ?thesis using f(6-10) unfolding one_pair_def by blast
  next
    case over
    then show ?thesis unfolding restored_def one_pair_def by blast
  qed
qed

lemma after_starts_append: "after_starts ot rt version (fss @ gss) d = after_starts ot rt version gss (after_starts ot rt version fss d)"
  by (induction fss arbitrary: d) simp_all

text \<open>
  C9. Take a controller with a restore under way, in any state from the promoted intent on, and any
  number of starts, in each of which any system calls fail and the process may be killed at any of
  them. Of the rest of the controller it takes what \<open>sound_outside\<close> lists: the old keyring opens under
  the runtime passphrase and unseals the passphrase of the export, the old pair validates, an archive
  of it can be made and holds it when it is read back, a new pair that validates has the schema of
  this build, the clock is set, documents fit their ceiling and the versions and passphrases are
  within their bounds. Then the old database and keyring are both in the data directory, live or in the rollback
  directory, or the new pair is live, validated, fenced against writes to the routers, and the old
  database is in the safety archive.
\<close>

theorem restore_never_loses_a_pair:
  assumes "sound_outside ot M pass version" and "passphrase_ok rt" and "pending Faulty ot M pass d"
  shows "one_pair ot M pass (after_starts ot rt version fss d)"
proof -
  have "recoverable Faulty ot M pass (after_starts ot rt version fss d)"
    by (rule starts_safe [OF assms(1,2)]) (use assms(3) in \<open>auto simp: recoverable_def list.pred_set\<close>)
  then show ?thesis by (rule safe_pair)
qed

theorem restore_never_loses_a_pair_witness:
  "one_pair tiny_ot tiny_marker ''export''
     (after_starts tiny_ot ''rt'' ''v1'' [replicate 150 Pass @ [Break, Pass, Stop], [Stop], replicate 90 Pass @ [Stop]] tiny_disk)"
  by (rule restore_never_loses_a_pair [OF tiny_sound _ tiny_pending]) (simp add: passphrase_ok_def passphraseMaxBytes_def)

section \<open>Recovery completes\<close>

text \<open>
  C10. When starts are only killed, at any system call and any number of times, the next start that
  is left alone ends the restore, under the conditions of C9 on the rest of the controller: with the
  new pair live, validated, fenced and receipted, and its marker, its rollback directory and its
  prepared directory gone, when the new pair is valid; and otherwise with the old pair live and the
  new one prepared as before, behind a marker of the archived state. Temporary files are not part of
  the claim: a kill in \<open>writeJSONAtomic\<close> or in \<open>portablebackup\<close> may leave one, under a fresh random
  name, that no later start reads or removes.
\<close>

theorem recovery_completes:
  assumes "sound_outside ot M pass version" and "passphrase_ok rt" and "pending Killed ot M pass d"
    and "list_all (\<lambda>fs. Break \<notin> set fs) fss"
  shows "if \<exists>counts. validated ot M counts then restored ot M pass (after_starts ot rt version (fss @ [[]]) d)
    else \<exists>r. home ot M pass r (after_starts ot rt version (fss @ [[]]) d)"
proof -
  have "list_all (allowed Killed) fss" using assms(4) by (simp add: list.pred_set)
  then have "recoverable Killed ot M pass (after_starts ot rt version fss d)"
    by (rule starts_safe [OF assms(1,2)]) (use assms(3) in \<open>simp add: recoverable_def\<close>)
  from calm_start [OF assms(1,2) this] show ?thesis by (simp only: after_starts_append)
qed

theorem recovery_completes_witness:
  "if \<exists>counts. validated tiny_ot tiny_marker counts
   then restored tiny_ot tiny_marker ''export'' (after_starts tiny_ot ''rt'' ''v1'' ([replicate 150 Pass @ [Stop], [Pass, Stop]] @ [[]]) tiny_disk)
   else \<exists>r. home tiny_ot tiny_marker ''export'' r
     (after_starts tiny_ot ''rt'' ''v1'' ([replicate 150 Pass @ [Stop], [Pass, Stop]] @ [[]]) tiny_disk)"
  by (rule recovery_completes [OF tiny_sound _ tiny_pending]) (simp_all add: passphrase_ok_def passphraseMaxBytes_def)

section \<open>The cleanup\<close>

text \<open>What the cleanup of a restore looks for before it removes anything.\<close>

definition cleanup_due :: "('a outside_scheme) \<Rightarrow> marker \<Rightarrow> fsys \<Rightarrow> bool" where
  "cleanup_due ot m d \<longleftrightarrow>
     is_file d live_db (k_new_db m) \<and> is_file d live_key (k_new_key m) \<and> o_open ot (k_new_key m) \<and>
     o_validate ot (k_new_db m) (k_new_key m) = Some (k_counts m) \<and> is_file d (safety_path m) (k_safety m) \<and> fence_on ot m d"

lemma cleanup_fence:
  assumes "still (andthen (read_suppression ot) (\<lambda>v. require (fe_restore v = k_id m) why)) d = Done u"
  shows "fence_on ot m d"
  using assms
  by (auto simp: read_suppression_def still_andthen reads_andthen reads_ret reads_raise reads_read_doc still_read_doc fence_on_def still_ret
      still_raise still_require split: option.splits node.splits doc_file.splits if_splits)

text \<open>A program that does not come to its end, and leaves the disk as it is.\<close>

definition stays :: "fsys \<Rightarrow> 'a io \<Rightarrow> bool" where
  "stays d p \<longleftrightarrow> holds Faulty (\<lambda>x. x = d) p (\<lambda>_ _. False) (\<lambda>_ x. x = d) (\<lambda>x. x = d)"

lemma stays_andthen:
  assumes "reads p" and "\<And>a. still p d = Done a \<Longrightarrow> stays d (f a)"
  shows "stays d (andthen p f)"
  unfolding stays_def
proof (rule holds_andthen)
  show "holds Faulty (\<lambda>x. x = d) p (\<lambda>a x. x = d \<and> still p d = Done a) (\<lambda>_ x. x = d) (\<lambda>x. x = d)"
    by (rule holds_read [OF assms(1)]) auto
  show "holds Faulty (\<lambda>x. x = d \<and> still p d = Done a) (f a) (\<lambda>_ _. False) (\<lambda>_ x. x = d) (\<lambda>x. x = d)" for a
    by (rule holds_fact [where b = "still p d = Done a"]) (auto intro: holds_pre [OF assms(2) [unfolded stays_def]])
qed

lemma stays_thence: "reads p \<Longrightarrow> (still p d = Done () \<Longrightarrow> stays d q) \<Longrightarrow> stays d (thence p q)"
  unfolding thence_def by (rule stays_andthen) auto

lemma stays_first: "stays d p \<Longrightarrow> stays d (thence p q)"
  unfolding stays_def by (rule holds_thence [where R = "\<lambda>_. False"]) (auto simp: holds_def)

lemma stays_finish_cleanup:
  assumes "\<not> cleanup_due ot m d"
  shows "stays d (finish_cleanup ot m)"
  unfolding finish_cleanup_def in_turn.simps
proof (rule stays_thence)
  assume "still (thence check (thence (require_hash (safety_path m) (k_safety m) safetyMaxBytes) (ret ()))) d = Done ()"
  then have safety: "is_file d (safety_path m) (k_safety m)"
    by (simp add: still_thence reads_check reads_require_hash still_check still_require_hash_only split: outcome_of.splits)
  show "stays d (andthen (validate_pair ot live_db live_key (k_new_db m) (k_new_key m)) (\<lambda>counts.
      thence (thence (require (counts = k_counts m) ''restore swap: final validation inventory changed'')
          (thence (andthen (read_suppression ot) (\<lambda>v. require (fe_restore v = k_id m)
              ''restore swap: router-write suppression belongs to another restore''))
            (thence (ensure_applied_receipt ot m) (thence (remove_rollback_owned m)
              (thence (remove_prepared_owned m True) (thence remove_marker (thence check (ret ()))))))))
        (ret \<lparr>r_restore = k_id m, r_safety = safety_name m, r_safety_sha = fr_sha (k_safety m), r_counts = counts\<rparr>)))"
  proof (rule stays_andthen [OF reads_validate_pair], rule stays_first, rule stays_thence [OF reads_require(1)], rule stays_thence)
    fix counts
    assume "still (validate_pair ot live_db live_key (k_new_db m) (k_new_key m)) d = Done counts"
      and "still (require (counts = k_counts m) ''restore swap: final validation inventory changed'') d = Done ()"
      and "still (andthen (read_suppression ot) (\<lambda>v. require (fe_restore v = k_id m)
        ''restore swap: router-write suppression belongs to another restore'')) d = Done ()"
    from this(2,3) still_validate_pair_only [OF this(1)] safety cleanup_fence [OF this(3)] have "cleanup_due ot m d"
      by (simp add: cleanup_due_def still_require split: if_splits)
    with assms show "stays d p" for p :: "unit io" by blast
  qed (auto intro: reading)
qed (auto intro: reading)

lemma stays_apply_cleanup:
  assumes "map_of d [recoveryDirName] = Some Dir" "marker_on m d" "validate_marker ot (o_schema ot) m = None"
    and "k_state m = StCleanup" and "\<not> cleanup_due ot m d"
  shows "stays d (apply_pending ot rt version)"
  unfolding apply_pending_def
proof (intro stays_thence stays_andthen)
  fix m'
  assume "still (read_marker ot) d = Done m'"
  then have "m' = m" using still_read_marker [OF assms(1-3)] by simp
  then show "stays d (if k_state m' = StIntent then raise Unclean else if k_state m' = StCleanup then finish_cleanup ot m'
      else apply_ready ot m' version)"
    using assms(4) stays_finish_cleanup [OF assms(5)] by simp
qed (auto simp: reads_thence reads_check reads_require own_passphrase_def reads_ret reads_read_marker)

text \<open>
  C29. The cleanup of a restore removes nothing on trust in its marker. Take a data directory whose
  marker says that the restore is in its cleanup. Unless the live files are the new pair of the
  marker, the keyring opens, the pair validates with the inventory the marker recorded, the safety
  archive is the one the marker recorded and the fence of this restore is up, no start of the
  controller completes the restore, whatever calls fail and wherever it is killed; and any number of
  such starts leaves the directory as it was, with the rollback copies in it.
\<close>

theorem cleanup_gated:
  assumes "map_of d [recoveryDirName] = Some Dir" and "marker_on m d" and "validate_marker ot (o_schema ot) m = None"
    and "k_state m = StCleanup" and "\<not> cleanup_due ot m d"
  shows "after_starts ot rt version fss d = d \<and> (\<forall>fs res w. apply_pending ot rt version \<lparr>disk = d, faults = fs\<rparr> \<noteq> (Done res, w))"
proof -
  have run: "disk w = d \<and> (\<forall>res. r \<noteq> Done res)" if "apply_pending ot rt version \<lparr>disk = d, faults = fs\<rparr> = (r, w)" for fs r w
    using holdsD [OF stays_apply_cleanup [OF assms, unfolded stays_def] _ _ that] by (cases r) auto
  have "disk (snd (apply_pending ot rt version \<lparr>disk = d, faults = fs\<rparr>)) = d" for fs
    using run [of fs] by (metis prod.collapse)
  then have "after_starts ot rt version fss d = d" by (induction fss) simp_all
  with run show ?thesis by blast
qed

text \<open>The old database beside the new keyring, with a marker that says cleanup and the old pair in the rollback directory.\<close>

definition mixed_marker :: marker where
  "mixed_marker = tiny_marker\<lparr>k_state := StCleanup, k_safety := tiny_record 1020 CHR ''a'', k_safety_at := ''now'',
     k_counts := \<lparr>iv_schema = 25, iv_devices = 1, iv_credentials = 1, iv_sections = 1, iv_wlans = 1, iv_meshes = 0\<rparr>\<rparr>"

definition mixed_disk :: "fsys" where
  "mixed_disk =
     [(live_db, File (tiny_record 20 CHR ''a'') None), (live_key, File (tiny_record 20 CHR ''d'') None), ([recoveryDirName], Dir),
      (marker_path, File \<lparr>fr_size = 100, fr_sha = []\<rparr> (Some (MarkerDoc mixed_marker))), (rollback_dir mixed_marker, Dir),
      (rollback_key mixed_marker, File (tiny_record 10 CHR ''b'') None)]"

lemma mixed_valid: "validate_marker tiny_ot (o_schema tiny_ot) mixed_marker = None"
  by code_simp

lemma mixed_files:
  "map_of mixed_disk [recoveryDirName] = Some Dir" "map_of mixed_disk live_db = Some (File (tiny_record 20 CHR ''a'') None)"
  "map_of mixed_disk marker_path = Some (File \<lparr>fr_size = 100, fr_sha = []\<rparr> (Some (MarkerDoc mixed_marker)))"
  by (simp_all add: mixed_disk_def path_defs databaseName_def keyringName_def recoveryDirName_def markerName_def)

theorem cleanup_gated_witness:
  "after_starts tiny_ot ''rt'' ''v1'' [[], [Pass, Stop], [Pass, Break]] mixed_disk = mixed_disk \<and>
     (\<forall>fs res w. apply_pending tiny_ot ''rt'' ''v1'' \<lparr>disk = mixed_disk, faults = fs\<rparr> \<noteq> (Done res, w))"
proof (rule cleanup_gated [OF mixed_files(1) _ mixed_valid])
  show "marker_on mixed_marker mixed_disk" by (simp add: marker_on_def mixed_files markerMaxBytes_def)
  show "k_state mixed_marker = StCleanup" by (simp add: mixed_marker_def)
  show "\<not> cleanup_due tiny_ot mixed_marker mixed_disk"
    by (simp add: cleanup_due_def is_file_def mixed_files) (simp add: mixed_marker_def tiny_marker_def tiny_record_def)
qed

text \<open>
  Such a directory is within reach of a failed call and a kill. The last advance of the marker fails
  after the marker was replaced: syncing the directory fails. The rollback begins, and the process is
  killed in it. The marker on disk says cleanup, but the old database is live beside the new keyring,
  and a later start without any fault refuses and changes nothing.
\<close>

lemma cleanup_marker_over_old_pair:
  "let d = after_starts tiny_ot ''rt'' ''v1'' [replicate 222 Pass @ [Break] @ replicate 20 Pass @ [Stop]] tiny_disk
   in apply_pending tiny_ot ''rt'' ''v1'' \<lparr>disk = d, faults = []\<rparr> =
        (Failed (Refused ''restore swap: file is missing or does not match its recorded digest''), \<lparr>disk = d, faults = []\<rparr>) \<and>
      map_of d live_db = Some (File (k_old_db tiny_marker) None) \<and> map_of d live_key = Some (File (k_new_key tiny_marker) None)"
  by code_simp

end
