(* ===== verification/Spec2Isabelle.thy ===== *)
theory Spec2Isabelle
  imports SiteValidate Overrides ReconcileClaims ReconcileApply DeviceGate RenderSafety RenderForeign SwapClaims
begin

text \<open>
  oonfeeWRT is a controller for OpenWrt routers (Go, below \<open>src/internal\<close>). It keeps the desired
  state of a site, renders it to UCI sections for each device, plans the difference to what the
  device holds, and applies the plan over ubus under the rollback timer of the device.

  \<^bold>\<open>Parts and how they interact.\<close>
  The site (\<open>model\<close>) is validated before every render. \<open>Render\<close> (\<open>render\<close>) takes the
  validated site, the capabilities of a device (\<open>capability\<close>) and the snapshot of its sections,
  and makes a document of sections the controller owns and a report of what it left out.
  \<open>Doc.Plan\<close> and \<open>Doc.Prune\<close> turn document and snapshot into UCI operations. The reconciler
  (\<open>reconcile\<close>) reads the snapshot, makes that plan, hands it to the engine (\<open>applyengine\<close>) and
  records what it then owns. The gate of the daemon (\<open>daemon\<close>) lets one operation at a time touch
  a device. A restore (\<open>restoreswap\<close>) replaces the database and the keyring of the controller
  itself at a start.

  \<^bold>\<open>Theories and the code they model.\<close>
  \<^item> \<open>Prelude\<close>, \<open>GoText\<close>, \<open>Netip\<close>: association lists for Go maps, the string functions and the
    IPv4 part of \<open>net/netip\<close> the source uses.
  \<^item> \<open>Roles\<close>, \<open>SiteModel\<close>, \<open>Overrides\<close>, \<open>Zones\<close>, \<open>Policies\<close>, \<open>SiteValidate\<close>:
    \<open>model/role.go\<close>, \<open>function.go\<close>, \<open>management.go\<close>, \<open>site.go\<close>, \<open>override.go\<close>,
    \<open>zone.go\<close>, \<open>policy.go\<close>, \<open>mesh.go\<close>, \<open>uplink.go\<close>. A Go struct is a record with a prefix for its
    fields; a validator returns its errors as constructors that carry the values the text prints.
    \<open>PolicyClaims\<close> and the end of \<open>SiteValidate\<close> prove what an accepted site guarantees.
  \<^item> \<open>Capability\<close>: \<open>capability/registry.go\<close> and \<open>defects.go\<close>.
  \<^item> \<open>UciDoc\<close>: documents, snapshots, plan, prune and fingerprints (\<open>render/plan.go\<close>).
    \<open>PlanClaims\<close> bounds what a plan touches; \<open>PlanConverge\<close> shows that a device that carries a
    plan out has nothing left to do.
  \<^item> \<open>RenderBase\<close>, \<open>RenderWireless\<close>, \<open>ForeignRules\<close>, \<open>RenderNetwork\<close>, \<open>RenderPolicy\<close>,
    \<open>Render\<close>: \<open>render/render.go\<close>, \<open>mesh.go\<close>, \<open>uplink.go\<close>, \<open>mobility.go\<close>, \<open>network.go\<close>,
    \<open>policy.go\<close>. \<open>RenderFacts\<close> shows where each section comes from, by an interface for steps
    that only append; \<open>RenderClaims\<close>, \<open>RenderValid\<close>, \<open>RenderSafety\<close> and \<open>RenderForeign\<close> hold the
    guarantees, with the installation of \<open>RenderSample\<close> evaluated in the kernel.
  \<^item> \<open>ApplyPlan\<close>, \<open>ApplyEngine\<close>: \<open>applyengine/plan.go\<close> and \<open>engine.go\<close>, as functions over a
    world and a trace of the calls made, with their replies. \<open>EngineProtocol\<close> is the abstract
    protocol, a monitor of the trace; \<open>EngineRuns\<close> and \<open>EngineClaims\<close> show that every run follows
    it: nothing is reverted before the fate of the change is settled, and what stays staged is what
    the device refused to discard.
  \<^item> \<open>Reconcile\<close>, \<open>ReconcileApply\<close>, \<open>AuditText\<close>: \<open>reconcile/reconcile.go\<close> and
    \<open>redact.go\<close>; \<open>ReconcileClaims\<close> holds the properties of reading, drift and ownership.
  \<^item> \<open>DeviceGate\<close>: \<open>daemon/device_operation.go\<close> as a step relation over goroutines, one step per
    critical section, channel operation and look at the context.
  \<^item> \<open>SwapMarker\<close>, \<open>SwapFs\<close>, \<open>RestoreSwap\<close>: \<open>restoreswap\<close> and \<open>reconcileRestoreStartup\<close>, as
    programs over a data directory that may fail or be killed at every system call.
    \<open>SwapLogic\<close> has the triples for them and \<open>SwapSafety\<close> the states of the disk. \<open>SwapRun\<close> moves
    one member of the pair, \<open>SwapClean\<close> removes a directory (two interfaces), \<open>SwapSteps\<close>,
    \<open>SwapProgram\<close>, \<open>SwapStages\<close>, \<open>SwapRollback\<close>, \<open>SwapFinish\<close>, \<open>SwapArchive\<close> and \<open>SwapRestore\<close>
    follow the program step by step; \<open>SwapClaims\<close> states what any number of starts, killed or with
    failing calls, leaves, and what gates the cleanup.

  \<^bold>\<open>Bounds and fuel.\<close>
  Pool arithmetic, prefixes and generations are on words of the width of the source. The only loop
  of the source that polls, the confirmation, is \<open>partial_function (option)\<close>:
  \<open>engine_apply_returns\<close> proves that it ends when the clock of the router advances. All other
  recursion is on a list or has a measure, so no definition takes fuel.

  \<^bold>\<open>Parameters.\<close>
  Code outside the modelled parts is an argument of the definitions: the device with its clock, the
  UCI service (with its documented effect as the hypothesis \<open>uci_service\<close> where a theorem needs
  it), SHA-256, base64, \<open>time.Parse\<close>, the store, the runtime health check, and for a restore the
  packages \<open>secrets\<close>, \<open>store\<close>, \<open>recovery\<close> and \<open>portablebackup\<close>. The wording of reasons is the
  parameter \<open>say\<close>, applied to a constructor of the reason and the values it prints.

  \<^bold>\<open>Not modelled.\<close>
  \<^item> \<open>store\<close>: migrations and queries, whose meaning is SQL run by SQLite.
  \<^item> \<open>api\<close>, the rest of \<open>daemon\<close>, \<open>adoption\<close>, \<open>ubus\<close>: request handling, processes, ssh and HTTP.
  \<^item> \<open>collector\<close>, \<open>telemetry\<close>, \<open>observability\<close>, \<open>radio\<close>, \<open>roaming\<close>, \<open>onair\<close>, \<open>speedtest\<close>,
    \<open>alerts\<close>, \<open>diagnostics\<close>, \<open>integrations\<close>, \<open>firmware\<close>: observations and advice, in floating
    point; nothing of it is written to a device.
  \<^item> \<open>topology\<close>, \<open>discovery\<close>, \<open>meshlink\<close>, the probe and the diff of \<open>capability\<close>: how the answers
    of a device are read and what is inferred from them.
  \<^item> the runtime health checks of \<open>reconcile\<close>: any verdict of theirs is covered by the engine.
  \<^item> \<open>secrets\<close>, \<open>portablebackup\<close>, \<open>recovery\<close>, \<open>crypt\<close>, \<open>controllerrestore\<close>: cryptography and
    the archive format.
  \<^item> the temporary files of a restore: the one a document is written to before it is renamed into
    place, and the stage an archive is extracted to. They have fresh random names, no operation
    reads one of another run, and a kill may leave one behind.
  \<^item> the width of durations (64 bits of nanoseconds): they are unbounded integers.
  \<^item> clearing the receipt of a restore and pruning old archives, after the restore is over.
  \<^item> the one-line descriptions shown in a picker, and the web interface.
\<close>

end
